(* ===== verification/Gssh_Prelude.thy ===== *)
theory Gssh_Prelude
  imports Main "HOL-Library.Word" "HOL-Library.Sublist"
begin

text \<open>
  Shared ground of the development: the types every component uses (bytes, Go errors, fallible
  results), the parts of Go's \<open>strings\<close>, \<open>strconv\<close> and \<open>errors\<close> packages that the sources call,
  the iteration order of Go maps, and the generic lemmas on them.  The collection \<open>go_string\<close>
  gathers the string rewrite rules, \<open>go_defs\<close> the unfoldings of the small library wrappers.
\<close>

section \<open>Collections\<close>

named_theorems go_string \<open>rewrite rules for the modelled string functions\<close>
named_theorems go_defs \<open>unfoldings of the modelled library wrappers\<close>

section \<open>Types\<close>

type_synonym byte = "8 word"

text \<open>
  A Go string is a sequence of bytes; Isabelle's \<^typ>\<open>char\<close> is exactly one byte, so \<^typ>\<open>string\<close>
  is a faithful Go string (\<open>len\<close> is \<^const>\<open>length\<close>, indexing is by byte).

  Errors.  \<open>Errorf fmt args\<close> is the value of \<open>fmt.Errorf(fmt, args...)\<close>: the format and the
  arguments are kept, not rendered, so two errors are equal when they are built the same way.
  An \<open>AErr\<close> argument is one passed to a \<open>%w\<close> verb, hence wrapped.  \<open>SysErr\<close> are the
  operating-system conditions the sources test for, \<open>ExitError\<close> is a process that ended with a
  non-zero status (code, captured stderr), \<open>ExtErr\<close> is any other error of a library.
\<close>

datatype sys_err = ENOENT | ECONNREFUSED | EEXIST | ELOOP | ENOTDIR | EACCES | ETIMEDOUT | EOF

datatype go_err =
    Errorf string "go_arg list"
  | SysErr sys_err
  | ExitError int string
  | ExtErr string
and go_arg = AStr string | AInt int | AErr go_err

type_synonym 'a res = "go_err + 'a"

text \<open>\<open>errors.Is(err, target)\<close> for the system conditions: the error itself or one it wraps.\<close>

fun err_is :: "sys_err \<Rightarrow> go_err \<Rightarrow> bool" and arg_is :: "sys_err \<Rightarrow> go_arg \<Rightarrow> bool" where
  "err_is t (SysErr e) = (e = t)"
| "err_is t (Errorf f as) = list_ex (arg_is t) as"
| "err_is t (ExitError c s) = False"
| "err_is t (ExtErr s) = False"
| "arg_is t (AErr e) = err_is t e"
| "arg_is t (AStr s) = False"
| "arg_is t (AInt i) = False"

section \<open>Go's strings package\<close>

definition HasPrefix :: "string \<Rightarrow> string \<Rightarrow> bool" where
  [go_defs]: "HasPrefix s p = prefix p s"

definition HasSuffix :: "string \<Rightarrow> string \<Rightarrow> bool" where
  [go_defs]: "HasSuffix s p = suffix p s"

definition TrimSuffix :: "string \<Rightarrow> string \<Rightarrow> string" where
  "TrimSuffix s p = (if HasSuffix s p then take (length s - length p) s else s)"

text \<open>\<open>strings.Index\<close> and \<open>strings.LastIndex\<close> of a one-byte pattern; \<open>None\<close> stands for -1.\<close>

fun Index :: "string \<Rightarrow> char \<Rightarrow> nat option" where
  "Index [] c = None"
| "Index (x # xs) c = (if x = c then Some 0 else map_option Suc (Index xs c))"

definition LastIndex :: "string \<Rightarrow> char \<Rightarrow> nat option" where
  "LastIndex s c = map_option (\<lambda>i. length s - 1 - i) (Index (rev s) c)"

definition ContainsAny :: "string \<Rightarrow> string \<Rightarrow> bool" where
  [go_defs]: "ContainsAny s cs = list_ex (\<lambda>x. x \<in> set cs) s"

text \<open>\<open>strings.Split\<close> at a one-byte separator: always at least one part.\<close>

fun SplitAt :: "char \<Rightarrow> string \<Rightarrow> string list" where
  "SplitAt c [] = [[]]"
| "SplitAt c (x # xs) =
     (if x = c then [] # SplitAt c xs
      else (case SplitAt c xs of [] \<Rightarrow> [[x]] | p # ps \<Rightarrow> (x # p) # ps))"

text \<open>\<open>strings.ReplaceAll\<close> of a one-byte pattern.\<close>

fun ReplaceAll :: "string \<Rightarrow> char \<Rightarrow> string \<Rightarrow> string" where
  "ReplaceAll [] c r = []"
| "ReplaceAll (x # xs) c r = (if x = c then r else [x]) @ ReplaceAll xs c r"

text \<open>\<open>strings.Join\<close>.\<close>

fun Join :: "string \<Rightarrow> string list \<Rightarrow> string" where
  "Join sep [] = []"
| "Join sep [s] = s"
| "Join sep (s # t # ss) = s @ sep @ Join sep (t # ss)"

section \<open>Go's strconv package\<close>

definition digit_char :: "nat \<Rightarrow> char" where
  "digit_char d = char_of (48 + d)"

fun nat_digits :: "nat \<Rightarrow> string" where
  "nat_digits n = (if n < 10 then [digit_char n] else nat_digits (n div 10) @ [digit_char (n mod 10)])"

declare nat_digits.simps [simp del]

definition Itoa :: "int \<Rightarrow> string" where
  "Itoa i = (if i < 0 then CHR ''-'' # nat_digits (nat (- i)) else nat_digits (nat i))"

definition is_digit :: "char \<Rightarrow> bool" where
  "is_digit c \<longleftrightarrow> 48 \<le> (of_char c :: nat) \<and> (of_char c :: nat) \<le> 57"

fun digits_val :: "nat \<Rightarrow> string \<Rightarrow> nat option" where
  "digits_val acc [] = Some acc"
| "digits_val acc (c # cs) =
     (if is_digit c then digits_val (10 * acc + (of_char c - 48)) cs else None)"

text \<open>
  \<open>strconv.Atoi\<close>: an optional sign, at least one decimal digit, and a value in the range of a
  64-bit \<open>int\<close>; anything else is an error.
\<close>

definition Atoi :: "string \<Rightarrow> int option" where
  "Atoi s =
     (let (neg, ds) = (case s of [] \<Rightarrow> (False, [])
                       | c # cs \<Rightarrow> if c = CHR ''-'' then (True, cs)
                                   else if c = CHR ''+'' then (False, cs) else (False, s))
      in if ds = [] then None
         else (case digits_val 0 ds of None \<Rightarrow> None
               | Some n \<Rightarrow> let v = (if neg then - int n else int n)
                           in if - (2 ^ 63) \<le> v \<and> v < 2 ^ 63 then Some v else None))"

section \<open>Go's time package\<close>

text \<open>Times are nanoseconds since the epoch; \<open>Unix()\<close> rounds down to seconds.\<close>

definition unix_seconds :: "int \<Rightarrow> int" where "unix_seconds t = t div 1000000000"

section \<open>Iteration over Go maps\<close>

text \<open>
  \<open>for k := range m\<close> visits every key exactly once in an unspecified order.  An operation that
  ranges over a map takes the visited key sequence \<open>ks\<close> as an argument; \<open>range_order m ks\<close> says
  that it is one Go can choose.
\<close>

definition range_order :: "('k \<rightharpoonup> 'v) \<Rightarrow> 'k list \<Rightarrow> bool" where
  "range_order m ks \<longleftrightarrow> distinct ks \<and> set ks = dom m"

section \<open>Lemmas: strings\<close>

lemma TrimSuffix_append [go_string, simp]: "TrimSuffix (s @ p) p = s"
  by (simp add: TrimSuffix_def HasSuffix_def suffix_def)

lemma Index_None [go_string]: "Index s c = None \<longleftrightarrow> c \<notin> set s"
  by (induction s) auto

lemma Index_append [go_string]: "c \<notin> set s \<Longrightarrow> Index (s @ c # t) c = Some (length s)"
  by (induction s) auto

lemma Index_Some_split:
  "Index s c = Some i \<Longrightarrow> s = take i s @ c # drop (Suc i) s \<and> c \<notin> set (take i s) \<and> i < length s"
proof (induction s arbitrary: i)
  case Nil
  then show ?case by simp
next
  case (Cons x xs)
  then show ?case by (cases "x = c") auto
qed

lemma LastIndex_None [go_string]: "LastIndex s c = None \<longleftrightarrow> c \<notin> set s"
  by (simp add: LastIndex_def Index_None)

lemma LastIndex_append [go_string]:
  assumes "c \<notin> set t"
  shows "LastIndex (s @ c # t) c = Some (length s)"
proof -
  have "Index (rev t @ c # rev s) c = Some (length t)"
    using Index_append[of c "rev t" "rev s"] assms by simp
  then show ?thesis by (simp add: LastIndex_def)
qed

lemma SplitAt_not_Nil [simp]: "SplitAt c s \<noteq> []"
  by (induction s) (auto split: list.splits)

lemma SplitAt_no_sep [go_string]: "c \<notin> set s \<Longrightarrow> SplitAt c s = [s]"
  by (induction s) auto

lemma SplitAt_append [go_string]:
  "c \<notin> set s \<Longrightarrow> SplitAt c (s @ c # t) = s # SplitAt c t"
  by (induction s) auto

lemma SplitAt_parts_no_sep: "p \<in> set (SplitAt c s) \<Longrightarrow> c \<notin> set p"
  by (induction s arbitrary: p) (force split: list.splits if_splits)+

lemma Join_SplitAt [go_string]: "Join [c] (SplitAt c s) = s"
proof (induction s)
  case Nil
  show ?case by simp
next
  case (Cons x xs)
  obtain p ps where P: "SplitAt c xs = p # ps"
    by (cases "SplitAt c xs") auto
  with Cons.IH have J: "Join [c] (p # ps) = xs" by simp
  have "Join [c] ((x # p) # ps) = x # Join [c] (p # ps)" by (cases ps) auto
  with P J show ?case by (cases ps) (auto split: if_splits)
qed

lemma ReplaceAll_no_match [go_string]: "c \<notin> set s \<Longrightarrow> ReplaceAll s c r = s"
  by (induction s) auto

lemma ReplaceAll_append [go_string]: "ReplaceAll (s @ t) c r = ReplaceAll s c r @ ReplaceAll t c r"
  by (induction s) auto

section \<open>Lemmas: decimal numbers\<close>

lemma of_char_digit_char [simp]: "d < 10 \<Longrightarrow> (of_char (digit_char d) :: nat) = 48 + d"
  by (simp add: digit_char_def)

lemma is_digit_digit_char [simp]: "d < 10 \<Longrightarrow> is_digit (digit_char d)"
  by (simp add: is_digit_def)

lemma digits_val_append:
  "digits_val acc (s @ t) = (case digits_val acc s of None \<Rightarrow> None | Some a \<Rightarrow> digits_val a t)"
  by (induction s arbitrary: acc) auto

lemma nat_digits_not_Nil [simp]: "nat_digits n \<noteq> []"
  by (subst nat_digits.simps) simp

lemma nat_digits_is_digit: "c \<in> set (nat_digits n) \<Longrightarrow> is_digit c"
proof (induction n rule: nat_digits.induct)
  case (1 n)
  then show ?case by (subst (asm) (2) nat_digits.simps) (auto split: if_splits)
qed

lemma digits_val_nat_digits [go_string]: "digits_val 0 (nat_digits n) = Some n"
proof (induction n rule: nat_digits.induct)
  case (1 n)
  then show ?case
    by (subst nat_digits.simps) (auto simp: digits_val_append)
qed

lemma digit_not_special: "is_digit c \<Longrightarrow> c \<noteq> CHR ''-'' \<and> c \<noteq> CHR ''+'' \<and> c \<noteq> CHR '':''"
  by (auto simp: is_digit_def)

lemma Atoi_Itoa_nat [go_string]:
  assumes "n < 2 ^ 63"
  shows "Atoi (Itoa (int n)) = Some (int n)"
proof -
  obtain c cs where C: "nat_digits n = c # cs" by (cases "nat_digits n") auto
  then have "is_digit c" using nat_digits_is_digit[of c n] by simp
  then have "c \<noteq> CHR ''-''" "c \<noteq> CHR ''+''" using digit_not_special by blast+
  moreover have "int n < 2 ^ 63" using assms by (metis of_nat_less_numeral_power_cancel_iff)
  ultimately show ?thesis
    using digits_val_nat_digits[of n] by (simp add: Atoi_def Itoa_def C)
qed

lemma Itoa_nat_no_colon [go_string]: "CHR '':'' \<notin> set (Itoa (int n))"
  using nat_digits_is_digit digit_not_special by (fastforce simp: Itoa_def)

section \<open>Lemmas: results and errors\<close>

lemma err_is_wrap [simp]: "err_is t (Errorf f [AErr e]) = err_is t e"
  by simp

lemma case_res_cong_Inl [simp]: "(case r of Inl e \<Rightarrow> Inl e | Inr x \<Rightarrow> Inr x) = r"
  by (cases r) auto

lemma range_order_Nil [simp]: "range_order Map.empty ks \<longleftrightarrow> ks = []"
  by (auto simp: range_order_def)

lemma range_order_mem: "range_order m ks \<Longrightarrow> k \<in> set ks \<longleftrightarrow> m k \<noteq> None"
  by (auto simp: range_order_def dom_def)


section \<open>State machines\<close>

text \<open>
  What a step relation promises the properties of its reachable states: an invariant that holds at
  the start and that every step keeps.  Every component with a step relation provides one.
\<close>

locale state_machine =
  fixes start :: "'s \<Rightarrow> bool" and inv :: "'s \<Rightarrow> bool" and step :: "'s \<Rightarrow> 's \<Rightarrow> bool"
  assumes start_inv: "start s \<Longrightarrow> inv s"
    and step_inv: "inv s \<Longrightarrow> step s t \<Longrightarrow> inv t"
begin

lemma steps_inv: "step\<^sup>*\<^sup>* s t \<Longrightarrow> inv s \<Longrightarrow> inv t"
  by (induction rule: rtranclp_induct) (auto intro: step_inv)

lemma reach_inv: "step\<^sup>*\<^sup>* s t \<Longrightarrow> start s \<Longrightarrow> inv t"
  by (rule steps_inv[OF _ start_inv])

end

end
