(* ===== verification/Imsg.thy ===== *)
theory Imsg
  imports Gssh_Prelude
begin

unbundle bit_operations_syntax

text \<open>
  The binary frame protocol of \<open>pkg/imsg/imsg.go\<close>: the \<open>Imsg\<close> struct, \<open>NewImsg\<close>, \<open>WriteMessage\<close>
  and \<open>ReadMessage\<close>, with the big-endian field codecs of \<open>encoding/binary\<close> and
  \<open>io.ReadFull\<close>.  A reader is the byte sequence it still delivers before end of file; a
  writer is any type with a \<open>Write\<close> operation, the interface \<open>frame_writer\<close>.  The lemmas give
  the round trip of a frame and of a sequence of frames, that \<open>ReadMessage\<close> accepts canonical
  frames only, and what each error path does.
\<close>

section \<open>Frames\<close>

record Imsg =
  Version :: byte
  Type :: "16 word"
  Payload :: "byte list"

definition imsg_version :: byte where "imsg_version = 1"
definition HeaderSize :: nat where "HeaderSize = 7"
definition MaxPayloadSize :: nat where "MaxPayloadSize = 4 * 1024 * 1024"

definition NewImsg :: "16 word \<Rightarrow> byte list \<Rightarrow> Imsg" where
  "NewImsg t p = \<lparr>Version = imsg_version, Type = t, Payload = p\<rparr>"

section \<open>Big-endian fields\<close>

definition PutUint16 :: "16 word \<Rightarrow> byte list" where
  "PutUint16 v = [ucast (drop_bit 8 v), ucast v]"

definition Uint16 :: "byte \<Rightarrow> byte \<Rightarrow> 16 word" where
  "Uint16 b0 b1 = ucast b1 OR push_bit 8 (ucast b0)"

definition PutUint32 :: "32 word \<Rightarrow> byte list" where
  "PutUint32 v = [ucast (drop_bit 24 v), ucast (drop_bit 16 v), ucast (drop_bit 8 v), ucast v]"

definition Uint32 :: "byte \<Rightarrow> byte \<Rightarrow> byte \<Rightarrow> byte \<Rightarrow> 32 word" where
  "Uint32 b0 b1 b2 b3 =
     ucast b3 OR push_bit 8 (ucast b2) OR push_bit 16 (ucast b1) OR push_bit 24 (ucast b0)"

section \<open>Reading\<close>

text \<open>
  \<open>io.ReadFull(r, buf)\<close> with \<open>len(buf) = n\<close>: the next \<open>n\<close> bytes, \<open>io.EOF\<close> when the reader is
  exhausted at once and \<open>io.ErrUnexpectedEOF\<close> when it ends part-way.
\<close>

definition ReadFull :: "nat \<Rightarrow> byte list \<Rightarrow> (byte list \<times> byte list) res" where
  "ReadFull n r =
     (if n \<le> length r then Inr (take n r, drop n r)
      else if r = [] then Inl (SysErr EOF) else Inl (ExtErr ''unexpected EOF''))"

definition ReadMessage :: "byte list \<Rightarrow> (Imsg \<times> byte list) res" where
  "ReadMessage r =
     (case ReadFull HeaderSize r of
        Inl e \<Rightarrow> Inl (Errorf ''failed to read header: %w'' [AErr e])
      | Inr (header, r1) \<Rightarrow>
          let version = header ! 0 in
          if version \<noteq> imsg_version
          then Inl (Errorf ''unsupported protocol version: %d'' [AInt (uint version)])
          else
            let msgType = Uint16 (header ! 1) (header ! 2);
                len = Uint32 (header ! 3) (header ! 4) (header ! 5) (header ! 6) in
            if MaxPayloadSize < unat len
            then Inl (Errorf ''payload too large: %d bytes (max %d)''
                        [AInt (uint len), AInt (int MaxPayloadSize)])
            else if 0 < unat len
            then (case ReadFull (unat len) r1 of
                    Inl e \<Rightarrow> Inl (Errorf ''failed to read payload: %w'' [AErr e])
                  | Inr (payload, r2) \<Rightarrow>
                      Inr (\<lparr>Version = version, Type = msgType, Payload = payload\<rparr>, r2))
            else Inr (\<lparr>Version = version, Type = msgType, Payload = []\<rparr>, r1))"

section \<open>Writing\<close>

text \<open>
  \<open>WriteMessage\<close> over a writer with state \<open>'w\<close>: \<open>write bs w\<close> is \<open>w.Write(bs)\<close>, giving the error
  it returned, if any, and the writer afterwards.
\<close>

definition frame_header :: "Imsg \<Rightarrow> byte list" where
  "frame_header msg =
     Version msg # PutUint16 (Type msg) @ PutUint32 (word_of_nat (length (Payload msg)))"

definition WriteMessage ::
  "(byte list \<Rightarrow> 'w \<Rightarrow> go_err option \<times> 'w) \<Rightarrow> 'w \<Rightarrow> Imsg \<Rightarrow> go_err option \<times> 'w" where
  "WriteMessage write w msg =
     (if MaxPayloadSize < length (Payload msg)
      then (Some (Errorf ''payload too large: %d bytes (max %d)''
                    [AInt (int (length (Payload msg))), AInt (int MaxPayloadSize)]), w)
      else
        (case write (frame_header msg) w of
           (Some e, w1) \<Rightarrow> (Some (Errorf ''failed to write header: %w'' [AErr e]), w1)
         | (None, w1) \<Rightarrow>
             if 0 < length (Payload msg)
             then (case write (Payload msg) w1 of
                     (Some e, w2) \<Rightarrow> (Some (Errorf ''failed to write payload: %w'' [AErr e]), w2)
                   | (None, w2) \<Rightarrow> (None, w2))
             else (None, w1)))"

text \<open>The bytes of one frame, and the receiver's loop over a byte sequence.\<close>

definition frame :: "Imsg \<Rightarrow> byte list" where
  "frame msg = frame_header msg @ Payload msg"

definition frame_ok :: "Imsg \<Rightarrow> bool" where
  "frame_ok msg \<longleftrightarrow> Version msg = imsg_version \<and> length (Payload msg) \<le> MaxPayloadSize"

fun read_all :: "nat \<Rightarrow> byte list \<Rightarrow> Imsg list \<times> byte list" where
  "read_all 0 r = ([], r)"
| "read_all (Suc n) r =
     (case ReadMessage r of Inl e \<Rightarrow> ([], r)
      | Inr (m, r') \<Rightarrow> let (ms, r'') = read_all n r' in (m # ms, r''))"

text \<open>A connection as a writer: it appends until it is closed.\<close>

record conn =
  rx :: "byte list"
  tx :: "byte list"
  conn_closed :: bool

definition conn_write :: "byte list \<Rightarrow> conn \<Rightarrow> go_err option \<times> conn" where
  "conn_write bs c =
     (if conn_closed c then (Some (ExtErr ''use of closed network connection''), c)
      else (None, c\<lparr>tx := tx c @ bs\<rparr>))"

section \<open>Lemmas: field codecs\<close>

lemma bit_byte_high: "8 \<le> n \<Longrightarrow> \<not> bit (b :: byte) n"
  by (auto dest: bit_imp_le_length)

lemma Uint16_PutUint16: "Uint16 (ucast (drop_bit 8 v)) (ucast v) = v"
proof (rule bit_eqI)
  fix n assume "possible_bit TYPE(16 word) n"
  then show "bit (Uint16 (ucast (drop_bit 8 v)) (ucast v)) n = bit v n"
    by (cases "n < 8") (auto simp: Uint16_def bit_simps dest: bit_imp_le_length)
qed

lemma PutUint16_Uint16: "PutUint16 (Uint16 b0 b1) = [b0, b1]"
  by (auto simp: PutUint16_def Uint16_def intro!: bit_eqI simp: bit_simps bit_byte_high)

lemma Uint32_PutUint32:
  "Uint32 (ucast (drop_bit 24 v)) (ucast (drop_bit 16 v)) (ucast (drop_bit 8 v)) (ucast v) = v"
  (is "?u = v")
proof (rule bit_eqI)
  fix n assume n: "possible_bit TYPE(32 word) n"
  consider "n < 8" | "8 \<le> n" "n < 16" | "16 \<le> n" "n < 24" | "24 \<le> n" by linarith
  then show "bit ?u n = bit v n"
    using n by cases (auto simp: Uint32_def bit_simps dest: bit_imp_le_length)
qed

lemma PutUint32_Uint32: "PutUint32 (Uint32 b0 b1 b2 b3) = [b0, b1, b2, b3]"
  by (auto simp: PutUint32_def Uint32_def intro!: bit_eqI simp: bit_simps bit_byte_high)

section \<open>Lemmas: one frame\<close>

lemma length_frame_header [simp]: "length (frame_header msg) = HeaderSize"
  by (simp add: frame_header_def PutUint16_def PutUint32_def HeaderSize_def)

lemma length_frame: "length (frame msg) = HeaderSize + length (Payload msg)"
  by (simp add: frame_def)

lemma unat_payload_length:
  "length p \<le> MaxPayloadSize \<Longrightarrow> unat (word_of_nat (length p) :: 32 word) = length p"
  by (simp add: MaxPayloadSize_def unat_of_nat)

lemma ReadFull_append [simp]: "ReadFull (length a) (a @ b) = Inr (a, b)"
  by (simp add: ReadFull_def)

lemma ReadFull_header [simp]: "ReadFull HeaderSize (frame_header m @ r) = Inr (frame_header m, r)"
  using ReadFull_append[of "frame_header m" r] by simp

lemma ReadFull_Inr: "ReadFull n r = Inr (a, b) \<longleftrightarrow> r = a @ b \<and> length a = n"
  by (auto simp: ReadFull_def)

lemma frame_header_nth:
  "frame_header m ! 0 = Version m"
  "Uint16 (frame_header m ! Suc 0) (frame_header m ! 2) = Type m"
  "Uint32 (frame_header m ! 3) (frame_header m ! 4) (frame_header m ! 5) (frame_header m ! 6)
     = word_of_nat (length (Payload m))"
  by (simp_all add: frame_header_def PutUint16_def PutUint32_def Uint16_PutUint16 Uint32_PutUint32)

lemma ReadMessage_frame:
  assumes "frame_ok msg"
  shows "ReadMessage (frame msg @ rest) = Inr (msg, rest)"
proof -
  from assms have V: "Version msg = imsg_version" and L: "length (Payload msg) \<le> MaxPayloadSize"
    by (auto simp: frame_ok_def)
  have H: "ReadFull HeaderSize (frame msg @ rest) = Inr (frame_header msg, Payload msg @ rest)"
    by (simp add: frame_def)
  show ?thesis
    using V L by (auto simp: ReadMessage_def H frame_header_nth unat_payload_length Let_def)
qed

text \<open>Conversely, whatever \<open>ReadMessage\<close> accepts is one canonical frame followed by the rest.\<close>

lemma header_of_bytes:
  assumes "length h = HeaderSize"
    and "h ! 0 = Version m" "Uint16 (h ! 1) (h ! 2) = Type m"
    and "Uint32 (h ! 3) (h ! 4) (h ! 5) (h ! 6) = word_of_nat (length (Payload m))"
  shows "frame_header m = h"
proof -
  obtain a b c d e f g where h: "h = [a, b, c, d, e, f, g]"
    using assms(1) by (auto simp: HeaderSize_def length_Suc_conv numeral_eq_Suc)
  with assms show ?thesis
    by (simp add: frame_header_def PutUint16_Uint16 PutUint32_Uint32 flip: assms(2-4))
qed

lemma ReadMessage_Inr:
  assumes "ReadMessage r = Inr (m, rest)"
  shows "frame_ok m \<and> r = frame m @ rest"
proof -
  obtain h r1 where h: "r = h @ r1" "length h = HeaderSize" "h ! 0 = imsg_version"
    and L: "unat (Uint32 (h ! 3) (h ! 4) (h ! 5) (h ! 6)) \<le> MaxPayloadSize"
    and m: "Version m = imsg_version" "Type m = Uint16 (h ! 1) (h ! 2)"
    and p: "length (Payload m) = unat (Uint32 (h ! 3) (h ! 4) (h ! 5) (h ! 6))"
           "r1 = Payload m @ rest"
    using assms
    by (fastforce simp: ReadMessage_def Let_def ReadFull_Inr not_less
          split: sum.splits prod.splits if_splits)
  have "frame_header m = h"
    using h m p(1) by (intro header_of_bytes) auto
  then show ?thesis using h L m p by (simp add: frame_ok_def frame_def)
qed

lemma ReadMessage_shorter: "ReadMessage r = Inr (m, rest) \<Longrightarrow> length rest < length r"
  using ReadMessage_Inr[of r m rest] by (auto simp: frame_def frame_header_def)

lemma read_all_frames:
  "list_all frame_ok ms \<Longrightarrow> read_all (length ms) (concat (map frame ms) @ rest) = (ms, rest)"
  by (induction ms) (simp_all add: ReadMessage_frame)

section \<open>The writer interface\<close>

text \<open>
  What \<open>io.Writer\<close> promises and \<open>WriteMessage\<close> relies on: a successful \<open>Write\<close> has appended
  all the bytes, a failed one an initial part of them.  \<open>out w\<close> is what has been written so far.
\<close>

locale frame_writer =
  fixes wr :: "byte list \<Rightarrow> 'w \<Rightarrow> go_err option \<times> 'w"
    and out :: "'w \<Rightarrow> byte list"
  assumes write_ok: "wr bs w = (None, w') \<Longrightarrow> out w' = out w @ bs"
    and write_err: "wr bs w = (Some e, w') \<Longrightarrow> \<exists>p. prefix p bs \<and> out w' = out w @ p"
begin

lemma message_sent:
  assumes "WriteMessage wr w m = (None, w')"
  shows "out w' = out w @ frame m"
proof -
  obtain w1 where h: "wr (frame_header m) w = (None, w1)"
    and t: "if Payload m = [] then w' = w1 else wr (Payload m) w1 = (None, w')"
    using assms by (auto simp: WriteMessage_def split: if_splits prod.splits option.splits)
  from h have "out w1 = out w @ frame_header m" by (rule write_ok)
  with t show ?thesis by (auto simp: frame_def split: if_splits dest: write_ok)
qed

lemma message_too_large:
  "MaxPayloadSize < length (Payload m) \<Longrightarrow> snd (WriteMessage wr w m) = w"
  by (simp add: WriteMessage_def)

lemma message_failed:
  assumes "WriteMessage wr w m = (Some e, w')"
  shows "\<exists>p. prefix p (frame m) \<and> out w' = out w @ p"
proof -
  consider (big) "w' = w"
    | (head) e' where "wr (frame_header m) w = (Some e', w')"
    | (body) w1 e' where "wr (frame_header m) w = (None, w1)"
        "wr (Payload m) w1 = (Some e', w')"
    using assms by (auto simp: WriteMessage_def split: if_splits prod.splits option.splits)
  then show ?thesis
  proof cases
    case big
    then show ?thesis by (intro exI[of _ "[]"]) simp
  next
    case head
    from write_err[OF head] show ?thesis by (auto simp: frame_def intro: prefix_prefix)
  next
    case body
    from write_err[OF body(2)] obtain p where p: "prefix p (Payload m)" "out w' = out w1 @ p"
      by blast
    moreover have "out w1 = out w @ frame_header m" using body(1) by (rule write_ok)
    ultimately have "prefix (frame_header m @ p) (frame m)" "out w' = out w @ frame_header m @ p"
      by (simp_all add: frame_def)
    then show ?thesis by blast
  qed
qed

end

interpretation conn_out: frame_writer conn_write tx
  by unfold_locales (auto simp: conn_write_def split: if_splits)

text \<open>Sending a list of messages on a connection, stopping at the first error.\<close>

fun write_all :: "conn \<Rightarrow> Imsg list \<Rightarrow> go_err option \<times> conn" where
  "write_all c [] = (None, c)"
| "write_all c (m # ms) =
     (case WriteMessage conn_write c m of (Some e, c') \<Rightarrow> (Some e, c')
      | (None, c') \<Rightarrow> write_all c' ms)"

lemma write_all_tx: "write_all c ms = (None, c') \<Longrightarrow> tx c' = tx c @ concat (map frame ms)"
proof (induction ms arbitrary: c)
  case Nil
  then show ?case by simp
next
  case (Cons m ms)
  from Cons.prems obtain c1 where m: "WriteMessage conn_write c m = (None, c1)"
    and w: "write_all c1 ms = (None, c')"
    by (auto split: prod.splits option.splits)
  from m have "tx c1 = tx c @ frame m" by (rule conn_out.message_sent)
  with Cons.IH[OF w] show ?case by simp
qed

lemma WriteMessage_ok_payload:
  "WriteMessage write w m = (None, w') \<Longrightarrow> length (Payload m) \<le> MaxPayloadSize"
  by (auto simp: WriteMessage_def split: if_splits)

lemma write_all_payloads:
  "write_all c ms = (None, c') \<Longrightarrow> \<forall>m \<in> set ms. length (Payload m) \<le> MaxPayloadSize"
  by (induction ms arbitrary: c)
    (auto split: prod.splits option.splits dest: WriteMessage_ok_payload)

section \<open>Properties\<close>

text \<open>
  Frame parsing is exact.  \<open>ReadMessage\<close> returns a message and the unread rest of the input
  exactly when the input is the canonical frame of that message (version 1, big-endian type and
  length, at most 4 MiB of payload) followed by that rest; so every accepted input is a frame
  \<open>WriteMessage\<close> would produce, and every such frame is read back unchanged.
\<close>

theorem ReadMessage_exact:
  "ReadMessage r = Inr (m, rest) \<longleftrightarrow> frame_ok m \<and> r = frame m @ rest"
  using ReadMessage_frame ReadMessage_Inr by blast

text \<open>
  C12: streams of frames round-trip.  If a sequence of protocol-version messages is sent on a
  connection without an error, the peer that reads the bytes put on the wire, followed by any
  later bytes, receives the same messages in the same order and stops exactly where they end.
\<close>

theorem write_read_stream:
  assumes "write_all c ms = (None, c')" and "\<forall>m \<in> set ms. Version m = imsg_version"
    and "tx c = []"
  shows "read_all (length ms) (tx c' @ rest) = (ms, rest)"
proof -
  have "list_all frame_ok ms"
    using write_all_payloads[OF assms(1)] assms(2) by (auto simp: frame_ok_def list_all_iff)
  then show ?thesis using write_all_tx[OF assms(1)] assms(3) by (simp add: read_all_frames)
qed

theorem write_read_stream_witness:
  "read_all 2 (tx (snd (write_all \<lparr>rx = [], tx = [], conn_closed = False\<rparr>
       [NewImsg 18 [], NewImsg 6 [123, 125]])) @ [7]) = ([NewImsg 18 [], NewImsg 6 [123, 125]], [7])"
proof -
  let ?c = "\<lparr>rx = [], tx = [], conn_closed = False\<rparr>"
  let ?ms = "[NewImsg 18 [], NewImsg 6 [123, 125]]"
  have "fst (write_all ?c ?ms) = None"
    by (simp add: WriteMessage_def conn_write_def NewImsg_def MaxPayloadSize_def)
  then have w: "write_all ?c ?ms = (None, snd (write_all ?c ?ms))"
    by (metis prod.collapse)
  have v: "\<forall>m \<in> set ?ms. Version m = imsg_version" and t: "tx ?c = []"
    by (simp_all add: NewImsg_def)
  show ?thesis using write_read_stream[OF w v t, of "[7]"] by (simp add: numeral_2_eq_2)
qed

text \<open>
  A failed send never corrupts the stream with anything but a truncated frame.  Whatever
  error \<open>WriteMessage\<close> reports on a connection, the bytes it added are an initial part of that
  message's frame; and an oversized payload (more than 4 MiB) is refused before any byte is sent.
\<close>

theorem WriteMessage_failure_prefix:
  assumes "WriteMessage conn_write c m = (Some e, c')"
  shows "\<exists>p. prefix p (frame m) \<and> tx c' = tx c @ p
           \<and> (MaxPayloadSize < length (Payload m) \<longrightarrow> p = [])"
proof -
  obtain p where p: "prefix p (frame m)" "tx c' = tx c @ p"
    using conn_out.message_failed[OF assms] by blast
  have "MaxPayloadSize < length (Payload m) \<Longrightarrow> c' = c"
    using conn_out.message_too_large[of m c] assms by simp
  with p show ?thesis by auto
qed

theorem WriteMessage_failure_prefix_witness:
  "\<exists>p. prefix p (frame (NewImsg 18 [1])) \<and> tx \<lparr>rx = [], tx = [9], conn_closed = True\<rparr> = [9] @ p
     \<and> (MaxPayloadSize < length (Payload (NewImsg 18 [1])) \<longrightarrow> p = [])"
proof -
  let ?c = "\<lparr>rx = [], tx = [9], conn_closed = True\<rparr>"
  have "WriteMessage conn_write ?c (NewImsg 18 [1]) =
      (Some (Errorf ''failed to write header: %w''
               [AErr (ExtErr ''use of closed network connection'')]), ?c)"
    by (simp add: WriteMessage_def conn_write_def NewImsg_def MaxPayloadSize_def)
  from WriteMessage_failure_prefix[OF this] show ?thesis by simp
qed

end
