(* ===== verification/Shellquote.thy ===== *)
theory Shellquote
  imports Gssh_Prelude
begin

text \<open>
  Shell quoting: \<open>Quote\<close> of \<open>internal/shellquote/quote.go\<close> (used by the executor) and
  \<open>shellQuote\<close>, \<open>joinCommandArgs\<close> of \<open>cmd/gssh/commands.go\<close> (used by the CLI).  The specification
  is a reading of a POSIX shell command line, \<open>sh_words\<close>: the words of a simple command that
  contains no operator and no expansion, and \<open>None\<close> for every other line.  The interface
  \<open>shell_quoter\<close> says what a quoting function promises to that reader; both quoters are
  instances, so a command line assembled from quoted arguments is read back as exactly those
  arguments and nothing in them can start an expansion, an operator or another command.
\<close>

section \<open>The quoting functions\<close>

definition safeChars :: string where
  "safeChars = ''abcdefghijklmnopqrstuvwxyzABCDEFGHIJKLMNOPQRSTUVWXYZ0123456789_@%+=:,./-''"

text \<open>The five characters \<open>'"'"'\<close> an embedded single quote is replaced by.\<close>

definition quote_escape :: string where
  "quote_escape = [CHR 0x27, CHR 0x22, CHR 0x27, CHR 0x22, CHR 0x27]"

definition Quote :: "string \<Rightarrow> string" where
  "Quote s =
     (if s = [] then [CHR 0x27, CHR 0x27]
      else if \<not> list_ex (\<lambda>r. r \<notin> set safeChars) s then s
      else [CHR 0x27] @ ReplaceAll s (CHR 0x27) quote_escape @ [CHR 0x27])"

definition shellQuote :: "string \<Rightarrow> string" where
  "shellQuote arg =
     (if arg = [] then [CHR 0x27, CHR 0x27]
      else [CHR 0x27] @ ReplaceAll arg (CHR 0x27) quote_escape @ [CHR 0x27])"

definition joinCommandArgs :: "string list \<Rightarrow> string" where
  "joinCommandArgs args =
     (case args of [] \<Rightarrow> []
      | [a] \<Rightarrow> a
      | _ \<Rightarrow> Join '' '' (map shellQuote args))"

section \<open>Specification: reading a POSIX command line\<close>

definition sh_blank :: "char \<Rightarrow> bool" where
  "sh_blank c \<longleftrightarrow> c = CHR '' '' \<or> c = CHR 0x09"

text \<open>
  Characters with a meaning of their own outside quotes: newline, \<open>!\<close>, \<open>"\<close>, \<open>#\<close>, \<open>$\<close>, \<open>&\<close>, \<open>'\<close>,
  \<open>(\<close>, \<open>)\<close>, \<open>*\<close>, \<open>;\<close>, \<open><\<close>, \<open>>\<close>, \<open>?\<close>, \<open>[\<close>, the backslash, the backquote, \<open>{\<close>, \<open>|\<close>, \<open>}\<close>, \<open>~\<close>.
\<close>

definition sh_special :: "char \<Rightarrow> bool" where
  "sh_special c \<longleftrightarrow> c \<in> set [CHR 0x0A, CHR 0x21, CHR 0x22, CHR 0x23, CHR 0x24, CHR 0x26, CHR 0x27,
     CHR 0x28, CHR 0x29, CHR 0x2A, CHR 0x3B, CHR 0x3C, CHR 0x3E, CHR 0x3F, CHR 0x5B, CHR 0x5C,
     CHR 0x60, CHR 0x7B, CHR 0x7C, CHR 0x7D, CHR 0x7E]"

definition word_so_far :: "string option \<Rightarrow> string" where
  "word_so_far w = (case w of None \<Rightarrow> [] | Some x \<Rightarrow> x)"

text \<open>
  Three modes: outside quotes with the word read so far, inside single quotes (everything up to
  the next one is literal), inside double quotes (literal except \<open>$\<close>, backquote, backslash).
\<close>

fun lex_plain :: "string option \<Rightarrow> string \<Rightarrow> string list option"
and lex_single :: "string \<Rightarrow> string \<Rightarrow> string list option"
and lex_double :: "string \<Rightarrow> string \<Rightarrow> string list option" where
  "lex_plain w [] = Some (case w of None \<Rightarrow> [] | Some x \<Rightarrow> [x])"
| "lex_plain w (c # cs) =
     (if sh_blank c
      then (case w of None \<Rightarrow> lex_plain None cs | Some x \<Rightarrow> map_option (Cons x) (lex_plain None cs))
      else if c = CHR 0x27 then lex_single (word_so_far w) cs
      else if c = CHR 0x22 then lex_double (word_so_far w) cs
      else if sh_special c then None
      else lex_plain (Some (word_so_far w @ [c])) cs)"
| "lex_single w [] = None"
| "lex_single w (c # cs) =
     (if c = CHR 0x27 then lex_plain (Some w) cs else lex_single (w @ [c]) cs)"
| "lex_double w [] = None"
| "lex_double w (c # cs) =
     (if c = CHR 0x22 then lex_plain (Some w) cs
      else if c \<in> {CHR 0x24, CHR 0x60, CHR 0x5C} then None
      else lex_double (w @ [c]) cs)"

definition sh_words :: "string \<Rightarrow> string list option" where
  "sh_words s = lex_plain None s"

section \<open>What a quoting function promises\<close>

locale shell_quoter =
  fixes quote :: "string \<Rightarrow> string"
  assumes lex_quote: "lex_plain w (quote s @ r) = lex_plain (Some (word_so_far w @ s)) r"
begin

lemma lex_quoted_args:
  assumes "args \<noteq> []"
  shows "lex_plain None (Join '' '' (map quote args)) = Some args"
  using assms
proof (induction args rule: induct_list012)
  case 1
  then show ?case by simp
next
  case (2 a)
  show ?case using lex_quote[of None a "[]"] by (simp add: word_so_far_def)
next
  case (3 a b args)
  then show ?case by (simp add: lex_quote word_so_far_def sh_blank_def)
qed

lemma lex_after_words:
  "lex_plain None (Join '' '' (map quote (a # args)) @ '' '' @ r) =
     map_option (append (a # args)) (lex_plain None r)"
proof (induction args arbitrary: a)
  case Nil
  show ?case
    by (simp add: lex_quote word_so_far_def sh_blank_def option.map_comp o_def option.map_ident)
next
  case (Cons b args)
  then show ?case
    by (simp add: lex_quote word_so_far_def sh_blank_def option.map_comp o_def)
qed

end

section \<open>Lemmas: both quoters are instances\<close>

lemma lex_single_literal:
  "CHR 0x27 \<notin> set s \<Longrightarrow> lex_single w (s @ CHR 0x27 # r) = lex_plain (Some (w @ s)) r"
  by (induction s arbitrary: w) auto

lemma lex_single_escaped:
  "lex_single w (ReplaceAll s (CHR 0x27) quote_escape @ CHR 0x27 # r) = lex_plain (Some (w @ s)) r"
proof (induction s arbitrary: w)
  case Nil
  show ?case by simp
next
  case (Cons c s)
  then show ?case
    by (simp add: quote_escape_def sh_blank_def word_so_far_def)
qed

lemma lex_single_quoted:
  "lex_plain w ([CHR 0x27] @ ReplaceAll s (CHR 0x27) quote_escape @ [CHR 0x27] @ r) =
     lex_plain (Some (word_so_far w @ s)) r"
  using lex_single_escaped by (simp add: sh_blank_def)

lemma lex_empty_quoted:
  "lex_plain w ([CHR 0x27, CHR 0x27] @ r) = lex_plain (Some (word_so_far w)) r"
  by (simp add: sh_blank_def)

lemma safe_not_special: "list_all (\<lambda>c. \<not> sh_blank c \<and> \<not> sh_special c) safeChars"
  by (simp add: safeChars_def sh_blank_def sh_special_def)

lemma lex_safe:
  "s \<noteq> [] \<Longrightarrow> list_all (\<lambda>c. c \<in> set safeChars) s \<Longrightarrow>
   lex_plain w (s @ r) = lex_plain (Some (word_so_far w @ s)) r"
proof (induction s arbitrary: w)
  case Nil
  then show ?case by simp
next
  case (Cons c s)
  then have c: "\<not> sh_blank c" "\<not> sh_special c"
    using safe_not_special by (auto simp: list_all_iff)
  then have "c \<noteq> CHR 0x27" "c \<noteq> CHR 0x22" by (auto simp: sh_special_def)
  with c Cons show ?case by (cases "s = []") (simp_all add: word_so_far_def)
qed

interpretation cli_quote: shell_quoter shellQuote
proof
  fix w s r
  show "lex_plain w (shellQuote s @ r) = lex_plain (Some (word_so_far w @ s)) r"
    using lex_single_quoted[of w s r] lex_empty_quoted[of w r] by (simp add: shellQuote_def)
qed

interpretation posix_quote: shell_quoter Quote
proof
  fix w s r
  have "\<not> list_ex (\<lambda>r. r \<notin> set safeChars) s \<Longrightarrow> list_all (\<lambda>c. c \<in> set safeChars) s"
    by (induction s) auto
  then show "lex_plain w (Quote s @ r) = lex_plain (Some (word_so_far w @ s)) r"
    using lex_single_quoted[of w s r] lex_empty_quoted[of w r] lex_safe[of s w r]
    by (simp add: Quote_def)
qed

section \<open>Properties\<close>

text \<open>
  The executor's quoting is exact for every string.  The word a POSIX shell reads from
  \<open>Quote s\<close>, alone on a command line, is \<open>s\<close> itself: no byte of \<open>s\<close> is lost, added or
  interpreted, whatever quotes, newlines, dollar signs or other metacharacters it contains.
\<close>

theorem Quote_single_word: "sh_words (Quote s) = Some [s]"
  using posix_quote.lex_quoted_args[of "[s]"] by (simp add: sh_words_def)

text \<open>
  A multi-argument CLI command line keeps its argument boundaries.  When \<open>joinCommandArgs\<close>
  receives two or more arguments, a POSIX shell reads its result as a simple command whose words
  are exactly those arguments; with one argument the string is passed on verbatim, and with none
  it is empty.
\<close>

theorem joinCommandArgs_words:
  "case args of [] \<Rightarrow> joinCommandArgs args = []
   | [a] \<Rightarrow> joinCommandArgs args = a
   | _ \<Rightarrow> sh_words (joinCommandArgs args) = Some args"
  using cli_quote.lex_quoted_args[of args]
  by (auto simp: joinCommandArgs_def sh_words_def split: list.splits)

end
