(* ===== verification/Gopath.thy ===== *)
theory Gopath
  imports Gssh_Prelude
begin

text \<open>
  The functions of Go's \<open>path/filepath\<close> (Unix) that the sources call: \<open>Clean\<close>, \<open>Join\<close>, \<open>Base\<close>,
  \<open>Dir\<close>, \<open>IsAbs\<close>, \<open>IsLocal\<close>, \<open>Rel\<close>, \<open>Abs\<close>.  A path is split into its components; a cleaned path
  is a rootedness flag and a list of components (\<open>parsed\<close>), rendered back by \<open>render\<close>.  The
  lemmas characterise cleaned component lists and when \<open>Rel\<close> leaves its base.
\<close>

section \<open>Definitions\<close>

abbreviation slash :: char where "slash \<equiv> CHR ''/''"

definition IsAbs :: "string \<Rightarrow> bool" where
  "IsAbs p = HasPrefix p ''/''"

text \<open>One pass over the components, with the output components in reverse.\<close>

fun clean_comps :: "bool \<Rightarrow> string list \<Rightarrow> string list \<Rightarrow> string list" where
  "clean_comps rooted acc [] = rev acc"
| "clean_comps rooted acc (c # cs) =
     (if c = '''' \<or> c = ''.'' then clean_comps rooted acc cs
      else if c = ''..'' then
        (case acc of
           [] \<Rightarrow> clean_comps rooted (if rooted then [] else [''..'']) cs
         | a # as \<Rightarrow> clean_comps rooted (if a = ''..'' then ''..'' # acc else as) cs)
      else clean_comps rooted (c # acc) cs)"

definition comps :: "string \<Rightarrow> string list" where
  "comps p = clean_comps (IsAbs p) [] (SplitAt slash p)"

definition render :: "bool \<Rightarrow> string list \<Rightarrow> string" where
  "render rooted cs =
     (if rooted then slash # Join ''/'' cs else if cs = [] then ''.'' else Join ''/'' cs)"

definition Clean :: "string \<Rightarrow> string" where
  "Clean p = (if p = '''' then ''.'' else render (IsAbs p) (comps p))"

fun path_join :: "string list \<Rightarrow> string" where
  "path_join [] = ''''"
| "path_join (e # es) = (if e = '''' then path_join es else Clean (Join ''/'' (e # es)))"

definition Base :: "string \<Rightarrow> string" where
  "Base p =
     (if p = '''' then ''.''
      else let q = rev (dropWhile (\<lambda>c. c = slash) (rev p)) in
           if q = '''' then ''/'' else last (SplitAt slash q))"

definition Dir :: "string \<Rightarrow> string" where
  "Dir p = Clean (case LastIndex p slash of None \<Rightarrow> '''' | Some i \<Rightarrow> take (Suc i) p)"

definition IsLocal :: "string \<Rightarrow> bool" where
  "IsLocal p =
     (if IsAbs p \<or> p = '''' then False
      else let hasDots = list_ex (\<lambda>c. c = ''.'' \<or> c = ''..'') (SplitAt slash p);
               q = (if hasDots then Clean p else p)
           in \<not> (q = ''..'' \<or> HasPrefix q ''../''))"

fun strip_common :: "string list \<Rightarrow> string list \<Rightarrow> string list \<times> string list" where
  "strip_common (b # bs) (t # ts) = (if b = t then strip_common bs ts else (b # bs, t # ts))"
| "strip_common bs ts = (bs, ts)"

definition Rel :: "string \<Rightarrow> string \<Rightarrow> string res" where
  "Rel basepath targpath =
     (let base = Clean basepath; targ = Clean targpath;
          rerr = Inl (Errorf ''Rel: can't make %s relative to %s'' [AStr targpath, AStr basepath]) in
      if targ = base then Inr ''.''
      else if IsAbs base \<noteq> IsAbs targ then rerr
      else
        let tc = (if targ = ''.'' then [''.''] else comps targ);
            (bs, ts) = strip_common (comps base) tc in
        if bs \<noteq> [] \<and> ts \<noteq> [] \<and> hd bs = ''..'' then rerr
        else Inr (Join ''/'' (replicate (length bs) ''..'' @ ts)))"

text \<open>\<open>filepath.Abs\<close>, with the working directory (or the failure to get it) as an argument.\<close>

definition Abs_path :: "string res \<Rightarrow> string \<Rightarrow> string res" where
  "Abs_path cwd p =
     (if IsAbs p then Inr (Clean p)
      else case cwd of Inl e \<Rightarrow> Inl e | Inr wd \<Rightarrow> Inr (path_join [wd, p]))"

text \<open>A clean component list: no empty, dot or (after a name, or below a root) dot-dot component.\<close>

definition name_comp :: "string \<Rightarrow> bool" where
  "name_comp c \<longleftrightarrow> c \<noteq> '''' \<and> c \<noteq> ''.'' \<and> c \<noteq> ''..'' \<and> slash \<notin> set c"

definition clean_list :: "bool \<Rightarrow> string list \<Rightarrow> bool" where
  "clean_list rooted cs \<longleftrightarrow>
     (\<exists>n ns. cs = replicate n ''..'' @ ns \<and> list_all name_comp ns \<and> (rooted \<longrightarrow> n = 0))"

section \<open>Lemmas: cleaned component lists\<close>

lemma IsAbs_Cons [simp]: "IsAbs (c # p) = (c = slash)"
  by (auto simp: IsAbs_def HasPrefix_def)

lemma IsAbs_Nil [simp]: "\<not> IsAbs ''''"
  by (simp add: IsAbs_def HasPrefix_def)

lemma clean_comps_clean:
  assumes "list_all (\<lambda>c. slash \<notin> set c) cs" and "clean_list rooted (rev acc)"
  shows "clean_list rooted (clean_comps rooted acc cs)"
  using assms
proof (induction cs arbitrary: acc)
  case Nil
  then show ?case by simp
next
  case (Cons c cs)
  from Cons.prems(2) obtain n ns where acc: "rev acc = replicate n ''..'' @ ns"
    and ns: "list_all name_comp ns" and r: "rooted \<longrightarrow> n = 0"
    by (auto simp: clean_list_def)
  have rest: "list_all (\<lambda>c. slash \<notin> set c) cs" using Cons.prems by simp
  have acc': "acc = rev ns @ replicate n ''..''" using acc by (metis rev_append rev_replicate rev_rev_ident)
  have up: "clean_list rooted (rev (''..'' # acc))" if "ns = []" "\<not> rooted"
    unfolding clean_list_def
    using that acc by (intro exI[of _ "Suc n"] exI[of _ "[]"]) (simp add: replicate_append_same)
  have push: "clean_list rooted (rev (c # acc))" if "name_comp c"
    unfolding clean_list_def
    using that acc ns r by (intro exI[of _ n] exI[of _ "ns @ [c]"]) simp
  have pop: "clean_list rooted (rev as)" "a \<noteq> ''..''" if h1: "acc = a # as" and h2: "ns \<noteq> []" for a as
  proof -
    obtain m x where m: "ns = m @ [x]" using h2 by (cases ns rule: rev_cases) auto
    with h1 acc' have "a = x" "as = rev m @ replicate n ''..''" by auto
    with m ns r show "clean_list rooted (rev as)" "a \<noteq> ''..''"
      by (auto simp: clean_list_def name_comp_def)
  qed
  have root0: "acc = [] \<Longrightarrow> clean_list True (rev [])" by (simp add: clean_list_def)
  consider (skip) "c = '''' \<or> c = ''.''" | (dd) "c = ''..''" | (name) "name_comp c"
    using Cons.prems(1) by (auto simp: name_comp_def)
  then show ?case
  proof cases
    case skip
    with Cons rest show ?thesis by simp
  next
    case name
    with Cons.IH[OF rest push[OF name]] show ?thesis by (auto simp: name_comp_def)
  next
    case dd
    show ?thesis
    proof (cases "ns = []")
      case True
      then have all: "acc = replicate n ''..''" using acc' by simp
      show ?thesis
      proof (cases rooted)
        case True
        with r all have "acc = []" by simp
        with dd True Cons.IH[OF rest, of "[]"] Cons.prems(2) show ?thesis by simp
      next
        case False
        with dd all Cons.IH[OF rest up[OF \<open>ns = []\<close> False]] show ?thesis
          by (cases n) auto
      qed
    next
      case False
      then have "acc \<noteq> []" using acc' by auto
      then obtain a as where a: "acc = a # as" by (meson list.exhaust)
      with pop[OF a False] dd Cons.IH[OF rest] show ?thesis by simp
    qed
  qed
qed

lemma comps_clean: "clean_list (IsAbs p) (comps p)"
  unfolding comps_def
  by (rule clean_comps_clean)
    (auto simp: list_all_iff clean_list_def dest: SplitAt_parts_no_sep)

lemma clean_list_rooted: "clean_list True cs \<longleftrightarrow> list_all name_comp cs"
  by (auto simp: clean_list_def)

lemma comps_abs: "IsAbs p \<Longrightarrow> list_all name_comp (comps p)"
  using comps_clean[of p] by (simp add: clean_list_rooted)

lemma clean_comps_id:
  "clean_list rooted (rev acc @ cs) \<Longrightarrow> clean_comps rooted acc cs = rev acc @ cs"
proof (induction cs arbitrary: acc)
  case Nil
  then show ?case by simp
next
  case (Cons c cs)
  then obtain n ns where eq: "rev acc @ c # cs = replicate n ''..'' @ ns"
    and ns: "list_all name_comp ns" and r: "rooted \<longrightarrow> n = 0"
    by (auto simp: clean_list_def)
  have IH: "clean_comps rooted (c # acc) cs = rev acc @ c # cs"
    using Cons.IH[of "c # acc"] Cons.prems by simp
  show ?case
  proof (cases "length acc < n")
    case True
    have rv: "rev acc = replicate (length acc) ''..''"
    proof -
      have "take (length acc) (rev acc @ c # cs) = rev acc" by simp
      moreover have "take (length acc) (replicate n ''..'' @ ns) = replicate (length acc) ''..''"
        using True by (simp add: take_replicate min_def)
      ultimately show ?thesis using eq by simp
    qed
    then have acc: "acc = replicate (length acc) ''..''"
      by (metis rev_replicate rev_rev_ident)
    have "(rev acc @ c # cs) ! length acc = (replicate n ''..'' @ ns) ! length acc"
      using eq by simp
    then have c: "c = ''..''" using True by (simp add: nth_append)
    have "\<not> rooted" using True r by auto
    show ?thesis
    proof (cases acc)
      case Nil
      with c \<open>\<not> rooted\<close> IH show ?thesis by simp
    next
      case (Cons a as)
      then have "a = ''..''" using acc by (cases "length acc") auto
      with Cons c IH show ?thesis by simp
    qed
  next
    case False
    have "(rev acc @ c # cs) ! length acc = (replicate n ''..'' @ ns) ! length acc"
      using eq by simp
    then have "c = ns ! (length acc - n)" using False by (simp add: nth_append)
    moreover have "length acc - n < length ns"
    proof -
      have "length (rev acc @ c # cs) = n + length ns" using eq by simp
      then show ?thesis using False by simp
    qed
    ultimately have "name_comp c" using ns by (simp add: list_all_length)
    then show ?thesis using IH by (auto simp: name_comp_def)
  qed
qed

section \<open>Lemmas: rendering and cleaning again\<close>

lemma SplitAt_Join:
  "cs \<noteq> [] \<Longrightarrow> list_all (\<lambda>c. slash \<notin> set c) cs \<Longrightarrow> SplitAt slash (Join ''/'' cs) = cs"
  by (induction cs rule: induct_list012) (simp_all add: SplitAt_no_sep SplitAt_append)

lemma clean_list_elem: "clean_list r cs \<Longrightarrow> c \<in> set cs \<Longrightarrow> c = ''..'' \<or> name_comp c"
  unfolding clean_list_def list_all_iff by (elim exE conjE) (simp, blast)

lemma clean_list_no_slash: "clean_list r cs \<Longrightarrow> list_all (\<lambda>c. slash \<notin> set c) cs"
  using clean_list_elem by (fastforce simp: name_comp_def list_all_iff)

lemma clean_list_nonempty: "clean_list r cs \<Longrightarrow> c \<in> set cs \<Longrightarrow> c \<noteq> '''' \<and> c \<noteq> ''.''"
  using clean_list_elem by (fastforce simp: name_comp_def)

lemma Join_hd:
  assumes "cs \<noteq> []" and "hd cs \<noteq> ''''"
  shows "Join ''/'' cs \<noteq> '''' \<and> hd (Join ''/'' cs) = hd (hd cs)"
  using assms by (cases cs rule: remdups_adj.cases) auto

lemma IsAbs_render: "clean_list r cs \<Longrightarrow> IsAbs (render r cs) = r"
proof (cases "r \<or> cs = []")
  case True
  then show ?thesis by (auto simp: render_def)
next
  case False
  assume c: "clean_list r cs"
  from False have "hd cs \<in> set cs" by simp
  with c have h: "hd cs \<noteq> ''''" "slash \<notin> set (hd cs)"
    using clean_list_nonempty clean_list_no_slash by (auto simp: list_all_iff)
  with False Join_hd[of cs] have "hd (Join ''/'' cs) \<noteq> slash" "Join ''/'' cs \<noteq> ''''"
    by (metis list.set_sel(1))+
  with False show ?thesis by (cases "Join ''/'' cs") (auto simp: render_def)
qed

lemma comps_render:
  assumes "clean_list r cs"
  shows "comps (render r cs) = cs"
proof -
  have id: "clean_comps r [] cs = cs" using clean_comps_id[of r "[]" cs] assms by simp
  have sl: "list_all (\<lambda>c. slash \<notin> set c) cs" using assms by (rule clean_list_no_slash)
  show ?thesis
  proof (cases "cs = []")
    case True
    then show ?thesis using IsAbs_render[OF assms] by (simp add: comps_def render_def)
  next
    case False
    with sl have "SplitAt slash (Join ''/'' cs) = cs" by (simp add: SplitAt_Join)
    with False id IsAbs_render[OF assms] show ?thesis
      by (cases r) (simp_all add: comps_def render_def)
  qed
qed

lemma IsAbs_Clean [simp]: "IsAbs (Clean p) = IsAbs p"
  by (simp add: Clean_def IsAbs_render comps_clean)

lemma comps_Clean [simp]: "comps (Clean p) = comps p"
proof (cases "p = ''''")
  case True
  then show ?thesis by (simp add: Clean_def comps_def)
next
  case False
  then show ?thesis by (simp add: Clean_def comps_render comps_clean)
qed

lemma Clean_not_Nil [simp]: "Clean p \<noteq> ''''"
proof (cases "comps p = []")
  case True
  then show ?thesis by (simp add: Clean_def render_def)
next
  case c: False
  then have "hd (comps p) \<noteq> ''''"
    using clean_list_nonempty[OF comps_clean, of "hd (comps p)" p] by simp
  with c Join_hd[of "comps p"] show ?thesis by (simp add: Clean_def render_def)
qed

lemma Clean_Clean [simp]: "Clean (Clean p) = Clean p"
proof (cases "p = ''''")
  case True
  then show ?thesis by (simp add: Clean_def comps_def render_def)
next
  case False
  then show ?thesis
    using Clean_not_Nil[of p] IsAbs_Clean[of p] comps_Clean[of p]
    by (simp only: Clean_def[of "Clean p"] if_False) (simp add: Clean_def)
qed

lemma render_inj:
  "clean_list r cs \<Longrightarrow> clean_list r' ds \<Longrightarrow> render r cs = render r' ds \<Longrightarrow> r = r' \<and> cs = ds"
  using IsAbs_render comps_render by metis

lemma Clean_eq_abs:
  assumes "IsAbs p" "IsAbs q"
  shows "Clean p = Clean q \<longleftrightarrow> comps p = comps q"
proof -
  have "p \<noteq> ''''" "q \<noteq> ''''" using assms by auto
  then have "Clean p = render True (comps p)" "Clean q = render True (comps q)"
    using assms by (simp_all add: Clean_def)
  then show ?thesis by (metis comps_Clean)
qed

section \<open>Lemmas: relative paths\<close>

lemma strip_common_spec:
  "strip_common bs ts = (b', t') \<Longrightarrow>
   \<exists>p. bs = p @ b' \<and> ts = p @ t' \<and> (b' = [] \<or> t' = [] \<or> hd b' \<noteq> hd t')"
proof (induction bs ts rule: strip_common.induct)
  case (1 b bs t ts)
  show ?case
  proof (cases "b = t")
    case True
    with 1 obtain p where "bs = p @ b'" "ts = p @ t'" "b' = [] \<or> t' = [] \<or> hd b' \<noteq> hd t'"
      by auto
    with True show ?thesis by (intro exI[of _ "b # p"]) auto
  next
    case False
    with 1 show ?thesis by (intro exI[of _ "[]"]) auto
  qed
qed auto

lemma strip_common_prefix: "fst (strip_common bs ts) = [] \<longleftrightarrow> prefix bs ts"
  by (induction bs ts rule: strip_common.induct) auto

text \<open>Between absolute paths \<open>Rel\<close> never fails; it goes up once per base component left over.\<close>

lemma Rel_abs:
  assumes "IsAbs b" "IsAbs t"
  shows "Rel b t = Inr (if comps b = comps t then ''.''
           else let (bs, ts) = strip_common (comps b) (comps t)
                in Join ''/'' (replicate (length bs) ''..'' @ ts))"
proof -
  have nb: "list_all name_comp (comps b)" and nt: "list_all name_comp (comps t)"
    using assms comps_abs by auto
  have "Clean t \<noteq> ''.''" using assms IsAbs_Clean[of t] by (auto simp del: IsAbs_Clean)
  moreover have "hd bs \<noteq> ''..''" if "strip_common (comps b) (comps t) = (bs, ts)" "bs \<noteq> []" for bs ts
  proof -
    from strip_common_spec[OF that(1)] obtain p where "comps b = p @ bs" by blast
    with nb that(2) have "name_comp (hd bs)" by (cases bs) auto
    then show ?thesis by (simp add: name_comp_def)
  qed
  ultimately show ?thesis
    using assms by (auto simp: Rel_def Let_def Clean_eq_abs[of t b] split: prod.splits)
qed

lemma Join_dotdot:
  assumes "list_all name_comp ts"
  shows "(let r = Join ''/'' (replicate n ''..'' @ ts) in r = ''..'' \<or> HasPrefix r ''../'')
         \<longleftrightarrow> n \<noteq> 0"
proof (cases n)
  case 0
  have "\<not> (Join ''/'' ts = ''..'' \<or> prefix ''../'' (Join ''/'' ts))"
  proof (cases ts)
    case Nil
    then show ?thesis by simp
  next
    case (Cons x xs)
    then have x: "x \<noteq> ''..''" "slash \<notin> set x" using assms by (auto simp: name_comp_def)
    have one: "Join ''/'' ts = x \<or> (\<exists>r. Join ''/'' ts = x @ slash # r)"
      using Cons by (cases xs) auto
    have "hd (SplitAt slash (Join ''/'' ts)) = x"
      using one x by (auto simp: SplitAt_no_sep SplitAt_append)
    moreover have "hd (SplitAt slash ''..'') = ''..''" by simp
    moreover have "hd (SplitAt slash (''../'' @ r)) = ''..''" for r by simp
    ultimately show ?thesis using x by (metis prefixE)
  qed
  with 0 show ?thesis by (simp add: HasPrefix_def)
next
  case (Suc m)
  have "Join ''/'' (''..'' # ys) = ''..'' \<or> prefix ''../'' (Join ''/'' (''..'' # ys))" for ys
    by (cases ys) auto
  with Suc show ?thesis by (simp add: HasPrefix_def)
qed

section \<open>Lemmas: lengths and parents\<close>

text \<open>\<open>Clean\<close> never lengthens a path, so walking up with \<open>Dir\<close> ends.\<close>

definition plen :: "string list \<Rightarrow> nat" where "plen cs = sum_list (map (\<lambda>c. Suc (length c)) cs)"

lemma plen_simps [simp]: "plen [] = 0" "plen (c # cs) = Suc (length c) + plen cs" "plen (cs @ ds) = plen cs + plen ds"
  by (simp_all add: plen_def)

lemma plen_rev [simp]: "plen (rev cs) = plen cs"
  by (induction cs) auto

lemma plen_Join: "cs \<noteq> [] \<Longrightarrow> Suc (length (Join ''/'' cs)) = plen cs"
  by (induction cs rule: induct_list012) auto

lemma plen_SplitAt: "plen (SplitAt c p) = Suc (length p)"
  by (induction p) (auto split: list.splits)

lemma plen_clean_comps: "plen (clean_comps r acc cs) \<le> plen acc + plen cs"
proof (induction r acc cs rule: clean_comps.induct)
  case (2 r acc c cs)
  have "plen (tl acc) \<le> plen acc" by (cases acc) auto
  with 2 show ?case by (auto split: if_splits list.splits)
qed simp

lemma plen_comps: "plen (comps p) \<le> Suc (length p)" "IsAbs p \<Longrightarrow> plen (comps p) \<le> length p"
proof -
  show "plen (comps p) \<le> Suc (length p)"
    using plen_clean_comps[of "IsAbs p" "[]" "SplitAt slash p"] by (simp add: comps_def plen_SplitAt)
  assume "IsAbs p"
  then obtain q where p: "p = slash # q" by (cases p) auto
  then show "plen (comps p) \<le> length p"
    using plen_clean_comps[of True "[]" "SplitAt slash q"] by (simp add: comps_def plen_SplitAt)
qed

lemma length_Clean: "p \<noteq> '''' \<Longrightarrow> length (Clean p) \<le> length p"
proof -
  assume ne: "p \<noteq> ''''"
  then have "1 \<le> length p" by (cases p) auto
  then show ?thesis
    using ne plen_comps[of p] plen_Join[of "comps p"]
    by (cases "comps p = []") (auto simp: Clean_def render_def)
qed

lemma SplitAt_snoc: "SplitAt c (p @ [c]) = SplitAt c p @ [[]]"
  by (induction p) (auto split: list.splits)

lemma clean_comps_snoc_empty: "clean_comps r acc (cs @ [[]]) = clean_comps r acc cs"
  by (induction cs arbitrary: acc) (auto split: list.split)

lemma Clean_trailing_slash:
  assumes "p \<noteq> ''''"
  shows "Clean (p @ [slash]) = Clean p"
proof -
  have "IsAbs (p @ [slash]) = IsAbs p" using assms by (cases p) auto
  then show ?thesis using assms by (simp add: Clean_def comps_def SplitAt_snoc clean_comps_snoc_empty)
qed

lemma LastIndex_less: "LastIndex p c = Some i \<Longrightarrow> i < length p \<and> p ! i = c"
proof -
  assume "LastIndex p c = Some i"
  then obtain j where j: "Index (rev p) c = Some j" "i = length p - 1 - j" by (auto simp: LastIndex_def)
  then have "rev p = take j (rev p) @ c # drop (Suc j) (rev p)" "j < length p" using Index_Some_split[of "rev p" c j] by auto
  then have "rev p ! j = c" "j < length p" by (metis Index_Some_split id_take_nth_drop j(1) length_rev nth_append_length length_take min.absorb4)+
  then show ?thesis using j(2) by (auto simp: rev_nth)
qed

definition up_measure :: "string \<Rightarrow> nat" where
  "up_measure p = (if p = ''.'' then 0 else if p = '''' then 1 else Suc (length p))"

lemma Dir_measure:
  assumes "Dir p \<noteq> p"
  shows "up_measure (Dir p) < up_measure p"
proof (cases "LastIndex p slash")
  case None
  then have "Dir p = ''.''" by (simp add: Dir_def Clean_def)
  with assms show ?thesis by (auto simp: up_measure_def)
next
  case (Some i)
  note i = LastIndex_less[OF Some]
  let ?q = "take (Suc i) p"
  have q: "?q \<noteq> ''''" "length ?q = Suc i" using i by auto
  have D: "Dir p = Clean ?q" using Some by (simp add: Dir_def)
  have pd: "p \<noteq> ''.''" "p \<noteq> ''''" using i by auto
  have "length (Dir p) < length p"
  proof (cases "Suc i = length p")
    case False
    then show ?thesis using length_Clean[OF q(1)] D i q(2) by simp
  next
    case True
    then have p: "p = take i p @ [slash]" using i take_Suc_conv_app_nth[of i p] by simp
    show ?thesis
    proof (cases "take i p = ''''")
      case True
      then have "p = ''/''" using p by (metis append_Nil)
      then have "Dir p = p" by (simp add: Dir_def LastIndex_def Clean_def comps_def render_def)
      with assms show ?thesis by simp
    next
      case False
      then have "Clean p = Clean (take i p)" using Clean_trailing_slash[OF False] p by metis
      then have "Dir p = Clean (take i p)" using D True by simp
      then show ?thesis using length_Clean[OF False] i by simp
    qed
  qed
  then show ?thesis using pd by (auto simp: up_measure_def)
qed

end
