(* ===== verification/Ssh_Client.thy ===== *)
theory Ssh_Client
  imports Gopath
begin

text \<open>
  \<open>internal/ssh/client.go\<close>: building the authentication methods and dialling (\<open>Connect\<close>), the
  client wrapper with its keepalive probe (\<open>Client\<close>, \<open>Close\<close>, \<open>IsAlive\<close>), and the host-key policy
  (\<open>getHostKeyCallback\<close>).  The SSH library, the agent, the known-hosts library and the operating
  system are the fields of \<open>ssh_env\<close>.
\<close>

section \<open>Authentication\<close>

record AuthConfig =
  auth_Password :: string
  auth_KeyPath :: string

text \<open>The methods of \<open>golang.org/x/crypto/ssh\<close> the code builds; a signer is opaque.\<close>

datatype AuthMethod =
    Password string
  | KeyboardInteractive string
  | PublicKeysCallback string
  | PublicKeys string

datatype parsed_key = Signer string | PassphraseMissing | Unparsable go_err

text \<open>Outcome of the known-hosts check: accepted, a key error with its number of wanted keys, other.\<close>

datatype kh_result = KhOk | KhKeyError nat go_err | KhOther go_err

record ssh_env =
  SSH_AUTH_SOCK :: string
  ACCEPT_NEW_HOST_KEYS :: string
  agent_dial :: "string \<Rightarrow> bool"
  UserHomeDir :: "string res"
  ReadFile :: "string \<Rightarrow> string res"
  ParsePrivateKey :: "string \<Rightarrow> parsed_key"
  ssh_MkdirAll :: "string \<Rightarrow> go_err option"
  known_hosts_Stat :: "go_err option"
  known_hosts_create :: "go_err option"
  knownhosts_New :: "string \<Rightarrow> (string \<Rightarrow> string \<Rightarrow> string \<Rightarrow> kh_result) res"
  known_hosts_open :: "go_err option"
  known_hosts_append :: "string \<Rightarrow> go_err option"
  FingerprintSHA256 :: "string \<Rightarrow> string"
  kh_Normalize :: "string \<Rightarrow> string"
  kh_Line :: "string list \<Rightarrow> string \<Rightarrow> string"

definition expandPath :: "ssh_env \<Rightarrow> string \<Rightarrow> string" where
  "expandPath env path =
     (case path of
        c # rest \<Rightarrow>
          if c = CHR ''~''
          then path_join [case UserHomeDir env of Inl _ \<Rightarrow> '''' | Inr h \<Rightarrow> h, rest] else path
      | [] \<Rightarrow> path)"

definition authFromKeyPath :: "ssh_env \<Rightarrow> string \<Rightarrow> AuthMethod list res" where
  "authFromKeyPath env keyPath =
     (let keyPath = expandPath env keyPath in
      case ReadFile env keyPath of
        Inl e \<Rightarrow> Inl (Errorf ''unable to read private key: %w'' [AErr e])
      | Inr key \<Rightarrow>
          (case ParsePrivateKey env key of
             Signer s \<Rightarrow> Inr [PublicKeys s]
           | PassphraseMissing \<Rightarrow>
               Inl (Errorf ''key %s is passphrase-protected: load it into ssh-agent (ssh-add) first; passphrase prompt is not supported'' [AStr keyPath])
           | Unparsable e \<Rightarrow> Inl (Errorf ''unable to parse private key: %w'' [AErr e])))"

definition default_keys :: "string list" where
  "default_keys = [''id_ed25519'', ''id_ecdsa'', ''id_rsa'', ''id_dsa'']"

fun load_default_keys :: "ssh_env \<Rightarrow> string \<Rightarrow> string list \<Rightarrow> AuthMethod list" where
  "load_default_keys env homeDir [] = []"
| "load_default_keys env homeDir (name # names) =
     (case ReadFile env (path_join [homeDir, ''.ssh'', name]) of
        Inl _ \<Rightarrow> load_default_keys env homeDir names
      | Inr key \<Rightarrow>
          (case ParsePrivateKey env key of
             Signer s \<Rightarrow> PublicKeys s # load_default_keys env homeDir names
           | _ \<Rightarrow> load_default_keys env homeDir names))"

definition defaultKeyAuthMethods :: "ssh_env \<Rightarrow> AuthMethod list" where
  "defaultKeyAuthMethods env =
     (case UserHomeDir env of Inl _ \<Rightarrow> [] | Inr homeDir \<Rightarrow> load_default_keys env homeDir default_keys)"

text \<open>\<open>keyboardInteractiveHandler.Challenge\<close>: the password to every question.\<close>

definition Challenge :: "string \<Rightarrow> string list \<Rightarrow> string list" where
  "Challenge password questions = map (\<lambda>_. password) questions"

text \<open>The authentication methods \<open>Connect\<close> offers, in order, or why there are none.\<close>

definition connect_methods :: "ssh_env \<Rightarrow> AuthConfig \<Rightarrow> AuthMethod list res" where
  "connect_methods env auth =
     (let pw = (if auth_Password auth \<noteq> ''''
                then [Password (auth_Password auth), KeyboardInteractive (auth_Password auth)]
                else []);
          keys = (if auth_KeyPath auth \<noteq> '''' then authFromKeyPath env (auth_KeyPath auth)
                  else
                    let sock = SSH_AUTH_SOCK env;
                        ag = (if sock \<noteq> '''' \<and> agent_dial env sock
                              then [PublicKeysCallback sock] else [])
                    in Inr (ag @ defaultKeyAuthMethods env))
      in case keys of
           Inl e \<Rightarrow> Inl e
         | Inr ks \<Rightarrow>
             if pw @ ks = []
             then Inl (Errorf ''no authentication method available: pass --pswd or -i, load a key into ssh-agent, or add a default key (~/.ssh/id_ed25519)'' [])
             else Inr (pw @ ks))"

section \<open>Host keys\<close>

definition ascii_lower :: "char \<Rightarrow> char" where
  "ascii_lower c =
     (if 65 \<le> (of_char c :: nat) \<and> (of_char c :: nat) \<le> 90 then char_of (of_char c + 32 :: nat) else c)"

text \<open>\<open>strings.EqualFold\<close> against the patterns used here, which have only ASCII case variants.\<close>

definition EqualFold :: "string \<Rightarrow> string \<Rightarrow> bool" where
  "EqualFold s t = (map ascii_lower s = map ascii_lower t)"

definition autoTrust :: "ssh_env \<Rightarrow> bool" where
  "autoTrust env \<longleftrightarrow>
     EqualFold (ACCEPT_NEW_HOST_KEYS env) ''1'' \<or> EqualFold (ACCEPT_NEW_HOST_KEYS env) ''true''"

text \<open>
  The callback \<open>getHostKeyCallback\<close> returns: given the known-hosts check \<open>cb\<close>, whether the key is
  accepted (\<open>None\<close>) and the lines appended to \<open>known_hosts\<close>.
\<close>

definition hostKeyCallback ::
  "ssh_env \<Rightarrow> string \<Rightarrow> (string \<Rightarrow> string \<Rightarrow> string \<Rightarrow> kh_result) \<Rightarrow> string \<Rightarrow> string \<Rightarrow> string \<Rightarrow>
   go_err option \<times> string list" where
  "hostKeyCallback env knownHostsPath cb hostname remote key =
     (case cb hostname remote key of
        KhOk \<Rightarrow> (None, [])
      | KhOther e \<Rightarrow> (Some e, [])
      | KhKeyError want err \<Rightarrow>
          if want = 0 then
            (if \<not> autoTrust env
             then (Some (Errorf ''unknown host key for %s (%s), refusing auto-trust; add it to %s or set GSSH_INSECURE_ACCEPT_NEW_HOST_KEYS=1''
                           [AStr hostname, AStr (FingerprintSHA256 env key), AStr knownHostsPath]), [])
             else if known_hosts_open env \<noteq> None
             then (Some (Errorf ''failed to open known_hosts for appending: %w''
                           [AErr (the (known_hosts_open env))]), [])
             else
               let addresses = kh_Normalize env hostname #
                     (if remote \<noteq> hostname then [kh_Normalize env remote] else []);
                   line = kh_Line env addresses key
               in (case known_hosts_append env (line @ [CHR 0x0A]) of
                     Some e \<Rightarrow> (Some (Errorf ''failed to append key to known_hosts: %w'' [AErr e]), [])
                   | None \<Rightarrow> (None, [line @ [CHR 0x0A]])))
          else (Some err, []))"

definition getHostKeyCallback ::
  "ssh_env \<Rightarrow> (string \<Rightarrow> string \<Rightarrow> string \<Rightarrow> go_err option \<times> string list) res" where
  "getHostKeyCallback env =
     (case UserHomeDir env of
        Inl e \<Rightarrow> Inl (Errorf ''could not get user home dir: %w'' [AErr e])
      | Inr homeDir \<Rightarrow>
          let knownHostsPath = path_join [homeDir, ''.ssh'', ''known_hosts''] in
          (case ssh_MkdirAll env (Dir knownHostsPath) of
             Some e \<Rightarrow> Inl (Errorf ''failed to create .ssh directory: %w'' [AErr e])
           | None \<Rightarrow>
               let missing = (case known_hosts_Stat env of None \<Rightarrow> False | Some e \<Rightarrow> err_is ENOENT e) in
               (case (if missing then known_hosts_create env else None) of
                  Some e \<Rightarrow> Inl (Errorf ''failed to create known_hosts file: %w'' [AErr e])
                | None \<Rightarrow>
                    (case knownhosts_New env knownHostsPath of
                       Inl e \<Rightarrow> Inl (Errorf ''failed to create knownhosts callback: %w'' [AErr e])
                     | Inr cb \<Rightarrow> Inr (hostKeyCallback env knownHostsPath cb)))))"

section \<open>Connecting\<close>

definition JoinHostPort :: "string \<Rightarrow> string \<Rightarrow> string" where
  "JoinHostPort host port =
     (if CHR '':'' \<in> set host then ''['' @ host @ '']:'' @ port else host @ '':'' @ port)"

text \<open>
  \<open>Connect\<close> with \<open>ssh.Dial\<close> as the argument \<open>dial\<close> (address, user, methods, host-key callback),
  which fails or delivers a connection.
\<close>

definition Connect ::
  "ssh_env \<Rightarrow>
   (string \<Rightarrow> string \<Rightarrow> AuthMethod list \<Rightarrow> (string \<Rightarrow> string \<Rightarrow> string \<Rightarrow> go_err option \<times> string list) \<Rightarrow> 'c res) \<Rightarrow>
   string \<Rightarrow> string \<Rightarrow> int \<Rightarrow> AuthConfig \<Rightarrow> 'c res" where
  "Connect env dial user host port auth =
     (case connect_methods env auth of
        Inl e \<Rightarrow> Inl e
      | Inr methods \<Rightarrow>
          (case getHostKeyCallback env of
             Inl e \<Rightarrow> Inl (Errorf ''failed to get host key callback: %w'' [AErr e])
           | Inr hkcb \<Rightarrow>
               let addr = JoinHostPort host (Itoa port) in
               (case dial addr user methods hkcb of
                  Inl e \<Rightarrow> Inl (Errorf ''failed to connect to %s: %w'' [AStr addr, AErr e])
                | Inr c \<Rightarrow> Inr c)))"

section \<open>The client object\<close>

text \<open>\<open>GoClient\<close> is the library connection, \<open>None\<close> once closed.\<close>

record ssh_client =
  GoClient :: "nat option"
  probing :: bool

text \<open>\<open>Close\<close>: the object afterwards and the connection it closes, if any.\<close>

definition Client_Close :: "ssh_client \<Rightarrow> ssh_client \<times> nat option" where
  "Client_Close c = (c\<lparr>GoClient := None, probing := False\<rparr>, GoClient c)"

text \<open>What the keepalive request does: answered (with or without an error), or silent for 5 s.\<close>

datatype probe = Answered "go_err option" | Silent

definition IsAlive :: "ssh_client \<Rightarrow> probe \<Rightarrow> bool \<times> ssh_client \<times> nat option" where
  "IsAlive c p =
     (if GoClient c = None then (False, c, None)
      else if probing c then (False, c, None)
      else (case p of
              Answered e \<Rightarrow> (e = None, c\<lparr>probing := False\<rparr>, None)
            | Silent \<Rightarrow> let (c', g) = Client_Close (c\<lparr>probing := True\<rparr>) in (False, c', g)))"

section \<open>Lemmas\<close>

lemma connect_methods_not_Nil: "connect_methods env auth = Inr ms \<Longrightarrow> ms \<noteq> []"
  by (auto simp: connect_methods_def Let_def split: sum.splits if_splits)

lemma load_default_keys_only_keys:
  "m \<in> set (load_default_keys env h ns) \<Longrightarrow> \<exists>s. m = PublicKeys s"
  by (induction ns) (auto split: sum.splits parsed_key.splits)

section \<open>Properties\<close>

text \<open>
  The order in which credentials are offered.  When a connection attempt has methods to
  offer, an explicit password comes first, as a password and then a keyboard-interactive method,
  and nothing else in the list carries a password; an explicit key file is the only key material
  offered, and the agent and the default keys are used only when no key file is given.
\<close>

theorem connect_methods_order:
  assumes "connect_methods env auth = Inr ms"
  shows "\<exists>ks. ms = (if auth_Password auth = '''' then []
                    else [Password (auth_Password auth), KeyboardInteractive (auth_Password auth)]) @ ks
          \<and> (if auth_KeyPath auth \<noteq> ''''
             then \<exists>s. ks = [PublicKeys s]
             else ks = (if SSH_AUTH_SOCK env \<noteq> '''' \<and> agent_dial env (SSH_AUTH_SOCK env)
                        then [PublicKeysCallback (SSH_AUTH_SOCK env)] else [])
                       @ defaultKeyAuthMethods env)"
proof -
  have key: "\<exists>s. ks = [PublicKeys s]" if "authFromKeyPath env k = Inr ks" for k ks
    using that by (auto simp: authFromKeyPath_def Let_def split: sum.splits parsed_key.splits)
  show ?thesis
    using assms key by (auto simp: connect_methods_def Let_def split: sum.splits if_splits)
qed

definition demo_env :: ssh_env where
  "demo_env = \<lparr>SSH_AUTH_SOCK = ''/tmp/agent'', ACCEPT_NEW_HOST_KEYS = '''', agent_dial = (\<lambda>_. True),
     UserHomeDir = Inr ''/home/u'', ReadFile = (\<lambda>p. if p = ''/home/u/.ssh/id_rsa'' then Inr ''K'' else Inl (SysErr ENOENT)),
     ParsePrivateKey = (\<lambda>k. Signer k), ssh_MkdirAll = (\<lambda>_. None), known_hosts_Stat = None,
     known_hosts_create = None, knownhosts_New = (\<lambda>_. Inr (\<lambda>h r k. KhKeyError 0 (ExtErr ''unknown''))),
     known_hosts_open = None, known_hosts_append = (\<lambda>_. None), FingerprintSHA256 = (\<lambda>k. k), kh_Normalize = (\<lambda>h. h), kh_Line = (\<lambda>as k. Join '','' as @ k)\<rparr>"

theorem connect_methods_order_witness:
  "connect_methods demo_env \<lparr>auth_Password = ''pw'', auth_KeyPath = ''''\<rparr> =
     Inr [Password ''pw'', KeyboardInteractive ''pw'', PublicKeysCallback ''/tmp/agent'', PublicKeys ''K'']
   \<and> (\<exists>ks. [Password ''pw'', KeyboardInteractive ''pw'', PublicKeysCallback ''/tmp/agent'', PublicKeys ''K'']
        = [Password ''pw'', KeyboardInteractive ''pw''] @ ks)"
proof -
  have m: "connect_methods demo_env \<lparr>auth_Password = ''pw'', auth_KeyPath = ''''\<rparr> =
     Inr [Password ''pw'', KeyboardInteractive ''pw'', PublicKeysCallback ''/tmp/agent'', PublicKeys ''K'']"
    by code_simp
  show ?thesis using m connect_methods_order[OF m] by simp
qed

text \<open>
  C31: host-key policy.  A key the known-hosts check rejects as changed (some key is wanted) is
  refused whatever the environment says; an unknown key is accepted only with the opt-in variable
  set to 1 or true, and then exactly one line is recorded; nothing is ever recorded for a key that
  is refused.
\<close>

theorem host_key_policy:
  "hostKeyCallback env path cb hostname remote key = (r, lines) \<Longrightarrow>
   (r \<noteq> None \<longrightarrow> lines = []) \<and>
   (\<forall>n e. cb hostname remote key = KhKeyError (Suc n) e \<longrightarrow> r \<noteq> None) \<and>
   (\<forall>e. cb hostname remote key = KhKeyError 0 e \<longrightarrow> r = None \<longrightarrow>
      autoTrust env \<and> length lines = 1) \<and>
   (cb hostname remote key = KhOk \<longrightarrow> r = None \<and> lines = [])"
  by (auto simp: hostKeyCallback_def Let_def
        split: kh_result.splits if_splits option.splits)

theorem host_key_policy_witness:
  "fst (hostKeyCallback demo_env ''kh'' (\<lambda>h r k. KhKeyError 2 (ExtErr ''mismatch'')) ''a'' ''b'' ''k'') \<noteq> None"
proof -
  have "hostKeyCallback demo_env ''kh'' (\<lambda>h r k. KhKeyError 2 (ExtErr ''mismatch'')) ''a'' ''b'' ''k'' =
     (fst (hostKeyCallback demo_env ''kh'' (\<lambda>h r k. KhKeyError 2 (ExtErr ''mismatch'')) ''a'' ''b'' ''k''),
      snd (hostKeyCallback demo_env ''kh'' (\<lambda>h r k. KhKeyError 2 (ExtErr ''mismatch'')) ''a'' ''b'' ''k''))"
    by simp
  from host_key_policy[OF this] show ?thesis
    by (metis numeral_2_eq_2)
qed

end
