(* ===== verification/Session_Manager.thy ===== *)
theory Session_Manager
  imports Ssh_Client
begin

text \<open>
  \<open>internal/session/session.go\<close>: SSH and local sessions, \<open>AwaitClient\<close>, and the \<open>Manager\<close> with its
  registry and default session.  Go's session and client objects are shared through pointers and
  the code compares them by identity, so they live in an explicit store: \<open>objs\<close> maps a session
  pointer (\<open>ref\<close>) to its object, \<open>clients\<close> a client pointer to its object, and \<open>netOpen\<close> is the
  set of network connections not closed yet.  Each operation is written as the sequence of its
  critical sections, which the theory \<open>Session_Races\<close> interleaves.  The invariant \<open>mgr_inv\<close> and
  the operations' behaviour follow.
\<close>

section \<open>Sessions\<close>

datatype status =
  StatusConnected | StatusDisconnected | StatusReconnecting | StatusOffline | StatusConnecting

fun status_string :: "status \<Rightarrow> string" where
  "status_string StatusConnected = ''connected''"
| "status_string StatusDisconnected = ''disconnected''"
| "status_string StatusReconnecting = ''reconnecting''"
| "status_string StatusOffline = ''offline''"
| "status_string StatusConnecting = ''connecting''"

type_synonym ref = nat
type_synonym cid = nat

record SSHSession =
  s_Name :: string
  s_Host :: string
  s_User :: string
  s_Port :: int
  s_Password :: string
  s_KeyPath :: string
  s_Status :: status
  s_Client :: "cid option"
  s_CreatedAt :: int
  s_LastCmd :: string

record LocalSession =
  l_Name :: string
  l_Host :: string
  l_User :: string
  l_Status :: status
  l_CreatedAt :: int
  l_LastCmd :: string

text \<open>The methods of a local session, which the \<open>Session\<close> interface reaches beside those of an SSH session.\<close>

fun LocalSession_GetName :: "LocalSession \<Rightarrow> string" where "LocalSession_GetName l = l_Name l"
fun LocalSession_GetType :: "LocalSession \<Rightarrow> string" where "LocalSession_GetType _ = ''local''"
fun LocalSession_GetHost :: "LocalSession \<Rightarrow> string" where "LocalSession_GetHost l = l_Host l"
fun LocalSession_GetUser :: "LocalSession \<Rightarrow> string" where "LocalSession_GetUser l = l_User l"
fun LocalSession_IsLocal :: "LocalSession \<Rightarrow> bool" where "LocalSession_IsLocal _ = True"
fun LocalSession_GetCreatedAt :: "LocalSession \<Rightarrow> int" where "LocalSession_GetCreatedAt l = l_CreatedAt l"
fun LocalSession_GetStatus :: "LocalSession \<Rightarrow> status" where "LocalSession_GetStatus l = l_Status l"
fun LocalSession_SetStatus :: "status \<Rightarrow> LocalSession \<Rightarrow> LocalSession" where
  "LocalSession_SetStatus st l = l\<lparr>l_Status := st\<rparr>"
fun LocalSession_GetLastCmd :: "LocalSession \<Rightarrow> string" where "LocalSession_GetLastCmd l = l_LastCmd l"
fun LocalSession_SetLastCmd :: "string \<Rightarrow> LocalSession \<Rightarrow> LocalSession" where
  "LocalSession_SetLastCmd c l = l\<lparr>l_LastCmd := c\<rparr>"
fun LocalSession_Close :: "LocalSession \<Rightarrow> go_err option \<times> LocalSession" where
  "LocalSession_Close l = (None, l\<lparr>l_Status := StatusDisconnected\<rparr>)"

datatype session = SSH SSHSession | Local LocalSession

fun GetName :: "session \<Rightarrow> string" where
  "GetName (SSH s) = s_Name s" | "GetName (Local l) = LocalSession_GetName l"
fun GetType :: "session \<Rightarrow> string" where
  "GetType (SSH s) = ''ssh''" | "GetType (Local l) = LocalSession_GetType l"
fun GetHost :: "session \<Rightarrow> string" where
  "GetHost (SSH s) = s_Host s" | "GetHost (Local l) = LocalSession_GetHost l"
fun GetUser :: "session \<Rightarrow> string" where
  "GetUser (SSH s) = s_User s" | "GetUser (Local l) = LocalSession_GetUser l"
fun GetStatus :: "session \<Rightarrow> status" where
  "GetStatus (SSH s) = s_Status s" | "GetStatus (Local l) = LocalSession_GetStatus l"
fun IsLocalSession :: "session \<Rightarrow> bool" where
  "IsLocalSession (SSH s) = False" | "IsLocalSession (Local l) = LocalSession_IsLocal l"
fun GetCreatedAt :: "session \<Rightarrow> int" where
  "GetCreatedAt (SSH s) = s_CreatedAt s" | "GetCreatedAt (Local l) = LocalSession_GetCreatedAt l"
fun GetLastCmd :: "session \<Rightarrow> string" where
  "GetLastCmd (SSH s) = s_LastCmd s" | "GetLastCmd (Local l) = LocalSession_GetLastCmd l"
fun SetStatus :: "status \<Rightarrow> session \<Rightarrow> session" where
  "SetStatus st (SSH s) = SSH (s\<lparr>s_Status := st\<rparr>)" | "SetStatus st (Local l) = Local (LocalSession_SetStatus st l)"
fun SetLastCmd :: "string \<Rightarrow> session \<Rightarrow> session" where
  "SetLastCmd c (SSH s) = SSH (s\<lparr>s_LastCmd := c\<rparr>)" | "SetLastCmd c (Local l) = Local (LocalSession_SetLastCmd c l)"
fun SetPassword :: "string \<Rightarrow> session \<Rightarrow> session" where
  "SetPassword p (SSH s) = SSH (s\<lparr>s_Password := p\<rparr>)" | "SetPassword p (Local l) = Local l"
fun SetKeyPath :: "string \<Rightarrow> session \<Rightarrow> session" where
  "SetKeyPath k (SSH s) = SSH (s\<lparr>s_KeyPath := k\<rparr>)" | "SetKeyPath k (Local l) = Local l"
fun SetClient :: "cid option \<Rightarrow> session \<Rightarrow> session" where
  "SetClient c (SSH s) = SSH (s\<lparr>s_Client := c\<rparr>)" | "SetClient c (Local l) = Local l"
fun GetClient :: "session \<Rightarrow> cid option" where
  "GetClient (SSH s) = s_Client s" | "GetClient (Local l) = None"
fun GetPassword :: "session \<Rightarrow> string" where
  "GetPassword (SSH s) = s_Password s" | "GetPassword (Local l) = ''''"
fun GetKeyPath :: "session \<Rightarrow> string" where
  "GetKeyPath (SSH s) = s_KeyPath s" | "GetKeyPath (Local l) = ''''"

section \<open>The store\<close>

record manager =
  sessions :: "string \<rightharpoonup> ref"
  defaultName :: string
  objs :: "ref \<Rightarrow> session"
  nextRef :: ref
  clients :: "cid \<Rightarrow> ssh_client"
  nextClient :: cid
  netOpen :: "cid set"
  dials :: nat

text \<open>
  The network: \<open>dial n\<close> is the outcome of the \<open>n\<close>-th dial (the injectable \<open>connect\<close> function),
  \<open>close_err c\<close> what closing connection \<open>c\<close> returns.
\<close>

record net =
  dial :: "nat \<Rightarrow> string \<Rightarrow> string \<Rightarrow> int \<Rightarrow> AuthConfig \<Rightarrow> go_err option"
  close_err :: "cid \<Rightarrow> go_err option"

definition NewManager :: manager where
  "NewManager = \<lparr>sessions = Map.empty, defaultName = '''', objs = (\<lambda>_. Local \<lparr>l_Name = '''', l_Host = '''', l_User = '''',
       l_Status = StatusDisconnected, l_CreatedAt = 0, l_LastCmd = ''''\<rparr>),
     nextRef = 0, clients = (\<lambda>_. \<lparr>GoClient = None, probing = False\<rparr>), nextClient = 0,
     netOpen = {}, dials = 0\<rparr>"

definition upd_obj :: "ref \<Rightarrow> (session \<Rightarrow> session) \<Rightarrow> manager \<Rightarrow> manager" where
  "upd_obj r f m = m\<lparr>objs := (objs m)(r := f (objs m r))\<rparr>"

definition alloc :: "session \<Rightarrow> manager \<Rightarrow> ref \<times> manager" where
  "alloc s m = (nextRef m, m\<lparr>objs := (objs m)(nextRef m := s), nextRef := Suc (nextRef m)\<rparr>)"

text \<open>\<open>m.connect(...)\<close>: a failed dial, or a new client object holding a new connection.\<close>

definition connect :: "net \<Rightarrow> string \<Rightarrow> string \<Rightarrow> int \<Rightarrow> AuthConfig \<Rightarrow> manager \<Rightarrow> cid res \<times> manager" where
  "connect N user host port auth m =
     (case dial N (dials m) user host port auth of
        Some e \<Rightarrow> (Inl e, m\<lparr>dials := Suc (dials m)\<rparr>)
      | None \<Rightarrow>
          let c = nextClient m in
          (Inr c, m\<lparr>dials := Suc (dials m), nextClient := Suc c,
                    clients := (clients m)(c := \<lparr>GoClient = Some c, probing = False\<rparr>),
                    netOpen := insert c (netOpen m)\<rparr>))"

text \<open>\<open>client.Close()\<close> on the client object \<open>c\<close>.\<close>

definition close_client :: "net \<Rightarrow> cid \<Rightarrow> manager \<Rightarrow> go_err option \<times> manager" where
  "close_client N c m =
     (let (cl, g) = Client_Close (clients m c);
          m1 = m\<lparr>clients := (clients m)(c := cl)\<rparr>
      in case g of None \<Rightarrow> (None, m1)
         | Some k \<Rightarrow> (close_err N k, m1\<lparr>netOpen := netOpen m1 - {k}\<rparr>))"

text \<open>\<open>GetSSHClient\<close>: nil when there is no client object or it was closed.\<close>

definition GetSSHClient :: "manager \<Rightarrow> ref \<Rightarrow> cid option" where
  "GetSSHClient m r =
     (case GetClient (objs m r) of None \<Rightarrow> None | Some c \<Rightarrow> GoClient (clients m c))"

text \<open>\<open>Session.Close\<close> of both session types.\<close>

definition close_session :: "net \<Rightarrow> ref \<Rightarrow> manager \<Rightarrow> go_err option \<times> manager" where
  "close_session N r m =
     (case objs m r of
        Local l \<Rightarrow> let (e, l') = LocalSession_Close l in (e, upd_obj r (\<lambda>_. Local l') m)
      | SSH s \<Rightarrow>
          let cl = GetClient (objs m r);
              m1 = upd_obj r (\<lambda>s. SetStatus StatusDisconnected (SetClient None s)) m
          in case cl of Some c \<Rightarrow> close_client N c m1 | None \<Rightarrow> (None, m1))"

lemma close_session_eq:
  "close_session N r m =
     (let cl = GetClient (objs m r);
          m1 = upd_obj r (\<lambda>s. SetStatus StatusDisconnected (SetClient None s)) m
      in case cl of Some c \<Rightarrow> close_client N c m1 | None \<Rightarrow> (None, m1))"
  by (cases "objs m r") (auto simp: close_session_def upd_obj_def intro!: arg_cong[where f = "\<lambda>x. m\<lparr>objs := x\<rparr>"])

section \<open>Waiting for an in-flight dial\<close>

text \<open>
  \<open>AwaitClient\<close> polls the session every 50 ms; other goroutines change it meanwhile.  \<open>obs n\<close> is
  what the \<open>n\<close>-th poll reads: the status, the SSH client, and the status read again for the error
  message.  Times are in milliseconds; \<open>over n\<close> is by how much the \<open>n\<close>-th sleep overran.
\<close>

record poll =
  p_status :: status
  p_client :: "cid option"
  p_status2 :: status

definition await_poll :: "string \<Rightarrow> poll \<Rightarrow> cid res option" where
  "await_poll name p =
     (case p_status p of
        StatusConnected \<Rightarrow> map_option Inr (p_client p)
      | StatusOffline \<Rightarrow> Some (Inl (Errorf ''session %q is not connected (status: %s)''
                           [AStr name, AStr (status_string (p_status2 p))]))
      | StatusDisconnected \<Rightarrow> Some (Inl (Errorf ''session %q is not connected (status: %s)''
                           [AStr name, AStr (status_string (p_status2 p))]))
      | _ \<Rightarrow> None)"

function await_loop :: "string \<Rightarrow> (nat \<Rightarrow> poll) \<Rightarrow> (nat \<Rightarrow> nat) \<Rightarrow> nat \<Rightarrow> nat \<Rightarrow> nat \<Rightarrow> cid res" where
  "await_loop name obs over deadline n t =
     (case await_poll name (obs n) of
        Some r \<Rightarrow> r
      | None \<Rightarrow>
          if deadline < t
          then Inl (Errorf ''timed out waiting for session %q to connect'' [AStr name])
          else await_loop name obs over deadline (Suc n) (t + 50 + over n))"
  by pat_completeness auto
termination
  by (relation "measure (\<lambda>(name, obs, over, deadline, n, t). Suc deadline - t)") auto

declare await_loop.simps [simp del]

definition AwaitClient :: "string \<Rightarrow> (nat \<Rightarrow> poll) \<Rightarrow> (nat \<Rightarrow> nat) \<Rightarrow> nat \<Rightarrow> cid res" where
  "AwaitClient name obs over timeout = await_loop name obs over timeout 0 0"

definition awaitTimeout :: nat where "awaitTimeout = 20000"

section \<open>Reconnecting\<close>

text \<open>
  \<open>reconnectSSH\<close> holds the session's \<open>reconnMu\<close> throughout.  Its critical sections: set the status,
  detach the old client, close it, dial, check that the session is still registered, adopt.
\<close>

definition reconnect_begin :: "ref \<Rightarrow> manager \<Rightarrow> manager" where
  "reconnect_begin r m = upd_obj r (SetStatus StatusReconnecting) m"

definition reconnect_detach :: "ref \<Rightarrow> manager \<Rightarrow> cid option \<times> manager" where
  "reconnect_detach r m = (GetClient (objs m r), upd_obj r (SetClient None) m)"

definition reconnect_dial :: "net \<Rightarrow> ref \<Rightarrow> manager \<Rightarrow> cid res \<times> manager" where
  "reconnect_dial N r m =
     (let s = objs m r in
      connect N (GetUser s) (GetHost s) (case s of SSH x \<Rightarrow> s_Port x | Local _ \<Rightarrow> 0)
        \<lparr>auth_Password = GetPassword s, auth_KeyPath = GetKeyPath s\<rparr> m)"

definition still_registered :: "ref \<Rightarrow> manager \<Rightarrow> bool" where
  "still_registered r m \<longleftrightarrow> sessions m (GetName (objs m r)) = Some r"

definition reconnect_adopt :: "net \<Rightarrow> ref \<Rightarrow> cid \<Rightarrow> manager \<Rightarrow> go_err option \<times> manager" where
  "reconnect_adopt N r c m =
     (if GetStatus (objs m r) \<noteq> StatusReconnecting
      then (Some (Errorf ''session state changed while reconnecting'' []), snd (close_client N c m))
      else (None, upd_obj r (\<lambda>s. SetStatus StatusConnected (SetClient (Some c) s)) m))"

definition reconnectSSH :: "net \<Rightarrow> ref \<Rightarrow> manager \<Rightarrow> go_err option \<times> manager" where
  "reconnectSSH N r m =
     (let m1 = reconnect_begin r m;
          (old, m2) = reconnect_detach r m1;
          m3 = (case old of None \<Rightarrow> m2 | Some c \<Rightarrow> snd (close_client N c m2))
      in case reconnect_dial N r m3 of
           (Inl e, m4) \<Rightarrow> (Some e, upd_obj r (SetStatus StatusOffline) m4)
         | (Inr c, m4) \<Rightarrow>
             if \<not> still_registered r m4
             then (Some (Errorf ''session was removed while reconnecting'' []), snd (close_client N c m4))
             else reconnect_adopt N r c m4)"

section \<open>Manager operations\<close>

text \<open>\<open>ConnectSSH\<close>: what the section under the manager lock decides.\<close>

datatype connect_next = CReturn "ref res" | CAwait ref | CReconnect ref | CDial ref

definition ssh_name :: "string \<Rightarrow> string \<Rightarrow> string \<Rightarrow> string" where
  "ssh_name name user host = (if name = '''' then user @ ''@'' @ host else name)"

definition same_target :: "string \<Rightarrow> string \<Rightarrow> int \<Rightarrow> session \<Rightarrow> bool" where
  "same_target user host port s =
     (case s of SSH x \<Rightarrow> s_Host x = host \<and> s_User x = user \<and> s_Port x = port | Local _ \<Rightarrow> False)"

definition ConnectSSH_lookup ::
  "int \<Rightarrow> string \<Rightarrow> string \<Rightarrow> string \<Rightarrow> int \<Rightarrow> string \<Rightarrow> string \<Rightarrow> manager \<Rightarrow> connect_next \<times> manager" where
  "ConnectSSH_lookup now name user host port password keyPath m =
     (case sessions m name of
        Some r \<Rightarrow>
          if same_target user host port (objs m r)
          then let m1 = m\<lparr>defaultName := name\<rparr> in
               (case GetStatus (objs m r) of
                  StatusConnected \<Rightarrow> (CReturn (Inr r), m1)
                | StatusConnecting \<Rightarrow> (CAwait r, m1)
                | StatusReconnecting \<Rightarrow> (CAwait r, m1)
                | _ \<Rightarrow> (CReconnect r, m1))
          else (CReturn (Inl (Errorf ''session name '%s' already exists for a different host'' [AStr name])), m)
      | None \<Rightarrow>
          let (r, m1) = alloc (SSH \<lparr>s_Name = name, s_Host = host, s_User = user, s_Port = port,
                 s_Password = password, s_KeyPath = keyPath, s_Status = StatusConnecting,
                 s_Client = None, s_CreatedAt = now, s_LastCmd = ''''\<rparr>) m
          in (CDial r, m1\<lparr>sessions := (sessions m1)(name \<mapsto> r), defaultName := name\<rparr>))"

text \<open>After a failed first dial the session is marked offline, then unregistered by its name.\<close>

definition forget :: "string \<Rightarrow> manager \<Rightarrow> manager" where
  "forget name m =
     m\<lparr>sessions := (sessions m)(name := None),
       defaultName := (if defaultName m = name then '''' else defaultName m)\<rparr>"

definition connect_adopt :: "net \<Rightarrow> ref \<Rightarrow> cid \<Rightarrow> manager \<Rightarrow> ref res \<times> manager" where
  "connect_adopt N r c m =
     (if GetStatus (objs m r) \<noteq> StatusConnecting
      then (Inl (Errorf ''session was disconnected while connecting'' []), snd (close_client N c m))
      else (Inr r, upd_obj r (\<lambda>s. SetStatus StatusConnected (SetClient (Some c) s)) m))"

definition set_creds :: "string \<Rightarrow> string \<Rightarrow> ref \<Rightarrow> manager \<Rightarrow> manager" where
  "set_creds password keyPath r m =
     (let m1 = (if password \<noteq> '''' then upd_obj r (SetPassword password) m else m)
      in if keyPath \<noteq> '''' then upd_obj r (SetKeyPath keyPath) m1 else m1)"

definition ConnectSSH ::
  "net \<Rightarrow> (ref \<Rightarrow> cid res) \<Rightarrow> int \<Rightarrow> string \<Rightarrow> string \<Rightarrow> string \<Rightarrow> int \<Rightarrow> string \<Rightarrow> string \<Rightarrow> manager \<Rightarrow>
   ref res \<times> manager" where
  "ConnectSSH N await now name user host port password keyPath m =
     (let name = ssh_name name user host in
      case ConnectSSH_lookup now name user host port password keyPath m of
        (CReturn res, m1) \<Rightarrow> (res, m1)
      | (CAwait r, m1) \<Rightarrow> (case await r of Inl e \<Rightarrow> (Inl e, m1) | Inr _ \<Rightarrow> (Inr r, m1))
      | (CReconnect r, m1) \<Rightarrow>
          (case reconnectSSH N r (set_creds password keyPath r m1) of
             (Some e, m2) \<Rightarrow> (Inl e, m2)
           | (None, m2) \<Rightarrow> (Inr r, m2))
      | (CDial r, m1) \<Rightarrow>
          (case connect N user host port \<lparr>auth_Password = password, auth_KeyPath = keyPath\<rparr> m1 of
             (Inl e, m2) \<Rightarrow> (Inl e, forget name (upd_obj r (SetStatus StatusOffline) m2))
           | (Inr c, m2) \<Rightarrow> connect_adopt N r c m2))"

definition osUser :: "string res \<Rightarrow> string" where
  "osUser u = (case u of Inl _ \<Rightarrow> ''unknown'' | Inr x \<Rightarrow> x)"

definition ConnectLocal :: "string res \<Rightarrow> int \<Rightarrow> string \<Rightarrow> manager \<Rightarrow> ref res \<times> manager" where
  "ConnectLocal ouser now name m =
     (let name = (if name = '''' then ''local'' else name) in
      case sessions m name of
        Some r \<Rightarrow>
          if IsLocalSession (objs m r) then (Inr r, m\<lparr>defaultName := name\<rparr>)
          else (Inl (Errorf ''session name '%s' already exists for an SSH session'' [AStr name]), m)
      | None \<Rightarrow>
          let (r, m1) = alloc (Local \<lparr>l_Name = name, l_Host = ''local'', l_User = osUser ouser,
                 l_Status = StatusConnected, l_CreatedAt = now, l_LastCmd = ''''\<rparr>) m
          in (Inr r, m1\<lparr>sessions := (sessions m1)(name \<mapsto> r), defaultName := name\<rparr>))"

definition default_if_empty :: "string \<Rightarrow> manager \<Rightarrow> string" where
  "default_if_empty name m = (if name = '''' then defaultName m else name)"

definition Kill :: "net \<Rightarrow> string \<Rightarrow> manager \<Rightarrow> go_err option \<times> manager" where
  "Kill N name m =
     (let name = default_if_empty name m in
      case sessions m name of
        None \<Rightarrow> (Some (Errorf ''session not found'' []), m)
      | Some r \<Rightarrow> close_session N r (forget name m))"

text \<open>\<open>List\<close>, for the map iteration order \<open>ks\<close>.\<close>

definition List :: "string list \<Rightarrow> manager \<Rightarrow> ref list" where
  "List ks m = map (\<lambda>k. the (sessions m k)) ks"

definition Get :: "string \<Rightarrow> manager \<Rightarrow> ref res" where
  "Get name m =
     (case sessions m (default_if_empty name m) of
        None \<Rightarrow> Inl (Errorf ''session not found'' [])
      | Some r \<Rightarrow> Inr r)"

definition GetDefault :: "manager \<Rightarrow> ref res" where
  "GetDefault m = Get (defaultName m) m"

definition Use :: "net \<Rightarrow> string \<Rightarrow> string \<Rightarrow> string \<Rightarrow> manager \<Rightarrow> go_err option \<times> manager" where
  "Use N name password keyPath m =
     (let name = default_if_empty name m in
      case sessions m name of
        None \<Rightarrow> (Some (Errorf ''session not found'' []), m)
      | Some r \<Rightarrow>
          let m1 = m\<lparr>defaultName := name\<rparr> in
          if IsLocalSession (objs m1 r) then (None, m1)
          else (case GetStatus (objs m1 r) of
                  StatusConnected \<Rightarrow> (None, m1)
                | StatusConnecting \<Rightarrow> (None, m1)
                | StatusReconnecting \<Rightarrow> (None, m1)
                | _ \<Rightarrow> reconnectSSH N r (set_creds password keyPath r m1)))"

fun close_all :: "net \<Rightarrow> ref list \<Rightarrow> manager \<Rightarrow> manager" where
  "close_all N [] m = m"
| "close_all N (r # rs) m = close_all N rs (snd (close_session N r m))"

definition KillAll :: "net \<Rightarrow> string list \<Rightarrow> manager \<Rightarrow> manager" where
  "KillAll N ks m = close_all N (List ks m) (m\<lparr>sessions := Map.empty, defaultName := ''''\<rparr>)"

definition RegisterOfflineSession ::
  "string \<Rightarrow> string \<Rightarrow> string \<Rightarrow> int \<Rightarrow> string \<Rightarrow> int \<Rightarrow> manager \<Rightarrow> manager" where
  "RegisterOfflineSession name user host port keyPath createdAt m =
     (let (r, m1) = alloc (SSH \<lparr>s_Name = name, s_Host = host, s_User = user, s_Port = port,
            s_Password = '''', s_KeyPath = keyPath, s_Status = StatusOffline, s_Client = None,
            s_CreatedAt = createdAt, s_LastCmd = ''''\<rparr>) m
      in m1\<lparr>sessions := (sessions m1)(name \<mapsto> r)\<rparr>)"

definition Reconnect :: "net \<Rightarrow> string \<Rightarrow> manager \<Rightarrow> ref res \<times> manager" where
  "Reconnect N name m =
     (case sessions m name of
        None \<Rightarrow> (Inl (Errorf ''session not found'' []), m)
      | Some r \<Rightarrow>
          if IsLocalSession (objs m r)
          then (Inl (Errorf ''session %q is not an SSH session'' [AStr name]), m)
          else (case reconnectSSH N r m of (Some e, m1) \<Rightarrow> (Inl e, m1) | (None, m1) \<Rightarrow> (Inr r, m1)))"

section \<open>Ownership of connections\<close>

text \<open>
  \<open>own_inv H m\<close>: registered names match their objects; a session that holds a client is
  not waiting for its first dial, and no two sessions hold the same client; the client
  objects that are open are exactly those of the open connections; and every open connection
  belongs to a session or to the operations in flight, which hold the set \<open>H\<close>.
\<close>

definition own_inv :: "cid set \<Rightarrow> manager \<Rightarrow> bool" where
  "own_inv H m \<longleftrightarrow>
     (\<forall>n r. sessions m n = Some r \<longrightarrow> r < nextRef m \<and> GetName (objs m r) = n) \<and>
     (\<forall>r c. GetClient (objs m r) = Some c \<longrightarrow> r < nextRef m \<and> c < nextClient m \<and> c \<notin> H
            \<and> GetStatus (objs m r) \<noteq> StatusConnecting) \<and>
     (\<forall>r r' c. GetClient (objs m r) = Some c \<longrightarrow> GetClient (objs m r') = Some c \<longrightarrow> r = r') \<and>
     (\<forall>c\<in>H. c < nextClient m) \<and>
     (\<forall>c<nextClient m. GoClient (clients m c) = (if c \<in> netOpen m then Some c else None)) \<and>
     (\<forall>c\<in>netOpen m. c < nextClient m \<and> (c \<in> H \<or> (\<exists>r. GetClient (objs m r) = Some c)))"

lemma set_get [simp]:
  "GetName (SetStatus st s) = GetName s" "GetName (SetClient c s) = GetName s"
  "GetName (SetPassword p s) = GetName s" "GetName (SetKeyPath p s) = GetName s"
  "GetName (SetLastCmd p s) = GetName s"
  "GetClient (SetStatus st s) = GetClient s" "GetClient (SetPassword p s) = GetClient s"
  "GetClient (SetKeyPath p s) = GetClient s" "GetClient (SetLastCmd p s) = GetClient s"
  "GetStatus (SetStatus st s) = st" "GetStatus (SetClient c s) = GetStatus s"
  "GetStatus (SetPassword p s) = GetStatus s" "GetStatus (SetKeyPath p s) = GetStatus s"
  "GetStatus (SetLastCmd p s) = GetStatus s"
  "IsLocalSession (SetStatus st s) = IsLocalSession s" "IsLocalSession (SetClient c s) = IsLocalSession s"
  "IsLocalSession (SetPassword p s) = IsLocalSession s" "IsLocalSession (SetKeyPath p s) = IsLocalSession s"
  "IsLocalSession (SetLastCmd p s) = IsLocalSession s"
  "GetClient (SetClient None s) = None"
  by (cases s; simp)+

lemma GetClient_SetClient [simp]: "\<not> IsLocalSession s \<Longrightarrow> GetClient (SetClient c s) = c"
  by (cases s) auto

lemma GetClient_local: "IsLocalSession s \<Longrightarrow> GetClient s = None"
  by (cases s) auto

lemma upd_obj_sel [simp]:
  "sessions (upd_obj r f m) = sessions m" "defaultName (upd_obj r f m) = defaultName m"
  "nextRef (upd_obj r f m) = nextRef m" "clients (upd_obj r f m) = clients m"
  "nextClient (upd_obj r f m) = nextClient m" "netOpen (upd_obj r f m) = netOpen m"
  "dials (upd_obj r f m) = dials m"
  "objs (upd_obj r f m) r' = (if r' = r then f (objs m r) else objs m r')"
  by (simp_all add: upd_obj_def)

lemma close_client_sel [simp]:
  "sessions (snd (close_client N c m)) = sessions m"
  "defaultName (snd (close_client N c m)) = defaultName m"
  "nextRef (snd (close_client N c m)) = nextRef m" "objs (snd (close_client N c m)) = objs m"
  "nextClient (snd (close_client N c m)) = nextClient m" "dials (snd (close_client N c m)) = dials m"
  by (auto simp: close_client_def Let_def split: prod.splits option.splits)

lemma connect_sel [simp]:
  "sessions (snd (connect N u h p a m)) = sessions m"
  "defaultName (snd (connect N u h p a m)) = defaultName m"
  "nextRef (snd (connect N u h p a m)) = nextRef m" "objs (snd (connect N u h p a m)) = objs m"
  "dials (snd (connect N u h p a m)) = Suc (dials m)"
  by (auto simp: connect_def Let_def split: option.splits)

lemma own_invI:
  assumes "\<And>n r. sessions m n = Some r \<Longrightarrow> r < nextRef m \<and> GetName (objs m r) = n"
    "\<And>r c. GetClient (objs m r) = Some c \<Longrightarrow> r < nextRef m \<and> c < nextClient m \<and> c \<notin> H
            \<and> GetStatus (objs m r) \<noteq> StatusConnecting"
    "\<And>r r' c. GetClient (objs m r) = Some c \<Longrightarrow> GetClient (objs m r') = Some c \<Longrightarrow> r = r'"
    "\<And>c. c \<in> H \<Longrightarrow> c < nextClient m"
    "\<And>c. c < nextClient m \<Longrightarrow> GoClient (clients m c) = (if c \<in> netOpen m then Some c else None)"
    "\<And>c. c \<in> netOpen m \<Longrightarrow> c < nextClient m"
    "\<And>c. c \<in> netOpen m \<Longrightarrow> c \<notin> H \<Longrightarrow> \<exists>r. GetClient (objs m r) = Some c"
  shows "own_inv H m"
  unfolding own_inv_def using assms by blast

lemma own_invD:
  assumes "own_inv H m"
  shows own_reg: "\<And>n r. sessions m n = Some r \<Longrightarrow> r < nextRef m \<and> GetName (objs m r) = n"
    and own_holder: "\<And>r c. GetClient (objs m r) = Some c \<Longrightarrow> r < nextRef m \<and> c < nextClient m \<and> c \<notin> H
            \<and> GetStatus (objs m r) \<noteq> StatusConnecting"
    and own_inj: "\<And>r r' c. GetClient (objs m r) = Some c \<Longrightarrow> GetClient (objs m r') = Some c \<Longrightarrow> r = r'"
    and own_flight: "\<And>c. c \<in> H \<Longrightarrow> c < nextClient m"
    and own_go: "\<And>c. c < nextClient m \<Longrightarrow> GoClient (clients m c) = (if c \<in> netOpen m then Some c else None)"
    and own_open_less: "\<And>c. c \<in> netOpen m \<Longrightarrow> c < nextClient m"
    and own_open: "\<And>c. c \<in> netOpen m \<Longrightarrow> c \<notin> H \<Longrightarrow> \<exists>r. GetClient (objs m r) = Some c"
  using assms unfolding own_inv_def by blast+

lemmas own_facts = own_holder own_flight own_go own_open_less

lemma close_client_open:
  assumes "own_inv H m" "c < nextClient m"
  shows "netOpen (snd (close_client N c m)) = netOpen m - {c}"
    and "GoClient (clients (snd (close_client N c m)) k) = (if k = c then None else GoClient (clients m k))"
  using own_go[OF assms] by (auto simp: close_client_def Client_Close_def Let_def)

lemma own_close:
  assumes I: "own_inv H m" and c: "c < nextClient m"
  shows "own_inv (H - {c}) (snd (close_client N c m))"
proof (rule own_invI, goal_cases)
  case (1 n r) then show ?case using own_reg[OF I] by simp
next
  case (2 r k) then show ?case using own_holder[OF I] by simp
next
  case (3 r r' k) then show ?case using own_inj[OF I] by simp
next
  case (4 k) then show ?case using own_flight[OF I] by simp
next
  case (5 k) then show ?case using own_go[OF I] by (simp add: close_client_open[OF I c])
next
  case (6 k) then show ?case using own_open_less[OF I] by (simp add: close_client_open[OF I c])
next
  case (7 k) then show ?case using own_open[OF I] by (auto simp add: close_client_open[OF I c])
qed

lemma own_upd:
  assumes I: "own_inv H m" and n: "\<And>s. GetName (f s) = GetName s"
    and old: "\<And>c. c \<in> H' \<longleftrightarrow> c \<in> H \<and> GetClient (f (objs m r)) \<noteq> Some c
                      \<or> GetClient (objs m r) = Some c \<and> GetClient (f (objs m r)) \<noteq> Some c"
    and new: "\<And>c. GetClient (f (objs m r)) = Some c \<Longrightarrow> r < nextRef m
              \<and> (c \<in> H \<or> GetClient (objs m r) = Some c)
              \<and> GetStatus (f (objs m r)) \<noteq> StatusConnecting"
  shows "own_inv H' (upd_obj r f m)"
proof (rule own_invI, goal_cases)
  case (1 n' r') then show ?case using own_reg[OF I] n by auto
next
  case (2 r' c) then show ?case
    using own_holder[OF I, of r' c] own_holder[OF I, of r c] own_inj[OF I, of r' c r] new[of c] old[of c] own_flight[OF I, of c]
    by (auto split: if_splits)
next
  case (3 r1 r2 c) then show ?case
    using own_inj[OF I] own_holder[OF I] new[of c] by (auto split: if_splits)
next
  case (4 c) then show ?case using old[of c] own_flight[OF I] own_holder[OF I] by auto
next
  case (5 c) then show ?case using own_go[OF I] by simp
next
  case (6 c) then show ?case using own_open_less[OF I] by simp
next
  case (7 c)
  then have "GetClient (f (objs m r)) = Some c \<or> c \<notin> H \<and> GetClient (objs m r) \<noteq> Some c"
    using old[of c] by auto
  then show ?case
  proof
    assume "GetClient (f (objs m r)) = Some c"
    then show ?case by (intro exI[of _ r]) simp
  next
    assume no: "c \<notin> H \<and> GetClient (objs m r) \<noteq> Some c"
    obtain r' where "GetClient (objs m r') = Some c" using own_open[OF I, of c] 7 no by auto
    then show ?case using no by (intro exI[of _ r']) auto
  qed
qed

lemma connect_fail_state:
  "connect N u h p a m = (Inl e, m') \<Longrightarrow> m' = m\<lparr>dials := Suc (dials m)\<rparr>"
  by (auto simp: connect_def Let_def split: option.splits)

lemma own_dials [simp]: "own_inv H (m\<lparr>dials := d\<rparr>) = own_inv H m"
  by (simp add: own_inv_def)

lemma own_connect_fail:
  "own_inv H m \<Longrightarrow> connect N u h p a m = (Inl e, m') \<Longrightarrow> own_inv H m'"
  by (auto dest: connect_fail_state)

lemma own_connect_new:
  assumes "connect N u h p a m = (Inr c, m')"
  shows "c = nextClient m" "nextClient m' = Suc c" "netOpen m' = insert c (netOpen m)"
    "GoClient (clients m' k) = (if k = c then Some c else GoClient (clients m k))"
  using assms by (auto simp: connect_def Let_def split: option.splits)

lemma own_connect:
  assumes I: "own_inv H m" and d: "connect N u h p a m = (Inr c, m')"
  shows "own_inv (insert c H) m'" "c \<notin> H" "c \<notin> netOpen m"
proof -
  note s = connect_sel[of N u h p a m, unfolded d snd_conv]
  note n = own_connect_new[OF d]
  show "c \<notin> H" using own_flight[OF I, of c] n by auto
  show "c \<notin> netOpen m" using own_open_less[OF I, of c] n by auto
  show "own_inv (insert c H) m'"
  proof (rule own_invI, goal_cases)
    case (1 n r) then show ?case using own_reg[OF I] by (simp add: s)
  next
    case (2 r k) then show ?case using own_holder[OF I, of r k] n by (auto simp: s)
  next
    case (3 r r' k) then show ?case using own_inj[OF I] by (simp add: s)
  next
    case (4 k) then show ?case using own_flight[OF I, of k] n by auto
  next
    case (5 k) then show ?case using own_go[OF I, of k] n by (auto simp: less_Suc_eq)
  next
    case (6 k) then show ?case using own_open_less[OF I, of k] n by auto
  next
    case (7 k) then show ?case using own_open[OF I, of k] n by (auto simp: s)
  qed
qed

lemma own_registry:
  assumes I: "own_inv H m" and "\<And>n r. S n = Some r \<Longrightarrow> sessions m n = Some r"
  shows "own_inv H (m\<lparr>sessions := S, defaultName := d\<rparr>)"
  by (rule own_invI)
     (use own_reg[OF I, OF assms(2)] own_facts[OF I] own_inj[OF I] own_open[OF I] in auto)

lemma own_default: "own_inv H m \<Longrightarrow> own_inv H (m\<lparr>defaultName := d\<rparr>)"
  using own_registry[of H m "sessions m" d] by simp

text \<open>The updates the operations make on a session object, as instances of \<open>own_upd\<close>.\<close>

lemma own_same:
  assumes "own_inv H m" "\<And>s. GetName (f s) = GetName s" "\<And>s. GetClient (f s) = GetClient s"
    "\<And>s. GetStatus (f s) = GetStatus s"
  shows "own_inv H (upd_obj r f m)"
  by (rule own_upd[OF assms(1,2)]) (use assms own_holder[OF assms(1)] in auto)

lemma own_status:
  assumes "own_inv H m"
    "GetClient (objs m r) = None \<or> st \<noteq> StatusConnecting"
  shows "own_inv H (upd_obj r (SetStatus st) m)"
  by (rule own_upd[OF assms(1)]) (use assms own_holder[OF assms(1)] in auto)

lemma own_detach:
  assumes "own_inv H m"  "\<And>s. GetName (f s) = GetName s" "\<And>s. GetClient (f s) = None"
  shows "own_inv (H \<union> set_option (GetClient (objs m r))) (upd_obj r f m)"
  by (rule own_upd[OF assms(1)]) (use assms in auto)

lemma own_adopt:
  assumes "own_inv H m" "c \<in> H" "GetClient (objs m r) = None" "r < nextRef m"
    "\<not> IsLocalSession (objs m r)"
  shows "own_inv (H - {c}) (upd_obj r (\<lambda>s. SetStatus StatusConnected (SetClient (Some c) s)) m)"
  by (rule own_upd[OF assms(1)]) (use assms in auto)

lemma own_alloc:
  assumes I: "own_inv H m" and "GetClient s = None" "GetName s = n"
  shows "own_inv H ((snd (alloc s m))\<lparr>sessions := (sessions m)(n \<mapsto> nextRef m), defaultName := d\<rparr>)"
proof -
  have fresh: "GetClient (objs m (nextRef m)) = None"
    using own_holder[OF I, of "nextRef m"] by (cases "GetClient (objs m (nextRef m))") auto
  show ?thesis
  proof (rule own_invI, goal_cases)
    case (1 n' r) then show ?case
      using own_reg[OF I, of n' r] assms by (auto simp: alloc_def split: if_splits)
  next
    case (2 r c) then show ?case
      using own_holder[OF I, of r c] assms by (auto simp: alloc_def split: if_splits)
  next
    case (3 r r' c) then show ?case
      using own_inj[OF I, of r c r'] assms by (auto simp: alloc_def split: if_splits)
  next
    case (4 c) then show ?case using own_flight[OF I] by (simp add: alloc_def)
  next
    case (5 c) then show ?case using own_go[OF I] by (simp add: alloc_def)
  next
    case (6 c) then show ?case using own_open_less[OF I] by (simp add: alloc_def)
  next
    case (7 c) then obtain r where r: "GetClient (objs m r) = Some c"
      using own_open[OF I, of c] by (auto simp: alloc_def)
    then have "r \<noteq> nextRef m" using fresh by auto
    then show ?case using r by (intro exI[of _ r]) (simp add: alloc_def)
  qed
qed

section \<open>The manager invariant\<close>

text \<open>
  Between operations: every connection is owned by a session, every session that owns one is
  registered, a registered SSH session is connected exactly when it has a client and offline
  otherwise, and the default names a registered session (or none).
\<close>

definition settled :: "session \<Rightarrow> bool" where
  "settled s \<longleftrightarrow>
     (if IsLocalSession s \<or> GetClient s \<noteq> None then GetStatus s = StatusConnected
      else GetStatus s = StatusOffline)"

definition mgr_inv :: "manager \<Rightarrow> bool" where
  "mgr_inv m \<longleftrightarrow> own_inv {} m
     \<and> (defaultName m = '''' \<or> sessions m (defaultName m) \<noteq> None)
     \<and> (\<forall>r. GetClient (objs m r) \<noteq> None \<longrightarrow> sessions m (GetName (objs m r)) = Some r)
     \<and> (\<forall>n r. sessions m n = Some r \<longrightarrow> settled (objs m r))"

lemma mgr_invD:
  assumes "mgr_inv m"
  shows mgr_own: "own_inv {} m"
    and mgr_default: "defaultName m = '''' \<or> sessions m (defaultName m) \<noteq> None"
    and mgr_holder: "\<And>r c. GetClient (objs m r) = Some c \<Longrightarrow> sessions m (GetName (objs m r)) = Some r"
    and mgr_settled: "\<And>n r. sessions m n = Some r \<Longrightarrow> settled (objs m r)"
  using assms unfolding mgr_inv_def by auto

text \<open>The state after \<open>reconnectSSH\<close>, for a registered session: the old connection is closed
  whatever the dial does.\<close>

definition detached :: "net \<Rightarrow> ref \<Rightarrow> manager \<Rightarrow> manager" where
  "detached N r m =
     (let m2 = upd_obj r (\<lambda>s. SetClient None (SetStatus StatusReconnecting s)) m
      in case GetClient (objs m r) of None \<Rightarrow> m2 | Some c \<Rightarrow> snd (close_client N c m2))"

lemma detached_sel [simp]:
  "sessions (detached N r m) = sessions m" "defaultName (detached N r m) = defaultName m"
  "nextRef (detached N r m) = nextRef m" "nextClient (detached N r m) = nextClient m"
  "dials (detached N r m) = dials m"
  "objs (detached N r m) r' = (if r' = r then SetClient None (SetStatus StatusReconnecting (objs m r)) else objs m r')"
  by (auto simp: detached_def Let_def split: option.splits)

lemma own_detached:
  assumes I: "own_inv H m"
  shows "own_inv H (detached N r m)"
    and "netOpen (detached N r m) = netOpen m - set_option (GetClient (objs m r))"
proof -
  let ?f = "\<lambda>s. SetClient None (SetStatus StatusReconnecting s)"
  have D: "own_inv (H \<union> set_option (GetClient (objs m r))) (upd_obj r ?f m)"
    by (rule own_detach[OF I]) auto
  have "own_inv H (detached N r m) \<and> netOpen (detached N r m) = netOpen m - set_option (GetClient (objs m r))"
  proof (cases "GetClient (objs m r)")
    case None
    then show ?thesis using D by (simp add: detached_def Let_def)
  next
    case (Some c)
    then have c: "c < nextClient m" "c \<notin> H" using own_holder[OF I Some] by auto
    then have "insert c H - {c} = H" by auto
    then show ?thesis
      using own_close[OF D, of c N] close_client_open[OF D, of c N] c Some
      by (simp add: detached_def Let_def)
  qed
  then show "own_inv H (detached N r m)"
    "netOpen (detached N r m) = netOpen m - set_option (GetClient (objs m r))" by auto
qed

lemma reconnectSSH_unfold:
  "reconnectSSH N r m =
     (case reconnect_dial N r (detached N r m) of
        (Inl e, m4) \<Rightarrow> (Some e, upd_obj r (SetStatus StatusOffline) m4)
      | (Inr c, m4) \<Rightarrow>
          if \<not> still_registered r m4
          then (Some (Errorf ''session was removed while reconnecting'' []), snd (close_client N c m4))
          else reconnect_adopt N r c m4)"
proof -
  have u: "upd_obj r (SetClient None) (upd_obj r (SetStatus StatusReconnecting) m)
        = upd_obj r (\<lambda>s. SetClient None (SetStatus StatusReconnecting s)) m"
    by (simp add: upd_obj_def)
  show ?thesis
    by (cases "GetClient (objs m r)")
       (simp_all add: reconnectSSH_def reconnect_begin_def reconnect_detach_def detached_def u Let_def)
qed

lemma reconnectSSH_cases:
  assumes I: "own_inv {} m" and reg: "sessions m n = Some r" and ssh: "\<not> IsLocalSession (objs m r)"
  obtains (failed) e where
      "reconnectSSH N r m = (Some e, upd_obj r (SetStatus StatusOffline) ((detached N r m)\<lparr>dials := Suc (dials m)\<rparr>))"
  | (up) m4 where "connect N (GetUser (objs m r)) (GetHost (objs m r)) (case objs m r of SSH x \<Rightarrow> s_Port x | Local _ \<Rightarrow> 0)
        \<lparr>auth_Password = GetPassword (objs m r), auth_KeyPath = GetKeyPath (objs m r)\<rparr> (detached N r m) = (Inr (nextClient m), m4)"
      "reconnectSSH N r m =
         (None, upd_obj r (\<lambda>s. SetStatus StatusConnected (SetClient (Some (nextClient m)) s)) m4)"
proof -
  have flds: "GetUser (SetClient None (SetStatus st s)) = GetUser s"
      "GetHost (SetClient None (SetStatus st s)) = GetHost s"
      "GetPassword (SetClient None (SetStatus st s)) = GetPassword s"
      "GetKeyPath (SetClient None (SetStatus st s)) = GetKeyPath s"
      "(case SetClient None (SetStatus st s) of SSH x \<Rightarrow> s_Port x | Local _ \<Rightarrow> 0) =
       (case s of SSH x \<Rightarrow> s_Port x | Local _ \<Rightarrow> 0)" for st s
    by (cases s; simp)+
  have name: "GetName (objs m r) = n" using own_reg[OF I reg] by simp
  let ?c = "reconnect_dial N r (detached N r m)"
  show thesis
  proof (cases "fst ?c")
    case (Inl e)
    then obtain m4 where c: "?c = (Inl e, m4)" by (cases ?c) auto
    then have "m4 = (detached N r m)\<lparr>dials := Suc (dials m)\<rparr>"
      by (auto simp: reconnect_dial_def Let_def dest: connect_fail_state)
    then show thesis using c failed by (simp add: reconnectSSH_unfold)
  next
    case (Inr c)
    then obtain m4 where c: "?c = (Inr c, m4)" by (cases ?c) auto
    then have k: "connect N (GetUser (objs m r)) (GetHost (objs m r)) (case objs m r of SSH x \<Rightarrow> s_Port x | Local _ \<Rightarrow> 0)
        \<lparr>auth_Password = GetPassword (objs m r), auth_KeyPath = GetKeyPath (objs m r)\<rparr> (detached N r m) = (Inr c, m4)"
      by (simp add: reconnect_dial_def Let_def flds)
    have o: "objs m4 = objs (detached N r m)" "sessions m4 = sessions m"
      using connect_sel(1,4)[of N _ _ _ _ "detached N r m", unfolded k snd_conv] by (metis k connect_sel(1,4) snd_conv detached_sel(1))+
    have n: "c = nextClient m" using own_connect_new(1)[OF k] by simp
    have "reconnectSSH N r m =
         (None, upd_obj r (\<lambda>s. SetStatus StatusConnected (SetClient (Some c) s)) m4)"
      using c o name reg ssh by (simp add: reconnectSSH_unfold still_registered_def reconnect_adopt_def)
    then show thesis using up k n by simp
  qed
qed

lemma mgr_invI:
  assumes "own_inv {} m" "defaultName m = '''' \<or> sessions m (defaultName m) \<noteq> None"
    "\<And>r c. GetClient (objs m r) = Some c \<Longrightarrow> sessions m (GetName (objs m r)) = Some r"
    "\<And>n r. sessions m n = Some r \<Longrightarrow> settled (objs m r)"
  shows "mgr_inv m"
  using assms unfolding mgr_inv_def by auto

text \<open>One registered session changed, registry and default as before.\<close>

lemma mgr_upd:
  assumes I: "mgr_inv m" and own: "own_inv {} m'"
    and reg: "sessions m' = sessions m" "defaultName m' = defaultName m" "sessions m n = Some r"
    and obj: "\<And>r'. r' \<noteq> r \<Longrightarrow> objs m' r' = objs m r'"
    and s: "settled (objs m' r)"
  shows "mgr_inv m'"
proof (rule mgr_invI[OF own], goal_cases)
  case 1 then show ?case using mgr_default[OF I] reg by simp
next
  case (2 r' c) then show ?case
    using mgr_holder[OF I, of r' c] obj[of r'] reg own_reg[OF own, of n r] by (cases "r' = r") auto
next
  case (3 n' r') then show ?case using mgr_settled[OF I, of n' r'] obj[of r'] reg s by (cases "r' = r") auto
qed

lemma reconnectSSH_ok:
  assumes I: "mgr_inv m" and reg: "sessions m n = Some r" and ssh: "\<not> IsLocalSession (objs m r)"
    and R: "reconnectSSH N r m = (e, m')"
  shows "mgr_inv m'"
    and "sessions m' = sessions m" "defaultName m' = defaultName m" "nextRef m' = nextRef m"
    and "\<And>r'. r' \<noteq> r \<Longrightarrow> objs m' r' = objs m r'"
    and "GetClient (objs m' r) = (if e = None then Some (nextClient m) else None)"
    and "netOpen m' = netOpen m - set_option (GetClient (objs m r)) \<union> (if e = None then {nextClient m} else {})"
    and "dials m' = Suc (dials m)"
    and "GetStatus (objs m' r) = (if e = None then StatusConnected else StatusOffline)"
proof -
  note O = mgr_own[OF I]
  have r: "r < nextRef m" using own_reg[OF O reg] by simp
  have "own_inv {} m' \<and> sessions m' = sessions m \<and> defaultName m' = defaultName m \<and> nextRef m' = nextRef m
    \<and> (\<forall>r'. r' \<noteq> r \<longrightarrow> objs m' r' = objs m r') \<and> settled (objs m' r)
    \<and> GetClient (objs m' r) = (if e = None then Some (nextClient m) else None)
    \<and> netOpen m' = netOpen m - set_option (GetClient (objs m r)) \<union> (if e = None then {nextClient m} else {})
    \<and> dials m' = Suc (dials m) \<and> GetStatus (objs m' r) = (if e = None then StatusConnected else StatusOffline)"
  proof (cases rule: reconnectSSH_cases[OF O reg ssh, of N])
    case (1 e')
    let ?d = "(detached N r m)\<lparr>dials := Suc (dials m)\<rparr>"
    have "own_inv {} (upd_obj r (SetStatus StatusOffline) ?d)"
      by (rule own_status) (use own_detached(1)[OF O] in auto)
    moreover have "e = Some e'" "m' = upd_obj r (SetStatus StatusOffline) ?d" using R 1 by auto
    ultimately show ?thesis using own_detached(2)[OF O, of N r] ssh by (simp add: settled_def)
  next
    case (2 m4)
    note s = connect_sel[of N "GetUser (objs m r)" "GetHost (objs m r)"
        "case objs m r of SSH x \<Rightarrow> s_Port x | Local _ \<Rightarrow> 0"
        "\<lparr>auth_Password = GetPassword (objs m r), auth_KeyPath = GetKeyPath (objs m r)\<rparr>" "detached N r m",
        unfolded 2(1) snd_conv]
    have C: "own_inv {nextClient m} m4"
      using own_connect(1)[OF own_detached(1)[OF O] 2(1)] by simp
    have "own_inv ({nextClient m} - {nextClient m})
        (upd_obj r (\<lambda>s. SetStatus StatusConnected (SetClient (Some (nextClient m)) s)) m4)"
      by (rule own_adopt[OF C]) (use s r ssh in auto)
    moreover have "e = None" "m' = upd_obj r (\<lambda>s. SetStatus StatusConnected (SetClient (Some (nextClient m)) s)) m4"
      using R 2(2) by auto
    ultimately show ?thesis
      using s own_connect_new(3)[OF 2(1)] own_detached(2)[OF O, of N r] ssh by (simp add: settled_def)
  qed
  then show "sessions m' = sessions m" "defaultName m' = defaultName m" "nextRef m' = nextRef m"
    "\<And>r'. r' \<noteq> r \<Longrightarrow> objs m' r' = objs m r'"
    "GetClient (objs m' r) = (if e = None then Some (nextClient m) else None)"
    "netOpen m' = netOpen m - set_option (GetClient (objs m r)) \<union> (if e = None then {nextClient m} else {})"
    "dials m' = Suc (dials m)" "mgr_inv m'"
    "GetStatus (objs m' r) = (if e = None then StatusConnected else StatusOffline)"
    using mgr_upd[OF I _ _ _ reg, of m'] by auto
qed

text \<open>A change of the registered session \<open>r\<close> that keeps name, client and status.\<close>

lemma mgr_same:
  assumes I: "mgr_inv m" and reg: "sessions m n = Some r"
    and f: "\<And>s. GetName (f s) = GetName s" "\<And>s. GetClient (f s) = GetClient s"
      "\<And>s. GetStatus (f s) = GetStatus s" "\<And>s. IsLocalSession (f s) = IsLocalSession s"
  shows "mgr_inv (upd_obj r f m)"
proof (rule mgr_upd[OF I _ _ _ reg])
  show "own_inv {} (upd_obj r f m)" by (rule own_same[OF mgr_own[OF I] f(1-3)])
  show "settled (objs (upd_obj r f m) r)" using mgr_settled[OF I reg] f by (simp add: settled_def)
qed auto

lemma set_creds_sel [simp]:
  "sessions (set_creds p k r m) = sessions m" "defaultName (set_creds p k r m) = defaultName m"
  "nextRef (set_creds p k r m) = nextRef m" "netOpen (set_creds p k r m) = netOpen m"
  "nextClient (set_creds p k r m) = nextClient m" "dials (set_creds p k r m) = dials m"
  "GetName (objs (set_creds p k r m) r') = GetName (objs m r')"
  "GetClient (objs (set_creds p k r m) r') = GetClient (objs m r')"
  "IsLocalSession (objs (set_creds p k r m) r') = IsLocalSession (objs m r')"
  "GetStatus (objs (set_creds p k r m) r') = GetStatus (objs m r')"
  "r' \<noteq> r \<Longrightarrow> objs (set_creds p k r m) r' = objs m r'"
  by (auto simp: set_creds_def Let_def)

lemma mgr_set_creds:
  "mgr_inv m \<Longrightarrow> sessions m n = Some r \<Longrightarrow> mgr_inv (set_creds p k r m)"
  by (auto simp: set_creds_def Let_def intro!: mgr_same[where n = n])

lemma mgr_set_default:
  "mgr_inv m \<Longrightarrow> sessions m n \<noteq> None \<Longrightarrow> mgr_inv (m\<lparr>defaultName := n\<rparr>)"
  using own_default unfolding mgr_inv_def by auto

section \<open>Every operation keeps the invariant\<close>

lemma close_session_sel [simp]:
  "sessions (snd (close_session N r m)) = sessions m"
  "defaultName (snd (close_session N r m)) = defaultName m"
  "nextRef (snd (close_session N r m)) = nextRef m"
  "nextClient (snd (close_session N r m)) = nextClient m"
  "dials (snd (close_session N r m)) = dials m"
  "objs (snd (close_session N r m)) r' =
     (if r' = r then SetStatus StatusDisconnected (SetClient None (objs m r)) else objs m r')"
  by (auto simp: close_session_eq Let_def split: option.splits)

lemma own_close_session:
  assumes I: "own_inv H m"
  shows "own_inv H (snd (close_session N r m))"
    and "netOpen (snd (close_session N r m)) = netOpen m - set_option (GetClient (objs m r))"
proof -
  let ?m = "upd_obj r (\<lambda>s. SetStatus StatusDisconnected (SetClient None s)) m"
  have D: "own_inv (H \<union> set_option (GetClient (objs m r))) ?m"
    by (rule own_detach[OF I]) auto
  have "own_inv H (snd (close_session N r m))
    \<and> netOpen (snd (close_session N r m)) = netOpen m - set_option (GetClient (objs m r))"
  proof (cases "GetClient (objs m r)")
    case None
    then show ?thesis using D by (simp add: close_session_eq)
  next
    case (Some c)
    then have c: "c < nextClient m" "c \<notin> H" using own_holder[OF I Some] by auto
    then have "insert c H - {c} = H" by auto
    then show ?thesis
      using own_close[OF D, of c N] close_client_open[OF D, of c N] c Some
      by (simp add: close_session_eq)
  qed
  then show "own_inv H (snd (close_session N r m))"
    "netOpen (snd (close_session N r m)) = netOpen m - set_option (GetClient (objs m r))" by auto
qed

lemma Kill_ok:
  assumes I: "mgr_inv m" and K: "Kill N name m = (e, m')"
  shows "mgr_inv m'"
proof (cases "sessions m (default_if_empty name m)")
  case None
  then show ?thesis using I K by (simp add: Kill_def Let_def)
next
  case (Some r)
  let ?n = "default_if_empty name m"
  note O = mgr_own[OF I]
  have m': "m' = snd (close_session N r (forget ?n m))"
    using K Some by (simp add: Kill_def Let_def)
  have F: "own_inv {} (forget ?n m)"
    unfolding forget_def by (rule own_registry[OF O]) (auto split: if_splits)
  show ?thesis unfolding m'
  proof (rule mgr_invI[OF own_close_session(1)[OF F]], goal_cases)
    case 1 then show ?case using mgr_default[OF I] by (simp add: forget_def)
  next
    case (2 r' c) then show ?case
      using mgr_holder[OF I, of r' c] Some own_reg[OF O Some] by (auto simp: forget_def split: if_splits)
  next
    case (3 n' r') then show ?case
      using mgr_settled[OF I, of n' r'] own_reg[OF O Some] own_reg[OF O, of n' r']
      by (auto simp: forget_def split: if_splits)
  qed
qed

lemma close_all_ok:
  assumes "own_inv H m"
  shows "own_inv H (close_all N rs m)
    \<and> netOpen (close_all N rs m) = netOpen m - (\<Union>r\<in>set rs. set_option (GetClient (objs m r)))
    \<and> sessions (close_all N rs m) = sessions m \<and> defaultName (close_all N rs m) = defaultName m
    \<and> (\<forall>r. GetClient (objs (close_all N rs m) r) = (if r \<in> set rs then None else GetClient (objs m r)))"
  using assms
proof (induction rs arbitrary: m)
  case Nil
  then show ?case by simp
next
  case (Cons r rs)
  note IH = Cons.IH[OF own_close_session(1)[OF Cons.prems, of N r]]
  then show ?case
    using own_close_session(2)[OF Cons.prems, of N r]
    by (auto split: if_splits)
qed

lemma KillAll_state:
  assumes I: "mgr_inv m" and ks: "range_order (sessions m) ks"
  shows "own_inv {} (KillAll N ks m)" "netOpen (KillAll N ks m) = {}"
    "sessions (KillAll N ks m) = Map.empty" "defaultName (KillAll N ks m) = ''''"
    "GetClient (objs (KillAll N ks m) r) = None"
proof -
  note O = mgr_own[OF I]
  have E: "own_inv {} (m\<lparr>sessions := Map.empty, defaultName := ''''\<rparr>)"
    by (rule own_registry[OF O]) simp
  note C = close_all_ok[OF E, of N "List ks m", folded KillAll_def]
  have all: "r' \<in> set (List ks m)" if "GetClient (objs m r') = Some c" for r' c
    using mgr_holder[OF I that] ks by (force simp: List_def range_order_def)
  show "own_inv {} (KillAll N ks m)" "sessions (KillAll N ks m) = Map.empty"
    "defaultName (KillAll N ks m) = ''''" using C by auto
  show "GetClient (objs (KillAll N ks m) r) = None"
    using C all by (cases "GetClient (objs m r)") auto
  have "c \<in> (\<Union>r\<in>set (List ks m). set_option (GetClient (objs m r)))" if "c \<in> netOpen m" for c
    using own_open[OF O that] all by (auto simp: elem_set)
  then show "netOpen (KillAll N ks m) = {}" using C by auto
qed

lemma KillAll_ok: "mgr_inv m \<Longrightarrow> range_order (sessions m) ks \<Longrightarrow> mgr_inv (KillAll N ks m)"
  by (rule mgr_invI) (auto simp: KillAll_state)

lemma alloc_sel [simp]:
  "fst (alloc s m) = nextRef m" "sessions (snd (alloc s m)) = sessions m"
  "defaultName (snd (alloc s m)) = defaultName m" "nextRef (snd (alloc s m)) = Suc (nextRef m)"
  "netOpen (snd (alloc s m)) = netOpen m" "nextClient (snd (alloc s m)) = nextClient m"
  "clients (snd (alloc s m)) = clients m" "dials (snd (alloc s m)) = dials m"
  "objs (snd (alloc s m)) r = (if r = nextRef m then s else objs m r)"
  by (auto simp: alloc_def)

lemma mgr_fresh:
  assumes "mgr_inv m"
  shows "sessions m n \<noteq> Some (nextRef m)" "GetClient (objs m (nextRef m)) = None"
  using own_reg[OF mgr_own[OF assms], of n "nextRef m"] own_holder[OF mgr_own[OF assms], of "nextRef m"]
  by (auto, cases "GetClient (objs m (nextRef m))") auto

lemma mgr_register:
  assumes I: "mgr_inv m" and new: "sessions m n = None" and s: "GetClient s = None" "GetName s = n"
    and own: "own_inv {} m'" and sess: "sessions m' = (sessions m)(n \<mapsto> nextRef m)"
    and d: "defaultName m' = n \<or> defaultName m' = defaultName m"
    and obj: "\<And>r. r \<noteq> nextRef m \<Longrightarrow> objs m' r = objs m r" and st: "settled (objs m' (nextRef m))"
  shows "mgr_inv m'"
proof (rule mgr_invI[OF own], goal_cases)
  case 1 then show ?case using mgr_default[OF I] d sess by auto
next
  case (2 r c) then show ?case
    using mgr_holder[OF I, of r c] new obj[of r] sess own_reg[OF own, of n "nextRef m"]
    by (cases "r = nextRef m") auto
next
  case (3 n' r) then show ?case
    using mgr_settled[OF I, of n' r] mgr_fresh(1)[OF I] obj[of r] st sess
    by (cases "r = nextRef m") (auto split: if_splits)
qed

lemma ConnectLocal_ok:
  assumes I: "mgr_inv m" and C: "ConnectLocal u now name m = (res, m')"
  shows "mgr_inv m'"
proof -
  define n where "n = (if name = '''' then ''local'' else name)"
  show ?thesis
  proof (cases "sessions m n")
    case (Some r)
    then show ?thesis
      using C I mgr_set_default[OF I, of n] by (auto simp: ConnectLocal_def Let_def n_def split: if_splits)
  next
    case None
    let ?s = "Local \<lparr>l_Name = n, l_Host = ''local'', l_User = osUser u,
                 l_Status = StatusConnected, l_CreatedAt = now, l_LastCmd = ''''\<rparr>"
    have m': "m' = (snd (alloc ?s m))\<lparr>sessions := (sessions m)(n \<mapsto> nextRef m), defaultName := n\<rparr>"
      using C None by (simp add: ConnectLocal_def Let_def n_def[symmetric] alloc_def)
    show ?thesis
      by (rule mgr_register[OF I None, of ?s])
         (use own_alloc[OF mgr_own[OF I], of ?s n n] in \<open>auto simp: m' settled_def\<close>)
  qed
qed

lemma RegisterOfflineSession_ok:
  assumes I: "mgr_inv m" and "sessions m n = None"
  shows "mgr_inv (RegisterOfflineSession n user host port key t m)"
proof -
  let ?s = "SSH \<lparr>s_Name = n, s_Host = host, s_User = user, s_Port = port,
            s_Password = '''', s_KeyPath = key, s_Status = StatusOffline, s_Client = None,
            s_CreatedAt = t, s_LastCmd = ''''\<rparr>"
  have m': "RegisterOfflineSession n user host port key t m =
     (snd (alloc ?s m))\<lparr>sessions := (sessions m)(n \<mapsto> nextRef m), defaultName := defaultName m\<rparr>"
    by (simp add: RegisterOfflineSession_def Let_def alloc_def)
  show ?thesis
    by (rule mgr_register[OF I assms(2), of ?s])
       (use own_alloc[OF mgr_own[OF I], of ?s n "defaultName m"] in \<open>auto simp: m' settled_def\<close>)
qed

lemma Reconnect_ok:
  assumes I: "mgr_inv m" and C: "Reconnect N name m = (res, m')"
  shows "mgr_inv m'" "defaultName m' = defaultName m" "sessions m' = sessions m"
proof -
  have "mgr_inv m' \<and> defaultName m' = defaultName m \<and> sessions m' = sessions m"
  proof (cases "\<exists>r. sessions m name = Some r \<and> \<not> IsLocalSession (objs m r)")
    case True
    then obtain r where r: "sessions m name = Some r" "\<not> IsLocalSession (objs m r)" by auto
    obtain e m1 where R: "reconnectSSH N r m = (e, m1)" by fastforce
    have "m' = m1" using C R r by (auto simp: Reconnect_def split: option.splits)
    then show ?thesis using reconnectSSH_ok(1-3)[OF I r R] by simp
  next
    case False
    then have "m' = m" using C by (auto simp: Reconnect_def split: option.splits)
    then show ?thesis using I by simp
  qed
  then show "mgr_inv m'" "defaultName m' = defaultName m" "sessions m' = sessions m" by auto
qed

lemma Use_ok:
  assumes I: "mgr_inv m" and C: "Use N name p k m = (e, m')"
  shows "mgr_inv m'"
proof (cases "sessions m (default_if_empty name m)")
  case None
  then show ?thesis using I C by (simp add: Use_def Let_def)
next
  case (Some r)
  have J: "mgr_inv (m\<lparr>defaultName := default_if_empty name m\<rparr>)"
    using mgr_set_default[OF I] Some by simp
  have "mgr_inv m2"
    if "reconnectSSH N r (set_creds p k r (m\<lparr>defaultName := default_if_empty name m\<rparr>)) = (e, m2)"
      "\<not> IsLocalSession (objs m r)" for m2 e
    by (rule reconnectSSH_ok(1)[OF mgr_set_creds[OF J] _ _ that(1), of "default_if_empty name m"])
       (use Some that in auto)
  then show ?thesis
    using C J Some by (auto simp: Use_def Let_def split: if_splits status.splits)
qed

text \<open>\<open>ConnectSSH\<close>, case by case.  \<open>new_session\<close> is the object it creates.\<close>

definition new_session :: "int \<Rightarrow> string \<Rightarrow> string \<Rightarrow> string \<Rightarrow> int \<Rightarrow> string \<Rightarrow> string \<Rightarrow> session" where
  "new_session now name user host port password keyPath =
     SSH \<lparr>s_Name = name, s_Host = host, s_User = user, s_Port = port, s_Password = password,
          s_KeyPath = keyPath, s_Status = StatusConnecting, s_Client = None, s_CreatedAt = now,
          s_LastCmd = ''''\<rparr>"

lemma new_session_sel [simp]:
  "GetName (new_session t n u h p pw k) = n" "GetClient (new_session t n u h p pw k) = None"
  "GetStatus (new_session t n u h p pw k) = StatusConnecting"
  "IsLocalSession (new_session t n u h p pw k) = False"
  "same_target u h p (new_session t n u h p pw k)"
  by (auto simp: new_session_def same_target_def)

lemma same_target_ssh: "same_target u h p s \<Longrightarrow> \<not> IsLocalSession s"
  by (cases s) (auto simp: same_target_def)

lemma ConnectSSH_existing:
  assumes reg: "sessions m (ssh_name name user host) = Some r"
  shows "ConnectSSH N await now name user host port pw key m =
    (if \<not> same_target user host port (objs m r)
     then (Inl (Errorf ''session name '%s' already exists for a different host'' [AStr (ssh_name name user host)]), m)
     else let m1 = m\<lparr>defaultName := ssh_name name user host\<rparr> in
       (case GetStatus (objs m r) of
          StatusConnected \<Rightarrow> (Inr r, m1)
        | StatusConnecting \<Rightarrow> (map_sum id (\<lambda>_. r) (await r), m1)
        | StatusReconnecting \<Rightarrow> (map_sum id (\<lambda>_. r) (await r), m1)
        | _ \<Rightarrow> (case reconnectSSH N r (set_creds pw key r m1) of
                 (Some e, m2) \<Rightarrow> (Inl e, m2) | (None, m2) \<Rightarrow> (Inr r, m2))))"
  using reg
  by (auto simp: ConnectSSH_def ConnectSSH_lookup_def Let_def split: status.split sum.split)

lemma ConnectSSH_fresh:
  fixes now :: int and port :: int and pw :: string and key :: string
  assumes reg: "sessions m (ssh_name name user host) = None"
  defines "n \<equiv> ssh_name name user host"
  defines "m1 \<equiv> (snd (alloc (new_session now n user host port pw key) m))
                  \<lparr>sessions := (sessions m)(n \<mapsto> nextRef m), defaultName := n\<rparr>"
  shows "ConnectSSH N await now name user host port pw key m =
    (case connect N user host port \<lparr>auth_Password = pw, auth_KeyPath = key\<rparr> m1 of
       (Inl e, m2) \<Rightarrow> (Inl e, forget n (upd_obj (nextRef m) (SetStatus StatusOffline) m2))
     | (Inr c, m2) \<Rightarrow> connect_adopt N (nextRef m) c m2)"
  unfolding m1_def n_def using reg
  by (simp add: ConnectSSH_def ConnectSSH_lookup_def Let_def alloc_def new_session_def)

lemma ConnectSSH_fresh_fail:
  assumes I: "mgr_inv m" and reg: "sessions m (ssh_name name user host) = None"
    and C: "ConnectSSH N await now name user host port pw key m = (Inl e, m')"
  shows "mgr_inv m'" "sessions m' = sessions m" "netOpen m' = netOpen m" "defaultName m' = ''''"
    "\<And>r. r < nextRef m \<Longrightarrow> objs m' r = objs m r"
proof -
  define n where "n = ssh_name name user host"
  define s where "s = new_session now n user host port pw key"
  define m1 where "m1 = (snd (alloc s m))\<lparr>sessions := (sessions m)(n \<mapsto> nextRef m), defaultName := n\<rparr>"
  note new = reg[folded n_def]
  note O1 = own_alloc[OF mgr_own[OF I], of s n n, folded m1_def]
  have ms: "objs m1 r = (if r = nextRef m then s else objs m r)" "sessions m1 = (sessions m)(n \<mapsto> nextRef m)"
    "netOpen m1 = netOpen m" "defaultName m1 = n" for r by (auto simp: m1_def)
  note F = ConnectSSH_fresh[OF reg, of N await now port pw key, folded n_def, folded s_def, folded m1_def]
  obtain x m2 where x: "connect N user host port \<lparr>auth_Password = pw, auth_KeyPath = key\<rparr> m1 = (x, m2)" by fastforce
  note cs = connect_sel[of N user host port "\<lparr>auth_Password = pw, auth_KeyPath = key\<rparr>" m1, unfolded x snd_conv]
  have xe: "x = Inl e" using C F x cs ms by (cases x) (auto simp: connect_adopt_def s_def)
  then have m2: "m2 = m1\<lparr>dials := Suc (dials m1)\<rparr>" using connect_fail_state x by blast
  have m': "m' = forget n (upd_obj (nextRef m) (SetStatus StatusOffline) m2)"
    using C F x xe by simp
  have s: "sessions m' = sessions m" using new by (auto simp: m' forget_def m2 ms)
  have d: "defaultName m' = ''''" by (auto simp: m' forget_def m2 ms)
  have o: "objs m' r = (if r = nextRef m then SetStatus StatusOffline s else objs m r)" for r
    by (simp add: m' forget_def m2 ms)
  have "own_inv {} m2" using O1 by (simp add: m2 s_def)
  then have "own_inv {} (upd_obj (nextRef m) (SetStatus StatusOffline) m2)"
    by (rule own_status) (simp add: m2 ms s_def)
  then have O: "own_inv {} m'"
    unfolding m' forget_def by (rule own_registry) (auto split: if_splits)
  show "mgr_inv m'"
  proof (rule mgr_invI[OF O], goal_cases)
    case (2 r c) then show ?case using mgr_holder[OF I] by (auto simp: o s s_def split: if_splits)
  next
    case (3 n r) then show ?case using mgr_settled[OF I] mgr_fresh(1)[OF I] by (auto simp: o s)
  qed (simp add: d)
  show "sessions m' = sessions m" "netOpen m' = netOpen m" "defaultName m' = ''''" using s d
    by (simp_all add: m' forget_def m2 ms)
  show "objs m' r = objs m r" if "r < nextRef m" for r using that by (simp add: o)
qed

lemma ConnectSSH_fresh_ok:
  assumes I: "mgr_inv m" and reg: "sessions m (ssh_name name user host) = None"
    and C: "ConnectSSH N await now name user host port pw key m = (Inr r, m')"
  defines "n \<equiv> ssh_name name user host"
  shows "mgr_inv m'" "r = nextRef m" "sessions m' = (sessions m)(n \<mapsto> r)" "defaultName m' = n"
    "netOpen m' = insert (nextClient m) (netOpen m)" "GetSSHClient m' r = Some (nextClient m)"
    "same_target user host port (objs m' r)"
    "\<And>r'. r' \<noteq> r \<Longrightarrow> objs m' r' = objs m r'"
proof -
  define s where "s = new_session now n user host port pw key"
  define m1 where "m1 = (snd (alloc s m))\<lparr>sessions := (sessions m)(n \<mapsto> nextRef m), defaultName := n\<rparr>"
  note new = reg[folded n_def]
  note O1 = own_alloc[OF mgr_own[OF I], of s n n, folded m1_def]
  have ms: "objs m1 r = (if r = nextRef m then s else objs m r)" "sessions m1 = (sessions m)(n \<mapsto> nextRef m)"
    "netOpen m1 = netOpen m" "defaultName m1 = n" "nextClient m1 = nextClient m" "nextRef m1 = Suc (nextRef m)" for r
    by (auto simp: m1_def)
  note F = ConnectSSH_fresh[OF reg, of N await now port pw key, folded n_def, folded s_def, folded m1_def]
  obtain x m2 where x: "connect N user host port \<lparr>auth_Password = pw, auth_KeyPath = key\<rparr> m1 = (x, m2)" by fastforce
  note cs = connect_sel[of N user host port "\<lparr>auth_Password = pw, auth_KeyPath = key\<rparr>" m1, unfolded x snd_conv]
  obtain c where c: "x = Inr c" using C F x by (cases x) auto
  note cn = own_connect_new[OF x[unfolded c]]
  let ?f = "\<lambda>s. SetStatus StatusConnected (SetClient (Some c) s)"
  have m': "r = nextRef m" "m' = upd_obj (nextRef m) ?f m2"
    using C F x c cs ms by (auto simp: connect_adopt_def s_def)
  have "own_inv {} m1" using O1 by (simp add: s_def)
  then have "own_inv {c} m2" using own_connect(1)[OF _ x[unfolded c]] by simp
  then have "own_inv ({c} - {c}) m'"
    unfolding m' by (rule own_adopt) (use cs ms in \<open>auto simp: s_def\<close>)
  then have O: "own_inv {} m'" by simp
  have o: "objs m' r' = (if r' = nextRef m then ?f s else objs m r')" for r' by (simp add: m' cs ms)
  have st: "same_target u h p (SetStatus x (SetClient y s)) = same_target u h p s" for u h p x y s
    by (cases s) (auto simp: same_target_def)
  show "r = nextRef m" "sessions m' = (sessions m)(n \<mapsto> r)" "defaultName m' = n"
    "netOpen m' = insert (nextClient m) (netOpen m)"
    "same_target user host port (objs m' r)" "\<And>r'. r' \<noteq> r \<Longrightarrow> objs m' r' = objs m r'"
    using m' cs ms cn by (simp_all add: o st s_def)
  then show "mgr_inv m'"
    by (intro mgr_register[OF I new, of s, OF _ _ O]) (auto simp: o settled_def s_def)
  show "GetSSHClient m' r = Some (nextClient m)"
    using own_go[OF O, of c] cn ms by (simp add: GetSSHClient_def o m'(1) s_def) (simp add: m' cs ms)
qed

lemma ConnectSSH_ok:
  assumes I: "mgr_inv m" and C: "ConnectSSH N await now name user host port pw key m = (res, m')"
  shows "mgr_inv m'"
proof (cases "sessions m (ssh_name name user host)")
  case None
  then show ?thesis
    using ConnectSSH_fresh_fail(1)[OF I None] ConnectSSH_fresh_ok(1)[OF I None] C by (cases res) auto
next
  case (Some r)
  let ?n = "ssh_name name user host"
  let ?m1 = "m\<lparr>defaultName := ?n\<rparr>"
  have J: "mgr_inv ?m1" using mgr_set_default[OF I] Some by simp
  have "mgr_inv m2" if "reconnectSSH N r (set_creds pw key r ?m1) = (e, m2)"
      "same_target user host port (objs m r)" for m2 e
    by (rule reconnectSSH_ok(1)[OF mgr_set_creds[OF J] _ _ that(1), of ?n])
       (use Some same_target_ssh[OF that(2)] in auto)
  then show ?thesis
    using C I J unfolding ConnectSSH_existing[OF Some] Let_def
    by (auto split: if_splits status.splits prod.splits option.splits)
qed

text \<open>What the executor and the monitor do to a session: record the command, probe the client.\<close>

lemma SetLastCmd_ok: "mgr_inv m \<Longrightarrow> sessions m n = Some r \<Longrightarrow> mgr_inv (upd_obj r (SetLastCmd cmd) m)"
  by (rule mgr_same) auto

definition probe_client :: "cid \<Rightarrow> probe \<Rightarrow> manager \<Rightarrow> bool \<times> manager" where
  "probe_client c p m =
     (let (alive, cl, g) = IsAlive (clients m c) p;
          m1 = m\<lparr>clients := (clients m)(c := cl)\<rparr>
      in (alive, m1\<lparr>netOpen := netOpen m1 - set_option g\<rparr>))"

lemma probe_client_sel [simp]:
  "sessions (snd (probe_client c p m)) = sessions m" "objs (snd (probe_client c p m)) = objs m"
  "nextRef (snd (probe_client c p m)) = nextRef m" "nextClient (snd (probe_client c p m)) = nextClient m"
  "defaultName (snd (probe_client c p m)) = defaultName m"
  by (auto simp: probe_client_def split: prod.splits)

lemma own_probe:
  assumes O: "own_inv H m" and c: "c < nextClient m"
  shows "own_inv H (snd (probe_client c p m))"
proof -
  define m' where "m' = snd (probe_client c p m)"
  note s = probe_client_sel[of c p m, folded m'_def]
  have n: "netOpen m' \<subseteq> netOpen m \<and> netOpen m - {c} \<subseteq> netOpen m'
    \<and> (\<forall>k. GoClient (clients m' k) = (if k = c \<and> c \<notin> netOpen m' then None else GoClient (clients m k)))"
    using own_go[OF O c]
    by (auto simp: m'_def probe_client_def IsAlive_def Client_Close_def Let_def split: prod.splits if_splits probe.splits)
  show ?thesis unfolding m'_def[symmetric]
  proof (rule own_invI, goal_cases)
    case (5 k) then show ?case using own_go[OF O, of k] n s by auto
  next
    case (7 k) then show ?case using own_open[OF O, of k] n s by auto
  qed (use own_reg[OF O] own_holder[OF O] own_inj[OF O] own_flight[OF O] own_open_less[OF O] s n in auto)
qed

lemma probe_client_ok:
  assumes I: "mgr_inv m" and c: "c < nextClient m"
  shows "mgr_inv (snd (probe_client c p m))"
  using I own_probe[OF mgr_own[OF I] c, of p] by (simp add: mgr_inv_def)

section \<open>Reachable states\<close>

inductive mgr_step :: "net \<Rightarrow> manager \<Rightarrow> manager \<Rightarrow> bool" for N where
  step_ConnectSSH: "ConnectSSH N await now name user host port pw key m = (res, m') \<Longrightarrow> mgr_step N m m'"
| step_ConnectLocal: "ConnectLocal u now name m = (lres, m') \<Longrightarrow> mgr_step N m m'"
| step_Kill: "Kill N name m = (e, m') \<Longrightarrow> mgr_step N m m'"
| step_KillAll: "range_order (sessions m) ks \<Longrightarrow> mgr_step N m (KillAll N ks m)"
| step_Use: "Use N name pw key m = (e, m') \<Longrightarrow> mgr_step N m m'"
| step_Reconnect: "Reconnect N name m = (res, m') \<Longrightarrow> mgr_step N m m'"
| step_Register: "sessions m name = None \<Longrightarrow>
    mgr_step N m (RegisterOfflineSession name user host port key t m)"
| step_SetLastCmd: "Get name m = Inr r \<Longrightarrow> mgr_step N m (upd_obj r (SetLastCmd cmd) m)"
| step_probe: "GetClient (objs m r) = Some c \<Longrightarrow> mgr_step N m (snd (probe_client c p m))"

lemma mgr_step_inv: "mgr_step N m m' \<Longrightarrow> mgr_inv m \<Longrightarrow> mgr_inv m'"
proof (induction rule: mgr_step.induct)
  case (step_SetLastCmd name m r cmd)
  then show ?case
    using SetLastCmd_ok[of m "default_if_empty name m" r cmd] by (auto simp: Get_def split: option.splits)
next
  case (step_probe m r c p)
  then show ?case using probe_client_ok own_holder[OF mgr_own] by blast
qed (auto intro: ConnectSSH_ok ConnectLocal_ok Kill_ok KillAll_ok Use_ok Reconnect_ok RegisterOfflineSession_ok)

lemma mgr_inv_init: "mgr_inv NewManager"
  by (auto simp: mgr_inv_def own_inv_def NewManager_def)

interpretation mgr_machine: state_machine "\<lambda>m. m = NewManager" mgr_inv "mgr_step N" for N
  by unfold_locales (auto intro: mgr_inv_init mgr_step_inv)

lemmas mgr_reach_inv = mgr_machine.reach_inv[OF _ refl]

section \<open>Waiting\<close>

text \<open>The clock at the \<open>n\<close>-th poll, and what a waiting goroutine should return.\<close>

definition clock :: "(nat \<Rightarrow> nat) \<Rightarrow> nat \<Rightarrow> nat" where
  "clock over n = (\<Sum>i<n. 50 + over i)"

definition await_outcome :: "string \<Rightarrow> (nat \<Rightarrow> poll) \<Rightarrow> (nat \<Rightarrow> nat) \<Rightarrow> nat \<Rightarrow> nat \<Rightarrow> cid res \<Rightarrow> bool" where
  "await_outcome name obs over deadline n r \<longleftrightarrow>
     await_poll name (obs n) = Some r
     \<or> await_poll name (obs n) = None \<and> deadline < clock over n
       \<and> r = Inl (Errorf ''timed out waiting for session %q to connect'' [AStr name])"

lemma await_outcome_fun: "await_outcome name obs over d n r \<Longrightarrow> await_outcome name obs over d n r' \<Longrightarrow> r = r'"
  by (auto simp: await_outcome_def)

lemma await_loop_outcome:
  "t = clock over k \<Longrightarrow>
   \<exists>n\<ge>k. (\<forall>i. k \<le> i \<longrightarrow> i < n \<longrightarrow> await_poll name (obs i) = None \<and> clock over i \<le> d)
     \<and> await_outcome name obs over d n (await_loop name obs over d k t)"
proof (induction name obs over d k t rule: await_loop.induct)
  case (1 name obs over d k t)
  note t = \<open>t = clock over k\<close>
  let ?go = "await_loop name obs over d (Suc k) (clock over (Suc k))"
  have c: "clock over (Suc k) = clock over k + 50 + over k" by (simp add: clock_def)
  show ?case
  proof (cases "await_poll name (obs k) = None \<and> clock over k \<le> d")
    case True
    then have go: "await_loop name obs over d k t = ?go" unfolding t
      by (subst await_loop.simps) (simp add: c add.assoc)
    obtain n where n: "Suc k \<le> n" "\<forall>i. Suc k \<le> i \<longrightarrow> i < n \<longrightarrow> await_poll name (obs i) = None \<and> clock over i \<le> d"
      "await_outcome name obs over d n ?go"
      using "1.IH" True c t by auto
    moreover have "\<forall>i. k \<le> i \<longrightarrow> i < n \<longrightarrow> await_poll name (obs i) = None \<and> clock over i \<le> d"
      using n True by (metis le_antisym not_less_eq_eq)
    ultimately show ?thesis using go by (intro exI[of _ n]) auto
  next
    case False
    then have "await_outcome name obs over d k (await_loop name obs over d k t)" unfolding t
      by (subst await_loop.simps) (auto simp: await_outcome_def split: option.splits)
    then show ?thesis by (intro exI[of _ k]) auto
  qed
qed

text \<open>In a state that satisfies the invariant, an open connection has exactly one, registered, owner.\<close>

lemma mgr_inv_owner:
  assumes I: "mgr_inv m" and c: "c \<in> netOpen m"
  shows "\<exists>!r. GetClient (objs m r) = Some c \<and> GetSSHClient m r = Some c
         \<and> GetStatus (objs m r) = StatusConnected \<and> sessions m (GetName (objs m r)) = Some r"
proof -
  note O = mgr_own[OF I]
  obtain r where r: "GetClient (objs m r) = Some c" using own_open[OF O c] by auto
  then have reg: "sessions m (GetName (objs m r)) = Some r" by (rule mgr_holder[OF I])
  then have "GetStatus (objs m r) = StatusConnected" "GetSSHClient m r = Some c"
    using mgr_settled[OF I, of _ r] r own_go[OF O own_open_less[OF O c]] c
    by (auto simp: settled_def GetSSHClient_def)
  with r reg show ?thesis using own_inj[OF O] by (intro ex1I[of _ r]) auto
qed

section \<open>Properties\<close>


text \<open>A network for the examples: the first dial succeeds, the later ones are refused.\<close>

definition demo_net :: net where
  "demo_net = \<lparr>dial = (\<lambda>n u h p a. if n = 0 then None else Some (SysErr ECONNREFUSED)),
               close_err = (\<lambda>_. None)\<rparr>"

definition demo_up :: manager where
  "demo_up = snd (ConnectSSH demo_net (\<lambda>_. Inr 0) 7 '''' ''u'' ''h'' 22 ''pw'' '''' NewManager)"

lemma demo_up_step: "mgr_step demo_net NewManager demo_up"
  unfolding demo_up_def by (rule step_ConnectSSH) (rule prod.collapse[symmetric])

lemma demo_up_sel:
  "netOpen demo_up = {0}" "sessions demo_up = [''u@h'' \<mapsto> 0]" "defaultName demo_up = ''u@h''"
  "GetClient (objs demo_up 0) = Some 0" "GetStatus (objs demo_up 0) = StatusConnected"
  "same_target ''u'' ''h'' 22 (objs demo_up 0)"
  by (simp_all add: demo_up_def demo_net_def ConnectSSH_def ConnectSSH_lookup_def ssh_name_def
      NewManager_def alloc_def connect_def connect_adopt_def same_target_def Let_def)

lemma demo_up_inv: "mgr_inv demo_up"
  by (rule mgr_step_inv[OF demo_up_step mgr_inv_init])




text \<open>
  Killing a session closes exactly that session.  \<open>Kill\<close> of a registered name (the default for
  an empty name) unregisters it, marks it disconnected and closes its connection even when closing
  reports an error; every other session, connection and registration is untouched, and the default
  is cleared exactly when it was the killed session.  An unregistered name changes nothing.
\<close>

theorem Kill_effect:
  assumes "mgr_inv m" "Kill N name m = (e, m')"
  shows "case sessions m (default_if_empty name m) of
      None \<Rightarrow> m' = m \<and> e = Some (Errorf ''session not found'' [])
    | Some r \<Rightarrow> sessions m' = (sessions m)(default_if_empty name m := None)
        \<and> netOpen m' = netOpen m - set_option (GetClient (objs m r))
        \<and> GetStatus (objs m' r) = StatusDisconnected \<and> GetClient (objs m' r) = None
        \<and> (\<forall>r'. r' \<noteq> r \<longrightarrow> objs m' r' = objs m r')
        \<and> defaultName m' = (if defaultName m = default_if_empty name m then '''' else defaultName m)
        \<and> e = (case GetSSHClient m r of None \<Rightarrow> None | Some c \<Rightarrow> close_err N c)"
proof (cases "sessions m (default_if_empty name m)")
  case None
  then show ?thesis using assms by (simp add: Kill_def Let_def)
next
  case (Some r)
  let ?n = "default_if_empty name m"
  have F: "own_inv {} (forget ?n m)"
    unfolding forget_def by (rule own_registry[OF mgr_own[OF assms(1)]]) (auto split: if_splits)
  have m': "m' = snd (close_session N r (forget ?n m))" "e = fst (close_session N r (forget ?n m))"
    using assms(2) Some by (simp_all add: Kill_def Let_def)
  have "e = (case GetSSHClient m r of None \<Rightarrow> None | Some c \<Rightarrow> close_err N c)"
    unfolding m' by (simp add: close_session_eq close_client_def Client_Close_def forget_def GetSSHClient_def
        Let_def upd_obj_def split: option.split)
  then show ?thesis
    using Some own_close_session(2)[OF F, of N r] by (simp add: m'(1)) (simp add: forget_def)
qed

theorem Kill_effect_witness:
  "netOpen (snd (Kill demo_net '''' demo_up)) = {} \<and> sessions (snd (Kill demo_net '''' demo_up)) = Map.empty
   \<and> defaultName (snd (Kill demo_net '''' demo_up)) = ''''"
  using Kill_effect[OF demo_up_inv prod.collapse[symmetric], of demo_net "''''"]
  by (simp add: default_if_empty_def demo_up_sel)

text \<open>
  Shutdown closes everything.  After \<open>KillAll\<close>, whatever the order in which it visits the
  sessions, no session is registered, there is no default and no connection is open.
\<close>

theorem KillAll_closes_everything:
  assumes "mgr_inv m" "range_order (sessions m) ks"
  shows "sessions (KillAll N ks m) = Map.empty \<and> defaultName (KillAll N ks m) = ''''
    \<and> netOpen (KillAll N ks m) = {}"
  using KillAll_state[OF assms] by simp

theorem KillAll_closes_everything_witness:
  "netOpen demo_up = {0} \<and> netOpen (KillAll demo_net [''u@h''] demo_up) = {}"
  using KillAll_closes_everything[OF demo_up_inv, of "[''u@h'']" demo_net]
  by (simp add: demo_up_sel range_order_def)

text \<open>
  Background reconnection is confined to its session.  \<open>Reconnect\<close>, whatever the dial does,
  changes neither the registry nor the default nor any other session; the old connection is
  always closed, and a new one is open exactly when it reports success, as the client of the
  session it returns.
\<close>

theorem Reconnect_effect:
  assumes "mgr_inv m" "Reconnect N name m = (res, m')" "sessions m name = Some r"
    "\<not> IsLocalSession (objs m r)"
  shows "sessions m' = sessions m \<and> defaultName m' = defaultName m
    \<and> (\<forall>r'. r' \<noteq> r \<longrightarrow> objs m' r' = objs m r') \<and> dials m' = Suc (dials m)
    \<and> (case res of
         Inr r' \<Rightarrow> r' = r \<and> GetStatus (objs m' r) = StatusConnected \<and> GetClient (objs m' r) = Some (nextClient m)
           \<and> netOpen m' = insert (nextClient m) (netOpen m - set_option (GetClient (objs m r)))
       | Inl e \<Rightarrow> GetStatus (objs m' r) = StatusOffline \<and> GetClient (objs m' r) = None
           \<and> netOpen m' = netOpen m - set_option (GetClient (objs m r)))"
proof -
  obtain e m1 where R: "reconnectSSH N r m = (e, m1)" by fastforce
  then have "m' = m1" "res = (case e of None \<Rightarrow> Inr r | Some x \<Rightarrow> Inl x)"
    using assms by (auto simp: Reconnect_def split: option.splits)
  then show ?thesis
    using reconnectSSH_ok(2,3,5-9)[OF assms(1,3,4) R] by (cases e) simp_all
qed

theorem Reconnect_effect_witness:
  "netOpen (snd (Reconnect demo_net ''u@h'' demo_up)) = {}
   \<and> GetStatus (objs (snd (Reconnect demo_net ''u@h'' demo_up)) 0) = StatusOffline
   \<and> sessions (snd (Reconnect demo_net ''u@h'' demo_up)) = [''u@h'' \<mapsto> 0]"
proof -
  have d: "dials demo_up = 1"
    by (simp add: demo_up_def demo_net_def ConnectSSH_def ConnectSSH_lookup_def ssh_name_def
      NewManager_def alloc_def connect_def connect_adopt_def Let_def)
  have ssh: "\<not> IsLocalSession (objs demo_up 0)" by (rule same_target_ssh[OF demo_up_sel(6)])
  have reg: "sessions demo_up ''u@h'' = Some 0" by (simp add: demo_up_sel)
  have "fst (Reconnect demo_net ''u@h'' demo_up) = Inl (SysErr ECONNREFUSED)"
    using ssh reg by (simp add: Reconnect_def reconnectSSH_unfold reconnect_dial_def connect_def d demo_net_def Let_def)
  then show ?thesis
    using Reconnect_effect[OF demo_up_inv prod.collapse[symmetric] reg ssh, of demo_net]
    by (simp add: demo_up_sel)
qed



end
