(* ===== verification/Session_Races.thy ===== *)
theory Session_Races
  imports Session_Manager
begin

text \<open>
  Concurrent use of the session manager.  The daemon runs every request, the restore goroutines
  and the monitor in parallel; the manager protects its maps with \<open>m.mu\<close>, each session's fields
  with \<open>sess.mu\<close> and each session's reconnection with \<open>sess.reconnMu\<close>, and dials outside the first
  two.  A goroutine is a program counter \<open>pc\<close> between two critical sections of
  \<open>internal/session/session.go\<close>; \<open>advance\<close> runs its next section on the shared state, and is \<open>None\<close>
  when the goroutine is blocked on \<open>reconnMu\<close>.  \<open>race_step\<close> interleaves any number of goroutines.
\<close>

section \<open>Goroutines\<close>

text \<open>\<open>locked\<close>: sessions whose \<open>reconnMu\<close> is held.  \<open>orphaned\<close> is a ghost field: the sessions
  unregistered by the error path of a first dial, which deletes by name.\<close>

record shared =
  wm :: manager
  locked :: "ref set"
  orphaned :: "ref set"

datatype pc =
    Idle
  | PConnect int string string string int string string
  | PDial ref string string string int string string
  | PDialFailed ref string
  | PForget ref string
  | PAdopt ref cid
  | PClose cid
  | PCreds ref string string
  | PReconnect ref
  | PRecBegin ref
  | PRecDetach ref
  | PRecClose ref cid
  | PRecDial ref
  | PRecFailed ref
  | PRecCheck ref cid
  | PRecAdopt ref cid
  | PRecDrop ref cid
  | PUnlock ref
  | PLocal "string res" int string
  | PKill string
  | PKillAll "string list"
  | PKillClose "ref list"
  | PKillDrop cid "ref list"
  | PUse string string string
  | PUseSet ref string string string
  | PUseStatus ref string string
  | PReconnectName string
  | PProbe ref probe

text \<open>A goroutine that runs to completion without a dial in between.\<close>

definition with_wm :: "shared \<Rightarrow> manager \<Rightarrow> shared" where
  "with_wm s m = s\<lparr>wm := m\<rparr>"

definition after_lookup :: "string \<Rightarrow> string \<Rightarrow> string \<Rightarrow> int \<Rightarrow> string \<Rightarrow> string \<Rightarrow> connect_next \<Rightarrow> pc" where
  "after_lookup name user host port pw key nx =
     (case nx of
        CReturn res \<Rightarrow> Idle
      | CAwait r \<Rightarrow> Idle
      | CReconnect r \<Rightarrow> PCreds r pw key
      | CDial r \<Rightarrow> PDial r name user host port pw key)"

fun advance :: "net \<Rightarrow> pc \<Rightarrow> shared \<Rightarrow> (pc \<times> shared) option" where
  "advance N Idle s = None"
| "advance N (PConnect now name user host port pw key) s =
     (let n = ssh_name name user host;
          (nx, m1) = ConnectSSH_lookup now n user host port pw key (wm s)
      in Some (after_lookup n user host port pw key nx, with_wm s m1))"
| "advance N (PDial r name user host port pw key) s =
     (case connect N user host port \<lparr>auth_Password = pw, auth_KeyPath = key\<rparr> (wm s) of
        (Inl e, m1) \<Rightarrow> Some (PDialFailed r name, with_wm s m1)
      | (Inr c, m1) \<Rightarrow> Some (PAdopt r c, with_wm s m1))"
| "advance N (PDialFailed r name) s =
     Some (PForget r name, with_wm s (upd_obj r (SetStatus StatusOffline) (wm s)))"
| "advance N (PForget r name) s =
     Some (Idle, s\<lparr>wm := forget name (wm s),
                   orphaned := orphaned s \<union> set_option (sessions (wm s) name)\<rparr>)"
| "advance N (PAdopt r c) s =
     (if GetStatus (objs (wm s) r) \<noteq> StatusConnecting then Some (PClose c, s)
      else Some (Idle, with_wm s (snd (connect_adopt N r c (wm s)))))"
| "advance N (PClose c) s = Some (Idle, with_wm s (snd (close_client N c (wm s))))"
| "advance N (PCreds r pw key) s = Some (PReconnect r, with_wm s (set_creds pw key r (wm s)))"
| "advance N (PReconnect r) s =
     (if r \<in> locked s then None else Some (PRecBegin r, s\<lparr>locked := insert r (locked s)\<rparr>))"
| "advance N (PRecBegin r) s = Some (PRecDetach r, with_wm s (reconnect_begin r (wm s)))"
| "advance N (PRecDetach r) s =
     (case reconnect_detach r (wm s) of
        (None, m1) \<Rightarrow> Some (PRecDial r, with_wm s m1)
      | (Some c, m1) \<Rightarrow> Some (PRecClose r c, with_wm s m1))"
| "advance N (PRecClose r c) s = Some (PRecDial r, with_wm s (snd (close_client N c (wm s))))"
| "advance N (PRecDial r) s =
     (case reconnect_dial N r (wm s) of
        (Inl e, m1) \<Rightarrow> Some (PRecFailed r, with_wm s m1)
      | (Inr c, m1) \<Rightarrow> Some (PRecCheck r c, with_wm s m1))"
| "advance N (PRecFailed r) s = Some (PUnlock r, with_wm s (upd_obj r (SetStatus StatusOffline) (wm s)))"
| "advance N (PRecCheck r c) s =
     Some (if still_registered r (wm s) then PRecAdopt r c else PRecDrop r c, s)"
| "advance N (PRecAdopt r c) s =
     (if GetStatus (objs (wm s) r) \<noteq> StatusReconnecting then Some (PRecDrop r c, s)
      else Some (PUnlock r, with_wm s (snd (reconnect_adopt N r c (wm s)))))"
| "advance N (PRecDrop r c) s = Some (PUnlock r, with_wm s (snd (close_client N c (wm s))))"
| "advance N (PUnlock r) s = Some (Idle, s\<lparr>locked := locked s - {r}\<rparr>)"
| "advance N (PLocal u now name) s = Some (Idle, with_wm s (snd (ConnectLocal u now name (wm s))))"
| "advance N (PKill name) s =
     (case sessions (wm s) name of
        None \<Rightarrow> Some (Idle, s)
      | Some r \<Rightarrow> Some (PKillClose [r], with_wm s (forget name (wm s))))"
| "advance N (PKillAll ks) s =
     (if range_order (sessions (wm s)) ks
      then Some (PKillClose (List ks (wm s)), with_wm s ((wm s)\<lparr>sessions := Map.empty, defaultName := ''''\<rparr>))
      else None)"
| "advance N (PKillClose []) s = Some (Idle, s)"
| "advance N (PKillClose (r # rs)) s =
     (let m1 = upd_obj r (\<lambda>x. SetStatus StatusDisconnected (SetClient None x)) (wm s)
      in case GetClient (objs (wm s) r) of
           None \<Rightarrow> Some (PKillClose rs, with_wm s m1)
         | Some c \<Rightarrow> Some (PKillDrop c rs, with_wm s m1))"
| "advance N (PKillDrop c rs) s = Some (PKillClose rs, with_wm s (snd (close_client N c (wm s))))"
| "advance N (PUse name pw key) s =
     (case sessions (wm s) name of None \<Rightarrow> Some (Idle, s) | Some r \<Rightarrow> Some (PUseSet r name pw key, s))"
| "advance N (PUseSet r name pw key) s =
     Some (if IsLocalSession (objs (wm s) r) then Idle else PUseStatus r pw key,
           with_wm s ((wm s)\<lparr>defaultName := name\<rparr>))"
| "advance N (PUseStatus r pw key) s =
     Some (if GetStatus (objs (wm s) r) \<in> {StatusOffline, StatusDisconnected} then PCreds r pw key else Idle, s)"
| "advance N (PReconnectName name) s =
     (case sessions (wm s) name of
        None \<Rightarrow> Some (Idle, s)
      | Some r \<Rightarrow> Some (if IsLocalSession (objs (wm s) r) then Idle else PReconnect r, s))"
| "advance N (PProbe r p) s =
     Some (Idle, case GetClient (objs (wm s) r) of
                   None \<Rightarrow> s | Some c \<Rightarrow> with_wm s (snd (probe_client c p (wm s))))"

text \<open>The program counters a new goroutine may start from.\<close>

fun request :: "pc \<Rightarrow> bool" where
  "request (PConnect now name user host port pw key) = True"
| "request (PLocal u now name) = True"
| "request (PKill name) = True"
| "request (PKillAll ks) = True"
| "request (PUse name pw key) = True"
| "request (PReconnectName name) = True"
| "request (PProbe r p) = True"
| "request _ = False"

record world =
  sh :: shared
  thr :: "nat \<Rightarrow> pc"

inductive race_step :: "net \<Rightarrow> world \<Rightarrow> world \<Rightarrow> bool" for N where
  spawn: "thr w t = Idle \<Longrightarrow> request p \<Longrightarrow> race_step N w (w\<lparr>thr := (thr w)(t := p)\<rparr>)"
| run: "advance N (thr w t) (sh w) = Some (p, s) \<Longrightarrow>
        race_step N w (w\<lparr>sh := s, thr := (thr w)(t := p)\<rparr>)"

definition race_init :: world where
  "race_init = \<lparr>sh = \<lparr>wm = NewManager, locked = {}, orphaned = {}\<rparr>, thr = (\<lambda>_. Idle)\<rparr>"

section \<open>The invariant\<close>

text \<open>The connection a goroutine holds, the \<open>reconnMu\<close> it holds, the sessions it refers to, the
  sessions it is about to close.\<close>

fun held :: "pc \<Rightarrow> cid set" where
  "held (PAdopt r c) = {c}"
| "held (PClose c) = {c}"
| "held (PRecClose r c) = {c}"
| "held (PRecCheck r c) = {c}"
| "held (PRecAdopt r c) = {c}"
| "held (PRecDrop r c) = {c}"
| "held (PKillDrop c rs) = {c}"
| "held _ = {}"

fun lockof :: "pc \<Rightarrow> ref option" where
  "lockof (PRecBegin r) = Some r"
| "lockof (PRecDetach r) = Some r"
| "lockof (PRecClose r c) = Some r"
| "lockof (PRecDial r) = Some r"
| "lockof (PRecFailed r) = Some r"
| "lockof (PRecCheck r c) = Some r"
| "lockof (PRecAdopt r c) = Some r"
| "lockof (PRecDrop r c) = Some r"
| "lockof (PUnlock r) = Some r"
| "lockof _ = None"

text \<open>Past \<open>SetStatus(StatusReconnecting)\<close>, and past detaching the old client, until adoption.\<close>

definition begun :: "pc \<Rightarrow> ref option" where
  "begun p = (case p of PRecBegin r \<Rightarrow> None | PUnlock r \<Rightarrow> None | _ \<Rightarrow> lockof p)"

definition emptied :: "pc \<Rightarrow> ref option" where
  "emptied p = (case p of PRecDetach r \<Rightarrow> None | _ \<Rightarrow> begun p)"

fun sshref :: "pc \<Rightarrow> ref option" where
  "sshref (PDial r n u h p pw k) = Some r"
| "sshref (PDialFailed r n) = Some r"
| "sshref (PForget r n) = Some r"
| "sshref (PAdopt r c) = Some r"
| "sshref (PCreds r pw k) = Some r"
| "sshref (PReconnect r) = Some r"
| "sshref (PUseStatus r pw k) = Some r"
| "sshref p = lockof p"

fun killing :: "pc \<Rightarrow> ref set" where
  "killing (PKillClose rs) = set rs"
| "killing (PKillDrop c rs) = set rs"
| "killing _ = {}"

definition live :: "shared \<Rightarrow> (nat \<Rightarrow> pc) \<Rightarrow> ref \<Rightarrow> bool" where
  "live s T r \<longleftrightarrow> sessions (wm s) (GetName (objs (wm s) r)) = Some r \<or> r \<in> orphaned s
     \<or> (\<exists>t. r \<in> killing (T t))"

text \<open>What a goroutine knows about its own session.\<close>

definition tinv :: "manager \<Rightarrow> pc \<Rightarrow> bool" where
  "tinv m p \<longleftrightarrow>
     (\<forall>r. sshref p = Some r \<longrightarrow> r < nextRef m \<and> \<not> IsLocalSession (objs m r))
     \<and> (\<forall>r. begun p = Some r \<longrightarrow> GetStatus (objs m r) \<noteq> StatusConnecting)
     \<and> (\<forall>r. emptied p = Some r \<longrightarrow> GetClient (objs m r) = None)
     \<and> (\<forall>r n pw key. p = PUseSet r n pw key \<longrightarrow> r < nextRef m)"

text \<open>What one section may do to the sessions of the others, \<open>lk\<close> being the \<open>reconnMu\<close> it holds.\<close>

definition rely :: "ref option \<Rightarrow> manager \<Rightarrow> manager \<Rightarrow> bool" where
  "rely lk m m' \<longleftrightarrow> nextRef m \<le> nextRef m' \<and>
     (\<forall>r<nextRef m.
        IsLocalSession (objs m' r) = IsLocalSession (objs m r) \<and> GetName (objs m' r) = GetName (objs m r)
        \<and> (GetStatus (objs m r) \<noteq> StatusConnecting \<longrightarrow> GetStatus (objs m' r) \<noteq> StatusConnecting)
        \<and> (GetClient (objs m r) = None \<longrightarrow> GetStatus (objs m r) \<noteq> StatusConnecting \<longrightarrow> lk \<noteq> Some r
             \<longrightarrow> GetClient (objs m' r) = None)
        \<and> (GetStatus (objs m r) \<noteq> StatusReconnecting \<longrightarrow> lk \<noteq> Some r
             \<longrightarrow> GetStatus (objs m' r) \<noteq> StatusReconnecting))"

lemma rely_refl [simp]: "rely lk m m"
  by (simp add: rely_def)

lemma rely_upd:
  assumes "\<And>s. IsLocalSession (f s) = IsLocalSession s" "\<And>s. GetName (f s) = GetName s"
    "GetStatus (f (objs m r)) \<noteq> StatusConnecting \<or> GetStatus (f (objs m r)) = GetStatus (objs m r)"
    "GetClient (f (objs m r)) = None \<or> GetClient (f (objs m r)) = GetClient (objs m r)
       \<or> GetStatus (objs m r) = StatusConnecting \<or> lk = Some r"
    "GetStatus (f (objs m r)) \<noteq> StatusReconnecting \<or> GetStatus (f (objs m r)) = GetStatus (objs m r) \<or> lk = Some r"
  shows "rely lk m (upd_obj r f m)"
  using assms by (auto simp: rely_def)

lemma rely_same_objs: "nextRef m \<le> nextRef m' \<Longrightarrow> (\<And>r. r < nextRef m \<Longrightarrow> objs m' r = objs m r) \<Longrightarrow> rely lk m m'"
  by (auto simp: rely_def)

lemma rely_eq_objs [simp]: "objs m' = objs m \<Longrightarrow> nextRef m' = nextRef m \<Longrightarrow> rely lk m m'"
  by (auto simp: rely_def)

lemma rely_tinv:
  assumes "tinv m q" "rely lk m m'" "\<And>r. lockof q = Some r \<Longrightarrow> lk \<noteq> Some r"
  shows "tinv m' q"
proof -
  have s: "sshref q = Some r \<Longrightarrow> r < nextRef m" for r using assms(1) by (simp add: tinv_def)
  have b: "sshref q = lockof q \<and> lockof q = Some r" if "begun q = Some r" for r
    using that by (cases q) (auto simp: begun_def)
  have e: "begun q = Some r" if "emptied q = Some r" for r
    using that by (cases q) (auto simp: emptied_def)
  show ?thesis unfolding tinv_def
  proof (intro conjI allI impI)
    fix r assume q: "sshref q = Some r"
    show "r < nextRef m'" "\<not> IsLocalSession (objs m' r)"
      using assms(1,2) q unfolding tinv_def rely_def by auto
  next
    fix r assume q: "begun q = Some r"
    show "GetStatus (objs m' r) \<noteq> StatusConnecting"
      using assms(1,2) q b[OF q] s unfolding tinv_def rely_def by auto
  next
    fix r assume q: "emptied q = Some r"
    show "GetClient (objs m' r) = None"
      using assms q e[OF q] b[OF e[OF q]] s unfolding tinv_def rely_def by auto
  next
    fix r n pw key assume "q = PUseSet r n pw key"
    then show "r < nextRef m'" using assms(1,2) unfolding tinv_def rely_def by fastforce
  qed
qed

text \<open>The lookup section of \<open>ConnectSSH\<close>.\<close>

lemma lookup_cases:
  assumes "ConnectSSH_lookup now n user host port pw key m = (nx, m1)"
  obtains (old) d where "m1 = m\<lparr>defaultName := d\<rparr>" "\<And>r. nx \<noteq> CDial r"
      "\<And>r. nx = CReconnect r \<Longrightarrow> sessions m n = Some r \<and> \<not> IsLocalSession (objs m r)"
  | (fresh) "sessions m n = None" "nx = CDial (nextRef m)"
      "m1 = (snd (alloc (new_session now n user host port pw key) m))
              \<lparr>sessions := (sessions m)(n \<mapsto> nextRef m), defaultName := n\<rparr>"
proof (cases "sessions m n")
  case None
  then show thesis using assms by (intro fresh) (auto simp: ConnectSSH_lookup_def Let_def alloc_def new_session_def)
next
  case (Some r)
  show thesis
  proof (rule old)
    show "m1 = m\<lparr>defaultName := (if same_target user host port (objs m r) then n else defaultName m)\<rparr>"
      using assms Some by (auto simp: ConnectSSH_lookup_def Let_def split: if_splits status.splits)
    show "nx \<noteq> CDial r'" for r'
      using assms Some by (auto simp: ConnectSSH_lookup_def Let_def split: if_splits status.splits)
    show "sessions m n = Some r' \<and> \<not> IsLocalSession (objs m r')" if "nx = CReconnect r'" for r'
      using assms Some that same_target_ssh
      by (auto simp: ConnectSSH_lookup_def Let_def split: if_splits status.splits)
  qed
qed

lemma ConnectLocal_cases:
  obtains (old) d where "snd (ConnectLocal u now name m) = m\<lparr>defaultName := d\<rparr>"
  | (fresh) n s where "sessions m n = None" "IsLocalSession s" "GetName s = n" "GetStatus s = StatusConnected"
      "snd (ConnectLocal u now name m) =
         (snd (alloc s m))\<lparr>sessions := (sessions m)(n \<mapsto> nextRef m), defaultName := n\<rparr>"
proof -
  define n where "n = (if name = '''' then ''local'' else name)"
  show thesis
  proof (cases "sessions m n")
    case None
    then show thesis
      by (intro fresh[of n "Local \<lparr>l_Name = n, l_Host = ''local'', l_User = osUser u,
                 l_Status = StatusConnected, l_CreatedAt = now, l_LastCmd = ''''\<rparr>"])
         (auto simp: ConnectLocal_def Let_def alloc_def n_def)
  next
    case (Some r)
    then show thesis
      by (intro old[of "if IsLocalSession (objs m r) then n else defaultName m"])
         (auto simp: ConnectLocal_def Let_def n_def)
  qed
qed

lemma connect_objs:
  assumes "connect N u h p a m = (x, m')"
  shows "objs m' = objs m" "sessions m' = sessions m" "nextRef m' = nextRef m"
  using connect_sel[of N u h p a m] assms by auto

lemma reconnect_dial_objs:
  assumes "reconnect_dial N r m = (x, m')"
  shows "objs m' = objs m" "sessions m' = sessions m" "nextRef m' = nextRef m"
  using assms connect_objs by (auto simp: reconnect_dial_def Let_def)

lemma rely_connect:
  "connect N u h p a m = (x, m') \<Longrightarrow> rely lk m m'"
  "reconnect_dial N r m = (x, m') \<Longrightarrow> rely lk m m'"
  by (simp_all add: connect_objs reconnect_dial_objs)

lemma with_wm_sel [simp]: "wm (with_wm s m) = m" "locked (with_wm s m) = locked s" "orphaned (with_wm s m) = orphaned s"
  by (simp_all add: with_wm_def)

lemma forget_sel [simp]:
  "objs (forget n m) = objs m" "nextRef (forget n m) = nextRef m" "nextClient (forget n m) = nextClient m"
  "netOpen (forget n m) = netOpen m" "sessions (forget n m) = (sessions m)(n := None)"
  by (simp_all add: forget_def)

lemma set_creds_rely: "rely lk m (set_creds pw key r m)"
  by (auto simp: rely_def)

lemma advance_rely:
  assumes "advance N p s = Some (p', s')" "tinv (wm s) p"
  shows "rely (lockof p) (wm s) (wm s')"
proof (cases p)
  case (PConnect now name user host port pw key)
  obtain nx m1 where l: "ConnectSSH_lookup now (ssh_name name user host) user host port pw key (wm s) = (nx, m1)"
    by fastforce
  then have "wm s' = m1" using assms PConnect by (auto simp: Let_def)
  then show ?thesis by (cases rule: lookup_cases[OF l]) (auto intro!: rely_same_objs)
next
  case (PLocal u now name)
  then show ?thesis
    using assms by (cases rule: ConnectLocal_cases[of u now name "wm s"]) (auto intro!: rely_same_objs)
next
  case (PKillClose rs)
  then show ?thesis using assms
    by (cases rs) (auto simp: Let_def split: option.splits intro!: rely_upd)
qed (use assms in \<open>auto simp: reconnect_begin_def reconnect_detach_def connect_adopt_def reconnect_adopt_def
      intro!: rely_upd set_creds_rely intro: rely_connect
      split: prod.splits sum.splits option.splits if_splits\<close>)

text \<open>Ownership: what \<open>p\<close> held is handed on to its next state, to a session, or closed.\<close>

lemma own_sub: "own_inv (insert c H) m \<Longrightarrow> c \<notin> H \<Longrightarrow> own_inv H (snd (close_client N c m))"
  using own_close[of "insert c H" m c N] own_flight[of "insert c H" m c] by simp

lemma own_give:
  "own_inv (insert c H) m \<Longrightarrow> c \<notin> H \<Longrightarrow> GetClient (objs m r) = None \<Longrightarrow> r < nextRef m \<Longrightarrow>
   \<not> IsLocalSession (objs m r) \<Longrightarrow>
   own_inv H (upd_obj r (\<lambda>s. SetStatus StatusConnected (SetClient (Some c) s)) m)"
  using own_adopt[of "insert c H" m c r] by simp

lemma own_take:
  assumes "own_inv H m" "\<And>s. GetName (f s) = GetName s" "\<And>s. GetClient (f s) = None"
  shows "GetClient (objs m r) = None \<Longrightarrow> own_inv H (upd_obj r f m)"
    and "GetClient (objs m r) = Some c \<Longrightarrow> own_inv (insert c H) (upd_obj r f m) \<and> c \<notin> H"
  using own_detach[OF assms, of r] own_holder[OF assms(1), of r c] by auto

lemma own_set_creds: "own_inv H m \<Longrightarrow> own_inv H (set_creds pw key r m)"
  by (auto simp: set_creds_def Let_def intro!: own_same)

lemma own_dial:
  assumes "own_inv H m" "connect N u h p a m = (x, m')"
  shows "case x of Inl e \<Rightarrow> own_inv H m' | Inr c \<Rightarrow> own_inv (insert c H) m' \<and> c \<notin> H"
  using own_connect_fail[OF assms(1)] own_connect[OF assms(1)] assms(2) by (auto split: sum.splits)

lemma own_re_dial:
  assumes "own_inv H m" "reconnect_dial N r m = (x, m')"
  shows "case x of Inl e \<Rightarrow> own_inv H m' | Inr c \<Rightarrow> own_inv (insert c H) m' \<and> c \<notin> H"
  using own_dial[OF assms(1)] assms(2) by (simp add: reconnect_dial_def Let_def)

lemma not_connecting_client: "own_inv H m \<Longrightarrow> GetStatus (objs m r) = StatusConnecting \<Longrightarrow> GetClient (objs m r) = None"
  using own_holder[of H m r] by (cases "GetClient (objs m r)") auto

lemma own_forget: "own_inv H m \<Longrightarrow> own_inv H (forget n m)"
  unfolding forget_def by (rule own_registry) (auto split: if_splits)

lemma advance_own_connect:
  assumes A: "advance N (PConnect now name user host port pw key) s = Some (p', s')" and O': "own_inv H (wm s)"
  shows "own_inv H (wm s') \<and> held p' = {}"
proof -
  obtain nx m1 where l: "ConnectSSH_lookup now (ssh_name name user host) user host port pw key (wm s) = (nx, m1)"
    by fastforce
  have m1: "wm s' = m1" "held p' = {}"
    using A l by (auto simp: Let_def after_lookup_def split: connect_next.splits)
  from l show ?thesis
  proof (cases rule: lookup_cases)
    case (old d)
    then show ?thesis using m1 own_default[OF O'] by simp
  next
    case fresh
    then show ?thesis
      using m1 own_alloc[OF O', of "new_session now (ssh_name name user host) user host port pw key"
          "ssh_name name user host" "ssh_name name user host"] by simp
  qed
qed

lemma advance_own_local:
  assumes A: "advance N (PLocal u now name) s = Some (p', s')" and O': "own_inv H (wm s)"
  shows "own_inv H (wm s') \<and> held p' = {}"
proof -
  have m: "wm s' = snd (ConnectLocal u now name (wm s))" "p' = Idle"
    using A by auto
  show ?thesis
  proof (cases rule: ConnectLocal_cases[of u now name "wm s"])
    case (old d)
    then show ?thesis using m own_default[OF O'] by simp
  next
    case (fresh n x)
    then show ?thesis using m own_alloc[OF O', of x n n] GetClient_local by simp
  qed
qed

lemma advance_own:
  assumes A: "advance N p s = Some (p', s')" and T: "tinv (wm s) p"
    and O: "own_inv (held p \<union> H) (wm s)" and D: "held p \<inter> H = {}"
  shows "own_inv (held p' \<union> H) (wm s') \<and> held p' \<inter> H = {}"
proof (cases p)
  case (PConnect now name user host port pw key)
  then show ?thesis using advance_own_connect[of N now name user host port pw key s p' s' H] A O by simp
next
  case (PLocal u now name)
  then show ?thesis using advance_own_local[of N u now name s p' s' H] A O by simp
next
  case (PKillClose rs)
  show ?thesis
  proof (cases rs)
    case Nil
    then show ?thesis using PKillClose A O by auto
  next
    case (Cons r rs')
    let ?f = "\<lambda>x. SetStatus StatusDisconnected (SetClient None x)"
    have O': "own_inv H (wm s)" using O PKillClose by simp
    show ?thesis
      using own_take[OF O', of ?f r] PKillClose Cons A
      by (auto simp: Let_def split: option.splits)
  qed
next
  case (PKillAll ks)
  then show ?thesis using A O own_registry[of H "wm s" Map.empty "''''"] by (auto split: if_splits)
next
  case (PRecDetach r)
  then show ?thesis using A O own_take[of H "wm s" "SetClient None" r]
    by (auto simp: reconnect_detach_def split: option.splits)
next
  case (PProbe r q)
  then have "own_inv H (wm s)" using O by simp
  then show ?thesis using A PProbe own_probe own_holder[of H "wm s" r]
    by (auto split: option.splits)
next
  case (PDial r n u h po pw k)
  then have O': "own_inv H (wm s)" using O by simp
  show ?thesis using A PDial own_dial[OF O'] by (fastforce split: prod.splits sum.splits)
next
  case (PRecDial r)
  then have O': "own_inv H (wm s)" using O by simp
  show ?thesis using A PRecDial own_re_dial[OF O'] by (fastforce split: prod.splits sum.splits)
next
  case (PAdopt r c)
  then show ?thesis
    using A O D T own_give[of c H "wm s" r] not_connecting_client[OF O, of r]
    by (auto simp: connect_adopt_def tinv_def split: if_splits)
next
  case (PRecAdopt r c)
  then show ?thesis
    using A O D T own_give[of c H "wm s" r]
    by (auto simp: reconnect_adopt_def tinv_def emptied_def begun_def split: if_splits)
qed (use A O D T in \<open>auto simp: reconnect_begin_def tinv_def emptied_def begun_def
      intro!: own_default own_status own_sub own_set_creds own_forget split: option.splits if_splits\<close>)

lemma advance_tinv:
  assumes A: "advance N p s = Some (p', s')" and T: "tinv (wm s) p" and O: "own_inv H (wm s)"
  shows "tinv (wm s') p'"
proof (cases p)
  case (PConnect now name user host port pw key)
  obtain nx m1 where l: "ConnectSSH_lookup now (ssh_name name user host) user host port pw key (wm s) = (nx, m1)"
    by fastforce
  then have m1: "wm s' = m1" "p' = after_lookup (ssh_name name user host) user host port pw key nx"
    using A PConnect by (auto simp: Let_def)
  show ?thesis
    using own_reg[OF O] by (cases rule: lookup_cases[OF l])
      (auto simp: m1 tinv_def after_lookup_def begun_def emptied_def split: connect_next.splits)
next
  case (PKillClose rs)
  then show ?thesis using A by (cases rs) (auto simp: Let_def tinv_def begun_def emptied_def split: option.splits)
next
  case (PRecDetach r)
  then show ?thesis using A T
    by (auto simp: reconnect_detach_def tinv_def begun_def emptied_def split: option.splits)
qed (use A T own_reg[OF O] in \<open>auto simp: tinv_def begun_def emptied_def reconnect_begin_def reconnect_adopt_def
       split: prod.splits sum.splits option.splits if_splits dest: connect_objs reconnect_dial_objs\<close>)

lemma advance_lock:
  assumes "advance N p s = Some (p', s')"
  shows "(lockof p' = lockof p \<and> locked s' = locked s)
    \<or> (\<exists>r. lockof p = None \<and> lockof p' = Some r \<and> r \<notin> locked s \<and> locked s' = insert r (locked s))
    \<or> (\<exists>r. lockof p = Some r \<and> lockof p' = None \<and> locked s' = locked s - {r})"
proof (cases p)
  case (PKillClose rs)
  then show ?thesis using assms by (cases rs) (auto simp: Let_def split: option.splits)
qed (use assms in \<open>auto simp: after_lookup_def Let_def split: connect_next.splits prod.splits sum.splits option.splits if_splits\<close>)

text \<open>The registry: a name is bound only when it is free, and unbound only by the error path of a
  first dial and by kills, which then close what they unbound.\<close>

lemma advance_sessions:
  assumes "advance N p s = Some (p', s')" "sessions (wm s) n = Some r"
  shows "sessions (wm s') n = Some r \<or> r \<in> orphaned s' \<or> r \<in> killing p'"
proof (cases p)
  case (PConnect now name user host port pw key)
  obtain nx m1 where l: "ConnectSSH_lookup now (ssh_name name user host) user host port pw key (wm s) = (nx, m1)"
    by fastforce
  then have "wm s' = m1" using assms PConnect by (auto simp: Let_def)
  then show ?thesis using assms(2) by (cases rule: lookup_cases[OF l]) auto
next
  case (PLocal u now name)
  then show ?thesis
    using assms by (cases rule: ConnectLocal_cases[of u now name "wm s"]) auto
next
  case (PKillClose rs)
  then show ?thesis using assms by (cases rs) (auto simp: Let_def split: option.splits)
next
  case (PKillAll ks)
  then show ?thesis using assms by (force simp: List_def range_order_def split: if_splits)
next
  case (PDial x1 x2 x3 x4 x5 x6 x7)
  then show ?thesis using assms by (auto split: prod.splits sum.splits dest: connect_objs)
next
  case (PRecDial x1)
  then show ?thesis using assms by (auto split: prod.splits sum.splits dest: reconnect_dial_objs)
qed (use assms in \<open>auto simp: reconnect_begin_def reconnect_detach_def connect_adopt_def reconnect_adopt_def
       split: option.splits if_splits\<close>)

lemma advance_orphaned: "advance N p s = Some (p', s') \<Longrightarrow> orphaned s \<subseteq> orphaned s'"
proof (cases p)
  case (PKillClose rs)
  assume "advance N p s = Some (p', s')"
  then show ?thesis using PKillClose by (cases rs) (auto simp: Let_def split: option.splits)
qed (auto simp: Let_def split: prod.splits sum.splits option.splits if_splits)

lemma advance_killing:
  assumes "advance N p s = Some (p', s')" "r \<in> killing p"
  shows "r \<in> killing p' \<or> GetStatus (objs (wm s') r) = StatusDisconnected \<and> GetClient (objs (wm s') r) = None"
proof (cases p)
  case (PKillClose rs)
  then show ?thesis using assms by (cases rs) (auto simp: Let_def split: option.splits)
qed (use assms in auto)

lemma advance_new_client:
  assumes "advance N p s = Some (p', s')" "GetClient (objs (wm s') r) = Some c"
  shows "GetClient (objs (wm s) r) = Some c
    \<or> p = PAdopt r c \<and> GetStatus (objs (wm s) r) = StatusConnecting
    \<or> p = PRecAdopt r c \<and> GetStatus (objs (wm s) r) = StatusReconnecting"
proof (cases p)
  case (PConnect now name user host port pw key)
  obtain nx m1 where l: "ConnectSSH_lookup now (ssh_name name user host) user host port pw key (wm s) = (nx, m1)"
    by fastforce
  then have "wm s' = m1" using assms PConnect by (auto simp: Let_def)
  then show ?thesis using assms(2) by (cases rule: lookup_cases[OF l]) (auto split: if_splits)
next
  case (PLocal u now name)
  then show ?thesis using assms GetClient_local
    by (cases rule: ConnectLocal_cases[of u now name "wm s"]) (auto split: if_splits)
next
  case (PKillClose rs)
  then show ?thesis using assms by (cases rs) (auto simp: Let_def split: option.splits if_splits)
next
  case (PDial x1 x2 x3 x4 x5 x6 x7)
  then show ?thesis using assms by (auto split: prod.splits sum.splits dest: connect_objs)
next
  case (PRecDial x1)
  then show ?thesis using assms by (auto split: prod.splits sum.splits dest: reconnect_dial_objs)
next
  case (PAdopt r' c')
  then show ?thesis using assms
    by (cases "objs (wm s) r'") (auto simp: connect_adopt_def split: if_splits)
next
  case (PRecAdopt r' c')
  then show ?thesis using assms
    by (cases "objs (wm s) r'") (auto simp: reconnect_adopt_def split: if_splits)
qed (use assms in \<open>auto simp: reconnect_begin_def reconnect_detach_def split: option.splits if_splits\<close>)

lemma advance_fresh:
  assumes "advance N p s = Some (p', s')" "nextRef (wm s) \<le> r" "r < nextRef (wm s')"
  shows "sessions (wm s') (GetName (objs (wm s') r)) = Some r"
proof (cases p)
  case (PConnect now name user host port pw key)
  obtain nx m1 where l: "ConnectSSH_lookup now (ssh_name name user host) user host port pw key (wm s) = (nx, m1)"
    by fastforce
  then have "wm s' = m1" using assms PConnect by (auto simp: Let_def)
  then show ?thesis using assms(2,3) by (cases rule: lookup_cases[OF l]) auto
next
  case (PLocal u now name)
  then show ?thesis
    using assms by (cases rule: ConnectLocal_cases[of u now name "wm s"]) auto
next
  case (PKillClose rs)
  then show ?thesis using assms by (cases rs) (auto simp: Let_def split: option.splits)
next
  case (PDial x1 x2 x3 x4 x5 x6 x7)
  then show ?thesis using assms by (auto split: prod.splits sum.splits dest: connect_objs)
next
  case (PRecDial x1)
  then show ?thesis using assms by (auto split: prod.splits sum.splits dest: reconnect_dial_objs)
qed (use assms in \<open>auto simp: reconnect_begin_def reconnect_detach_def connect_adopt_def reconnect_adopt_def
       split: option.splits if_splits\<close>)

definition race_inv :: "world \<Rightarrow> bool" where
  "race_inv w \<longleftrightarrow>
     own_inv (\<Union>t. held (thr w t)) (wm (sh w))
     \<and> (\<forall>t t'. t \<noteq> t' \<longrightarrow> held (thr w t) \<inter> held (thr w t') = {})
     \<and> (\<forall>t. tinv (wm (sh w)) (thr w t))
     \<and> (\<forall>t r. lockof (thr w t) = Some r \<longrightarrow> r \<in> locked (sh w))
     \<and> (\<forall>t t' r. lockof (thr w t) = Some r \<longrightarrow> lockof (thr w t') = Some r \<longrightarrow> t = t')"

lemma race_invD:
  assumes "race_inv w"
  shows ri_own: "own_inv (\<Union>t. held (thr w t)) (wm (sh w))"
    and ri_disj: "\<And>t t'. t \<noteq> t' \<Longrightarrow> held (thr w t) \<inter> held (thr w t') = {}"
    and ri_tinv: "\<And>t. tinv (wm (sh w)) (thr w t)"
    and ri_locked: "\<And>t r. lockof (thr w t) = Some r \<Longrightarrow> r \<in> locked (sh w)"
    and ri_lock: "\<And>t t' r. lockof (thr w t) = Some r \<Longrightarrow> lockof (thr w t') = Some r \<Longrightarrow> t = t'"
  using assms unfolding race_inv_def by auto

definition live_inv :: "world \<Rightarrow> bool" where
  "live_inv w \<longleftrightarrow>
     (\<forall>r. GetClient (objs (wm (sh w)) r) \<noteq> None \<longrightarrow> live (sh w) (thr w) r)
     \<and> (\<forall>r<nextRef (wm (sh w)). live (sh w) (thr w) r \<or> GetStatus (objs (wm (sh w)) r) \<noteq> StatusConnecting)
     \<and> (\<forall>t r c. thr w t = PRecAdopt r c \<longrightarrow>
           live (sh w) (thr w) r \<or> GetStatus (objs (wm (sh w)) r) \<noteq> StatusReconnecting)"

lemma request_sel:
  "request p \<Longrightarrow> held p = {} \<and> lockof p = None \<and> killing p = {} \<and> sshref p = None \<and> tinv m p
     \<and> (\<forall>r c. p \<noteq> PRecAdopt r c)"
  by (cases p) (auto simp: tinv_def begun_def emptied_def)

lemma others_own:
  assumes "\<And>t'. t' \<noteq> t \<Longrightarrow> held (T t') \<inter> held (T t) = {}"
  shows "(\<Union>t'. held (T t')) = held (T t) \<union> (\<Union>t'\<in>-{t}. held (T t'))"
    "held (T t) \<inter> (\<Union>t'\<in>-{t}. held (T t')) = {}"
  using assms by auto

lemma held_upd: "(\<Union>t'. held ((T(t := p)) t')) = held p \<union> (\<Union>t'\<in>-{t}. held (T t'))"
  by (auto split: if_splits)

lemma advance_to_adopt:
  assumes "advance N p s = Some (PRecAdopt r c, s')"
  shows "p = PRecCheck r c \<and> still_registered r (wm s) \<and> s' = s"
proof (cases p)
  case (PKillClose rs)
  then show ?thesis using assms by (cases rs) (auto simp: Let_def split: option.splits)
qed (use assms in \<open>auto simp: after_lookup_def Let_def
       split: connect_next.splits prod.splits sum.splits option.splits if_splits\<close>)

lemma race_inv_run:
  assumes I: "race_inv w" and A: "advance N (thr w t) (sh w) = Some (p, s)"
  shows "race_inv (w\<lparr>sh := s, thr := (thr w)(t := p)\<rparr>)"
proof -
  let ?T = "thr w" and ?H = "\<Union>t'\<in>-{t}. held (thr w t')"
  have O: "own_inv (held (?T t) \<union> ?H) (wm (sh w))"
    using ri_own[OF I] others_own(1)[of t ?T] ri_disj[OF I] by simp
  have D: "held (?T t) \<inter> ?H = {}" by (rule others_own(2)) (use ri_disj[OF I] in auto)
  note own' = advance_own[OF A ri_tinv[OF I] O D]
  note R = advance_rely[OF A ri_tinv[OF I]]
  have tin: "tinv (wm s) (((?T)(t := p)) t')" for t'
  proof (cases "t' = t")
    case True
    then show ?thesis using advance_tinv[OF A ri_tinv[OF I] O] by simp
  next
    case False
    then show ?thesis using rely_tinv[OF ri_tinv[OF I, of t'] R] ri_lock[OF I, of t' _ t] by auto
  qed
  have lk: "(\<forall>t' r. lockof (((?T)(t := p)) t') = Some r \<longrightarrow> r \<in> locked s)
    \<and> (\<forall>t1 t2 r. lockof (((?T)(t := p)) t1) = Some r \<longrightarrow> lockof (((?T)(t := p)) t2) = Some r \<longrightarrow> t1 = t2)"
    using advance_lock[OF A]
  proof (elim disjE exE conjE)
    assume e: "lockof p = lockof (?T t)" "locked s = locked (sh w)"
    then have "lockof ((?T(t := p)) t') = lockof (?T t')" for t' by simp
    then show ?thesis using ri_locked[OF I] ri_lock[OF I] e(2) by metis
  next
    fix r assume e: "lockof p = Some r" "r \<notin> locked (sh w)" "locked s = insert r (locked (sh w))"
    then have "t' = t" if "lockof ((?T(t := p)) t') = Some r" for t'
      using ri_locked[OF I, of t' r] that by (auto split: if_splits)
    then show ?thesis using ri_locked[OF I] ri_lock[OF I] e by (metis fun_upd_other fun_upd_same insert_iff option.inject)
  next
    fix r assume e: "lockof (?T t) = Some r" "lockof p = None" "locked s = locked (sh w) - {r}"
    then have "lockof (?T t') \<noteq> Some r" if "t' \<noteq> t" for t' using ri_lock[OF I, of t r t'] that by auto
    then show ?thesis using ri_locked[OF I] ri_lock[OF I] e
      by (metis Diff_iff fun_upd_other fun_upd_same option.distinct(1) singletonD)
  qed
  have dis: "held (((?T)(t := p)) t1) \<inter> held (((?T)(t := p)) t2) = {}" if "t1 \<noteq> t2" for t1 t2
    using that own' ri_disj[OF I that] by (auto split: if_splits)
  have "own_inv (\<Union>t'. held (((?T)(t := p)) t')) (wm s)" unfolding held_upd using own' by simp
  moreover have "thr (w\<lparr>sh := s, thr := ?T(t := p)\<rparr>) = ?T(t := p)" "sh (w\<lparr>sh := s, thr := ?T(t := p)\<rparr>) = s"
    by simp_all
  ultimately show ?thesis unfolding race_inv_def using tin lk dis by (simp only:) blast
qed

lemma race_inv_spawn:
  assumes I: "race_inv w" and "thr w t = Idle" "request p"
  shows "race_inv (w\<lparr>thr := (thr w)(t := p)\<rparr>)"
proof -
  have e: "held (((thr w)(t := p)) t') = held (thr w t')" "lockof (((thr w)(t := p)) t') = lockof (thr w t')" for t'
    using request_sel[OF assms(3)] assms(2) by auto
  show ?thesis
    using I request_sel[OF assms(3)] unfolding race_inv_def by (simp add: e del: fun_upd_apply) (simp add: fun_upd_apply)
qed

lemma live_step:
  assumes A: "advance N (T t) s = Some (p, s')" and R: "rely lk (wm s) (wm s')"
    and L: "live s T r" and r: "r < nextRef (wm s)"
  shows "live s' (T(t := p)) r
    \<or> GetStatus (objs (wm s') r) = StatusDisconnected \<and> GetClient (objs (wm s') r) = None"
proof -
  have n: "GetName (objs (wm s') r) = GetName (objs (wm s) r)" using R r by (simp add: rely_def)
  from L consider "sessions (wm s) (GetName (objs (wm s) r)) = Some r" | "r \<in> orphaned s"
    | t' where "r \<in> killing (T t')" "t' \<noteq> t" | "r \<in> killing (T t)"
    unfolding live_def by metis
  then show ?thesis
  proof cases
    case 1
    then show ?thesis using advance_sessions[OF A] n unfolding live_def by (metis fun_upd_same)
  next
    case 2
    then show ?thesis using advance_orphaned[OF A] unfolding live_def by auto
  next
    case 3
    then show ?thesis unfolding live_def by (metis fun_upd_other)
  next
    case 4
    then show ?thesis using advance_killing[OF A] unfolding live_def by (metis fun_upd_same)
  qed
qed

lemma live_inv_run:
  assumes I: "race_inv w" and L: "live_inv w" and A: "advance N (thr w t) (sh w) = Some (p, s)"
  shows "live_inv (w\<lparr>sh := s, thr := (thr w)(t := p)\<rparr>)"
proof -
  let ?T = "thr w" and ?m = "wm (sh w)"
  note R = advance_rely[OF A ri_tinv[OF I]]
  note O = ri_own[OF I]
  note LS = live_step[where T = ?T, OF A R]
  have known: "r < nextRef ?m" if "sshref (?T t') = Some r" for t' r
    using ri_tinv[OF I, of t'] that by (simp add: tinv_def)
  have cl: "live s (?T(t := p)) r" if c: "GetClient (objs (wm s) r) = Some c" for r c
  proof -
    have "live (sh w) ?T r \<and> r < nextRef ?m"
      using advance_new_client[OF A c] L own_holder[OF O, of r c] known[of t r]
      unfolding live_inv_def by fastforce
    then show ?thesis using LS[of r] c by auto
  qed
  have co: "live s (?T(t := p)) r \<or> GetStatus (objs (wm s) r) \<noteq> StatusConnecting" if "r < nextRef (wm s)" for r
  proof (cases "r < nextRef ?m")
    case True
    then show ?thesis using L LS[of r] R unfolding live_inv_def rely_def by fastforce
  next
    case False
    then show ?thesis using advance_fresh[OF A _ that] unfolding live_def by auto
  qed
  have ad: "live s (?T(t := p)) r \<or> GetStatus (objs (wm s) r) \<noteq> StatusReconnecting"
    if P: "(?T(t := p)) t' = PRecAdopt r c" for t' r c
  proof (cases "t' = t")
    case True
    with P A have "?T t = PRecCheck r c \<and> still_registered r ?m \<and> s = sh w"
      using advance_to_adopt by simp
    then show ?thesis by (auto simp: live_def still_registered_def)
  next
    case False
    with P have q: "?T t' = PRecAdopt r c" by simp
    then have lk: "lockof (?T t) \<noteq> Some r" using ri_lock[OF I, of t' r t] False by auto
    have r: "r < nextRef ?m" using known[of t' r] q by simp
    then show ?thesis using L q lk R LS[of r] unfolding live_inv_def rely_def by fastforce
  qed
  show ?thesis unfolding live_inv_def using cl co ad by (auto simp: not_None_eq)
qed

lemma live_inv_spawn:
  assumes L: "live_inv w" and "thr w t = Idle" "request p"
  shows "live_inv (w\<lparr>thr := (thr w)(t := p)\<rparr>)"
proof -
  have k: "killing (((thr w)(t := p)) t') = killing (thr w t')" for t'
    using request_sel[OF assms(3)] assms(2) by auto
  have "live (sh w) ((thr w)(t := p)) = live (sh w) (thr w)" unfolding live_def using k by auto
  then show ?thesis using L request_sel[OF assms(3)] unfolding live_inv_def by auto
qed

lemma race_inv_init: "race_inv race_init \<and> live_inv race_init"
  by (auto simp: race_inv_def live_inv_def race_init_def tinv_def begun_def emptied_def own_inv_def NewManager_def)

interpretation race_machine: state_machine "\<lambda>w. w = race_init" "\<lambda>w. race_inv w \<and> live_inv w" "race_step N" for N
proof
  show "w = race_init \<Longrightarrow> race_inv w \<and> live_inv w" for w by (simp add: race_inv_init)
  show "race_inv w \<and> live_inv w \<Longrightarrow> race_step N w w' \<Longrightarrow> race_inv w' \<and> live_inv w'" for w w'
    by (erule race_step.cases) (auto intro: race_inv_spawn race_inv_run live_inv_spawn live_inv_run)
qed

lemmas race_reach = race_machine.reach_inv[OF _ refl]

section \<open>Schedules\<close>

text \<open>A schedule spawns a goroutine (\<open>Some p\<close>) or runs the next section of one; \<open>None\<close> when a
  step is not possible.\<close>

fun run_schedule :: "net \<Rightarrow> (nat \<times> pc option) list \<Rightarrow> world \<Rightarrow> world option" where
  "run_schedule N [] w = Some w"
| "run_schedule N ((t, Some p) # ts) w =
     (if thr w t = Idle \<and> request p then run_schedule N ts (w\<lparr>thr := (thr w)(t := p)\<rparr>) else None)"
| "run_schedule N ((t, None) # ts) w =
     (case advance N (thr w t) (sh w) of
        None \<Rightarrow> None | Some (p, s) \<Rightarrow> run_schedule N ts (w\<lparr>sh := s, thr := (thr w)(t := p)\<rparr>))"

lemma run_schedule_reach:
  "run_schedule N ts w = Some w' \<Longrightarrow> (race_step N)\<^sup>*\<^sup>* w w'"
proof (induction N ts w arbitrary: w' rule: run_schedule.induct)
  case (2 N t p ts w)
  let ?w = "w\<lparr>thr := (thr w)(t := p)\<rparr>"
  have "race_step N w ?w" using 2(2) by (intro race_step.spawn) (auto split: if_splits)
  moreover have "(race_step N)\<^sup>*\<^sup>* ?w w'" using 2 by (auto split: if_splits)
  ultimately show ?case by (rule converse_rtranclp_into_rtranclp)
next
  case (3 N t ts w)
  obtain p s where A: "advance N (thr w t) (sh w) = Some (p, s)" using 3(2) by (auto split: option.splits)
  have "(race_step N)\<^sup>*\<^sup>* (w\<lparr>sh := s, thr := (thr w)(t := p)\<rparr>) w'" using 3 A by auto
  with race_step.run[OF A] show ?case by (rule converse_rtranclp_into_rtranclp)
qed auto

text \<open>
  Two connects and a kill of the same name.  The first connect is dialling when the session is
  killed and created again by the second, whose dial succeeds; then the first dial fails.
\<close>

definition demo_connect :: pc where
  "demo_connect = PConnect 1 ''a'' ''u'' ''h'' 22 '''' ''''"

definition kill_then_fail :: "(nat \<times> pc option) list" where
  "kill_then_fail =
     [(0, Some demo_connect), (0, None),
      (1, Some (PKill ''a'')), (1, None), (1, None), (1, None),
      (1, Some demo_connect), (1, None), (1, None), (1, None),
      (0, None), (0, None), (0, None)]"

definition idle_world :: "world \<Rightarrow> bool" where
  "idle_world w \<longleftrightarrow> (\<forall>t. thr w t = Idle)"

lemma kill_then_fail_run:
  "\<exists>w. run_schedule demo_net kill_then_fail race_init = Some w \<and> idle_world w
     \<and> netOpen (wm (sh w)) = {0} \<and> GetClient (objs (wm (sh w)) 1) = Some 0
     \<and> GetStatus (objs (wm (sh w)) 1) = StatusConnected \<and> sessions (wm (sh w)) = Map.empty"
  by (simp add: kill_then_fail_def demo_connect_def race_init_def demo_net_def NewManager_def
      ConnectSSH_lookup_def ssh_name_def after_lookup_def with_wm_def alloc_def upd_obj_def forget_def
      connect_def connect_adopt_def Let_def idle_world_def fun_eq_iff)

text \<open>A session connected, then reconnected while a kill lands between the dial and the adoption.\<close>

definition kill_mid_reconnect :: "(nat \<times> pc option) list" where
  "kill_mid_reconnect =
     [(0, Some demo_connect), (0, None), (0, None), (0, None),
      (0, Some (PReconnectName ''a'')), (0, None), (0, None), (0, None), (0, None), (0, None), (0, None), (0, None),
      (1, Some (PKill ''a'')), (1, None), (1, None), (1, None)]"

definition open_net :: net where
  "open_net = \<lparr>dial = (\<lambda>n u h p a. None), close_err = (\<lambda>_. None)\<rparr>"

lemma kill_mid_reconnect_run:
  "\<exists>w. run_schedule open_net kill_mid_reconnect race_init = Some w
     \<and> netOpen (wm (sh w)) = {1} \<and> thr w 0 = PRecAdopt 0 1 \<and> thr w 1 = Idle
     \<and> GetStatus (objs (wm (sh w)) 0) = StatusDisconnected \<and> GetClient (objs (wm (sh w)) 0) = None"
  by (simp add: kill_mid_reconnect_def demo_connect_def race_init_def open_net_def NewManager_def
      ConnectSSH_lookup_def ssh_name_def after_lookup_def with_wm_def alloc_def upd_obj_def forget_def
      connect_def connect_adopt_def reconnect_begin_def reconnect_detach_def reconnect_dial_def
      close_client_def Client_Close_def still_registered_def Let_def)

section \<open>Properties\<close>

definition owner :: "world \<Rightarrow> cid \<Rightarrow> nat + ref \<Rightarrow> bool" where
  "owner w c x = (case x of Inl t \<Rightarrow> c \<in> held (thr w t) | Inr r \<Rightarrow> GetClient (objs (wm (sh w)) r) = Some c)"

text \<open>
  C9: under every interleaving of connects, kills, uses, reconnections, probes and shutdown, and
  whatever the dials do, each open connection has exactly one owner: either one session object, or
  one goroutine that is between dialling (or detaching) it and adopting or closing it.  No
  connection is ever shared by two sessions, overwritten or dropped.
\<close>

theorem race_single_owner:
  assumes "(race_step N)\<^sup>*\<^sup>* race_init w" "c \<in> netOpen (wm (sh w))"
  shows "\<exists>!x. owner w c x"
proof -
  note I = conjunct1[OF race_reach[OF assms(1)]]
  note O = ri_own[OF I]
  have "\<exists>x. owner w c x"
  proof (cases "c \<in> (\<Union>t. held (thr w t))")
    case True
    then show ?thesis by (auto simp: owner_def intro: exI[of _ "Inl _"])
  next
    case False
    then obtain r where "GetClient (objs (wm (sh w)) r) = Some c" using own_open[OF O assms(2)] by auto
    then show ?thesis by (intro exI[of _ "Inr r"]) (simp add: owner_def)
  qed
  moreover have "x = y" if "owner w c x" "owner w c y" for x y
  proof (cases x; cases y)
    fix t t' assume "x = Inl t" "y = Inl t'"
    then show ?thesis using that ri_disj[OF I, of t t'] by (auto simp: owner_def)
  next
    fix r r' assume "x = Inr r" "y = Inr r'"
    then show ?thesis using that own_inj[OF O] by (auto simp: owner_def)
  qed (use that own_holder[OF O] in \<open>auto simp: owner_def\<close>)
  ultimately show ?thesis by auto
qed

theorem race_single_owner_witness:
  "\<exists>w. (race_step open_net)\<^sup>*\<^sup>* race_init w \<and> owner w 1 (Inl 0) \<and> (\<exists>!x. owner w 1 x)"
proof -
  obtain w where w: "run_schedule open_net kill_mid_reconnect race_init = Some w"
     "netOpen (wm (sh w)) = {1}" "thr w 0 = PRecAdopt 0 1" using kill_mid_reconnect_run by auto
  then show ?thesis
    using race_single_owner[OF run_schedule_reach[OF w(1)], of 1] run_schedule_reach[OF w(1)]
    by (auto simp: owner_def)
qed

text \<open>
  C11: no kill, shutdown, use or reconnection can leak a connection.  Once all goroutines have
  finished, every open connection is the client of a session that is still registered, unless the
  error path of some first dial has unregistered that session by name.
\<close>

theorem race_quiescent_registered:
  assumes "(race_step N)\<^sup>*\<^sup>* race_init w" "idle_world w" "c \<in> netOpen (wm (sh w))"
  shows "\<exists>r. GetClient (objs (wm (sh w)) r) = Some c
     \<and> (sessions (wm (sh w)) (GetName (objs (wm (sh w)) r)) = Some r \<or> r \<in> orphaned (sh w))"
proof -
  note R = race_reach[OF assms(1)]
  have "held (thr w t) = {}" "killing (thr w t) = {}" for t using assms(2) by (auto simp: idle_world_def)
  moreover obtain r where r: "GetClient (objs (wm (sh w)) r) = Some c"
    using own_open[OF ri_own[OF conjunct1[OF R]] assms(3)] calculation by auto
  moreover have "live (sh w) (thr w) r" using R r unfolding live_inv_def by auto
  ultimately show ?thesis unfolding live_def by auto
qed

definition reconnect_done :: "(nat \<times> pc option) list" where
  "reconnect_done =
     [(0, Some demo_connect), (0, None), (0, None), (0, None),
      (0, Some (PReconnectName ''a'')), (0, None), (0, None), (0, None), (0, None), (0, None), (0, None), (0, None),
      (0, None), (0, None)]"

lemma reconnect_done_run:
  "\<exists>w. run_schedule open_net reconnect_done race_init = Some w \<and> idle_world w
     \<and> netOpen (wm (sh w)) = {1} \<and> orphaned (sh w) = {}"
  by (simp add: reconnect_done_def demo_connect_def race_init_def open_net_def NewManager_def
      ConnectSSH_lookup_def ssh_name_def after_lookup_def with_wm_def alloc_def upd_obj_def forget_def
      connect_def connect_adopt_def reconnect_begin_def reconnect_detach_def reconnect_dial_def reconnect_adopt_def
      close_client_def Client_Close_def still_registered_def Let_def idle_world_def fun_eq_iff)

theorem race_quiescent_registered_witness:
  "\<exists>w r. (race_step open_net)\<^sup>*\<^sup>* race_init w \<and> netOpen (wm (sh w)) = {1} \<and> orphaned (sh w) = {}
     \<and> GetClient (objs (wm (sh w)) r) = Some 1 \<and> sessions (wm (sh w)) (GetName (objs (wm (sh w)) r)) = Some r"
proof -
  obtain w where w: "run_schedule open_net reconnect_done race_init = Some w" "idle_world w"
     "netOpen (wm (sh w)) = {1}" "orphaned (sh w) = {}" using reconnect_done_run by auto
  then show ?thesis
    using race_quiescent_registered[OF run_schedule_reach[OF w(1)] w(2), of 1] run_schedule_reach[OF w(1)] by auto
qed

text \<open>
  C23: reconnections of a session are serialised.  Two goroutines are never in \<open>reconnectSSH\<close> of
  the same session at once, so a session is never dialled twice in parallel, and when a dialled
  connection is adopted the session has no client that the adoption could overwrite.
\<close>

theorem race_reconnect_exclusive:
  assumes "(race_step N)\<^sup>*\<^sup>* race_init w"
  shows "(\<forall>t t' r. lockof (thr w t) = Some r \<and> lockof (thr w t') = Some r \<longrightarrow> t = t')
    \<and> (\<forall>t r c. thr w t = PRecAdopt r c \<longrightarrow> GetClient (objs (wm (sh w)) r) = None)
    \<and> (\<forall>t r c. thr w t = PAdopt r c \<and> GetStatus (objs (wm (sh w)) r) = StatusConnecting \<longrightarrow>
          GetClient (objs (wm (sh w)) r) = None)"
proof (intro conjI allI impI; (elim conjE)?)
  note I = conjunct1[OF race_reach[OF assms]]
  fix t t' r assume "lockof (thr w t) = Some r" "lockof (thr w t') = Some r"
  then show "t = t'" by (rule ri_lock[OF I])
next
  note I = conjunct1[OF race_reach[OF assms]]
  fix t r c assume "thr w t = PRecAdopt r c"
  then show "GetClient (objs (wm (sh w)) r) = None"
    using ri_tinv[OF I, of t] by (simp add: tinv_def emptied_def begun_def)
next
  note I = conjunct1[OF race_reach[OF assms]]
  fix t r c assume "GetStatus (objs (wm (sh w)) r) = StatusConnecting"
  then show "GetClient (objs (wm (sh w)) r) = None" by (rule not_connecting_client[OF ri_own[OF I]])
qed

theorem race_reconnect_exclusive_witness:
  "\<exists>w. (race_step open_net)\<^sup>*\<^sup>* race_init w \<and> thr w 0 = PRecAdopt 0 1 \<and> GetClient (objs (wm (sh w)) 0) = None"
proof -
  obtain w where w: "run_schedule open_net kill_mid_reconnect race_init = Some w" "thr w 0 = PRecAdopt 0 1"
    using kill_mid_reconnect_run by auto
  then show ?thesis
    using race_reconnect_exclusive[OF run_schedule_reach[OF w(1)]] run_schedule_reach[OF w(1)] by blast
qed

text \<open>
  C35: the error path of a first dial can leak a connection.  There is an interleaving of two
  connects and one kill of the same name after which every goroutine has finished, one connection
  is open and its session is connected, yet no session is registered: the failing connect deleted
  by name the session of the succeeding one, which no later kill or shutdown can reach.
\<close>

theorem race_failed_dial_leaks:
  "\<exists>w. (race_step demo_net)\<^sup>*\<^sup>* race_init w \<and> idle_world w \<and> sessions (wm (sh w)) = Map.empty
     \<and> netOpen (wm (sh w)) = {0} \<and> GetClient (objs (wm (sh w)) 1) = Some 0
     \<and> GetStatus (objs (wm (sh w)) 1) = StatusConnected"
  using kill_then_fail_run run_schedule_reach by blast

end
