(* ===== verification/Session_Registry.thy ===== *)
theory Session_Registry
  imports Session_Manager
begin

text \<open>
  What the session manager promises its callers, without objects, clients or statuses: a registry
  that maps names to entries, with a default name.  Every operation of the manager refines the
  operation of the registry, whatever the network does.
\<close>

section \<open>The abstract registry\<close>

text \<open>An entry: a local session, or the user, host and port of a remote one and whether it is connected.\<close>

datatype reg_entry = LocalEntry | RemoteEntry string string int bool

record registry =
  rg_entries :: "string \<rightharpoonup> reg_entry"
  rg_default :: string

definition empty_registry :: registry where
  "empty_registry = \<lparr>rg_entries = Map.empty, rg_default = ''''\<rparr>"

definition rg_name :: "string \<Rightarrow> registry \<Rightarrow> string" where
  "rg_name name g = (if name = '''' then rg_default g else name)"

definition rg_put :: "string \<Rightarrow> reg_entry \<Rightarrow> registry \<Rightarrow> registry" where
  "rg_put n e g = g\<lparr>rg_entries := (rg_entries g)(n \<mapsto> e), rg_default := n\<rparr>"

text \<open>
  The operations: success and the registry afterwards.  \<open>up\<close> says whether the connection that the
  operation makes, if it makes one, comes up.
\<close>

definition rg_connect :: "bool \<Rightarrow> string \<Rightarrow> string \<Rightarrow> string \<Rightarrow> int \<Rightarrow> registry \<Rightarrow> bool \<times> registry" where
  "rg_connect up n u h p g =
     (case rg_entries g n of
        None \<Rightarrow> if up then (True, rg_put n (RemoteEntry u h p True) g) else (False, g\<lparr>rg_default := ''''\<rparr>)
      | Some LocalEntry \<Rightarrow> (False, g)
      | Some (RemoteEntry u' h' p' c) \<Rightarrow>
          if (u', h', p') \<noteq> (u, h, p) then (False, g)
          else (c \<or> up, rg_put n (RemoteEntry u h p (c \<or> up)) g))"

definition rg_local :: "string \<Rightarrow> registry \<Rightarrow> bool \<times> registry" where
  "rg_local n g =
     (case rg_entries g n of
        Some (RemoteEntry u h p c) \<Rightarrow> (False, g)
      | _ \<Rightarrow> (True, rg_put n LocalEntry g))"

definition rg_kill :: "string \<Rightarrow> registry \<Rightarrow> bool \<times> registry" where
  "rg_kill name g =
     (let n = rg_name name g in
      if rg_entries g n = None then (False, g)
      else (True, g\<lparr>rg_entries := (rg_entries g)(n := None), rg_default := (if rg_default g = n then '''' else rg_default g)\<rparr>))"

definition rg_use :: "bool \<Rightarrow> string \<Rightarrow> registry \<Rightarrow> bool \<times> registry" where
  "rg_use up name g =
     (let n = rg_name name g in
      case rg_entries g n of
        None \<Rightarrow> (False, g)
      | Some LocalEntry \<Rightarrow> (True, rg_put n LocalEntry g)
      | Some (RemoteEntry u h p c) \<Rightarrow> (c \<or> up, rg_put n (RemoteEntry u h p (c \<or> up)) g))"

definition rg_reconnect :: "bool \<Rightarrow> string \<Rightarrow> registry \<Rightarrow> bool \<times> registry" where
  "rg_reconnect up n g =
     (case rg_entries g n of
        Some (RemoteEntry u h p c) \<Rightarrow> (up, g\<lparr>rg_entries := (rg_entries g)(n \<mapsto> RemoteEntry u h p up)\<rparr>)
      | _ \<Rightarrow> (False, g))"

definition rg_offline :: "string \<Rightarrow> string \<Rightarrow> string \<Rightarrow> int \<Rightarrow> registry \<Rightarrow> registry" where
  "rg_offline n u h p g = g\<lparr>rg_entries := (rg_entries g)(n \<mapsto> RemoteEntry u h p False)\<rparr>"

section \<open>The operations of both\<close>

datatype op =
    OConnect string string string int string string
  | OLocal string
  | OKill string
  | OKillAll
  | OUse string string string
  | OReconnect string
  | OOffline string string string int string int

text \<open>
  The manager's operation in the environment of one call: the network, the order in which the map
  is iterated, the outcomes of waiting, the clock and the user.
\<close>

record op_env =
  oe_net :: net
  oe_keys :: "string list"
  oe_await :: "ref \<Rightarrow> cid res"
  oe_now :: int
  oe_user :: "string res"

definition is_ok :: "'a res \<Rightarrow> bool" where "is_ok r = (case r of Inl _ \<Rightarrow> False | Inr _ \<Rightarrow> True)"

definition mgr_op :: "op_env \<Rightarrow> op \<Rightarrow> manager \<Rightarrow> bool \<times> manager" where
  "mgr_op E a m =
     (case a of
        OConnect name u h p pw key \<Rightarrow>
          (case ConnectSSH (oe_net E) (oe_await E) (oe_now E) name u h p pw key m of (r, m') \<Rightarrow> (is_ok r, m'))
      | OLocal name \<Rightarrow> (case ConnectLocal (oe_user E) (oe_now E) name m of (r, m') \<Rightarrow> (is_ok r, m'))
      | OKill name \<Rightarrow> (fst (Kill (oe_net E) name m) \<noteq> Some (Errorf ''session not found'' []), snd (Kill (oe_net E) name m))
      | OKillAll \<Rightarrow> (True, KillAll (oe_net E) (oe_keys E) m)
      | OUse name pw key \<Rightarrow> (case Use (oe_net E) name pw key m of (e, m') \<Rightarrow> (e = None, m'))
      | OReconnect name \<Rightarrow> (case Reconnect (oe_net E) name m of (r, m') \<Rightarrow> (is_ok r, m'))
      | OOffline name u h p key t \<Rightarrow> (True, RegisterOfflineSession name u h p key t m))"

definition rg_op :: "bool \<Rightarrow> op \<Rightarrow> registry \<Rightarrow> bool \<times> registry" where
  "rg_op up a g =
     (case a of
        OConnect name u h p pw key \<Rightarrow> rg_connect up (ssh_name name u h) u h p g
      | OLocal name \<Rightarrow> rg_local (if name = '''' then ''local'' else name) g
      | OKill name \<Rightarrow> rg_kill name g
      | OKillAll \<Rightarrow> (True, empty_registry)
      | OUse name pw key \<Rightarrow> rg_use up name g
      | OReconnect name \<Rightarrow> rg_reconnect up name g
      | OOffline name u h p key t \<Rightarrow> (True, rg_offline name u h p g))"

text \<open>
  What a call may assume: the keys are an iteration order of the map, a session is registered
  offline under a free name (as the daemon does when it starts), and closing a connection does not
  fail with the manager's own error for a missing session.
\<close>

definition op_ok :: "op_env \<Rightarrow> op \<Rightarrow> manager \<Rightarrow> bool" where
  "op_ok E a m \<longleftrightarrow> (a = OKillAll \<longrightarrow> range_order (sessions m) (oe_keys E))
     \<and> (\<forall>c. close_err (oe_net E) c \<noteq> Some (Errorf ''session not found'' []))
     \<and> (case a of OOffline name u h p key t \<Rightarrow> sessions m name = None | _ \<Rightarrow> True)"

section \<open>The abstraction\<close>

fun target :: "session \<Rightarrow> (string \<times> string \<times> int) option" where
  "target (SSH s) = Some (s_User s, s_Host s, s_Port s)"
| "target (Local l) = None"

definition view :: "session \<Rightarrow> reg_entry" where
  "view s = (case target s of None \<Rightarrow> LocalEntry | Some (u, h, p) \<Rightarrow> RemoteEntry u h p (GetClient s \<noteq> None))"

definition abs_mgr :: "manager \<Rightarrow> registry" where
  "abs_mgr m = \<lparr>rg_entries = (\<lambda>n. map_option (\<lambda>r. view (objs m r)) (sessions m n)), rg_default = defaultName m\<rparr>"

section \<open>Lemmas: targets\<close>

lemma target_set [simp]:
  "target (SetStatus st s) = target s" "target (SetClient c s) = target s" "target (SetPassword p s) = target s"
  "target (SetKeyPath p s) = target s" "target (SetLastCmd p s) = target s"
  by (cases s; simp)+

lemma target_local: "IsLocalSession s \<longleftrightarrow> target s = None"
  by (cases s) auto

lemma target_same: "same_target u h p s \<longleftrightarrow> target s = Some (u, h, p)"
  by (cases s) (auto simp: same_target_def)

lemma set_creds_target [simp]: "target (objs (set_creds pw key r m) r') = target (objs m r')"
  by (simp add: set_creds_def Let_def)

lemma reconnectSSH_target:
  assumes "reconnectSSH N r m = (e, m')"
  shows "target (objs m' r') = target (objs m r')"
proof -
  let ?m2 = "upd_obj r (SetClient None) (reconnect_begin r m)"
  let ?m3 = "case GetClient (objs (reconnect_begin r m) r) of None \<Rightarrow> ?m2 | Some c \<Rightarrow> snd (close_client N c ?m2)"
  have t3: "target (objs ?m3 x) = target (objs m x)" for x
    by (simp add: reconnect_begin_def split: option.split)
  obtain d m4 where D: "reconnect_dial N r ?m3 = (d, m4)" by fastforce
  have "objs (snd (reconnect_dial N r ?m3)) = objs ?m3" unfolding reconnect_dial_def Let_def by (rule connect_sel(4))
  then have t4: "target (objs m4 x) = target (objs m x)" for x using t3 D by simp
  have "target (objs (snd (reconnect_adopt N r c m4)) x) = target (objs m4 x)" for c x
    by (simp add: reconnect_adopt_def)
  then show ?thesis
    using assms D t4 by (auto simp: reconnectSSH_def reconnect_detach_def Let_def split: sum.splits if_splits) (metis snd_conv)
qed

lemma view_eq: "view s = LocalEntry \<longleftrightarrow> target s = None"
  "view s = RemoteEntry u h p c \<longleftrightarrow> target s = Some (u, h, p) \<and> c = (GetClient s \<noteq> None)"
  by (auto simp: view_def split: option.splits)


section \<open>Lemmas: one operation\<close>

lemma abs_sel [simp]:
  "rg_entries (abs_mgr m) n = map_option (\<lambda>r. view (objs m r)) (sessions m n)" "rg_default (abs_mgr m) = defaultName m"
  by (simp_all add: abs_mgr_def)

text \<open>Registries are equal when they agree on every name and on the default.\<close>

lemma registry_eqI:
  fixes g g' :: registry
  shows "(\<And>n. rg_entries g n = rg_entries g' n) \<Longrightarrow> rg_default g = rg_default g' \<Longrightarrow> g = g'"
  by (cases g; cases g') auto

lemma abs_same: "sessions m' = sessions m \<Longrightarrow> (\<And>n r. sessions m n = Some r \<Longrightarrow> view (objs m' r) = view (objs m r)) \<Longrightarrow>
    abs_mgr m' = (abs_mgr m)\<lparr>rg_default := defaultName m'\<rparr>"
proof (rule registry_eqI)
  fix k
  assume "sessions m' = sessions m" "\<And>n r. sessions m n = Some r \<Longrightarrow> view (objs m' r) = view (objs m r)"
  then show "rg_entries (abs_mgr m') k = rg_entries ((abs_mgr m)\<lparr>rg_default := defaultName m'\<rparr>) k"
    by (cases "sessions m k") auto
qed simp

lemma abs_put:
  assumes "sessions m' = (sessions m)(n \<mapsto> r)" "\<And>n' r'. n' \<noteq> n \<Longrightarrow> sessions m n' = Some r' \<Longrightarrow> view (objs m' r') = view (objs m r')"
  shows "abs_mgr m' = (abs_mgr m)\<lparr>rg_entries := (rg_entries (abs_mgr m))(n \<mapsto> view (objs m' r)), rg_default := defaultName m'\<rparr>"
proof (rule registry_eqI)
  fix k
  show "rg_entries (abs_mgr m') k = rg_entries ((abs_mgr m)\<lparr>rg_entries := (rg_entries (abs_mgr m))(n \<mapsto> view (objs m' r)), rg_default := defaultName m'\<rparr>) k"
    using assms by (cases "k = n"; cases "sessions m k") auto
qed simp

lemma abs_reconnect:
  assumes I: "mgr_inv m" and reg: "sessions m n = Some r" and t: "target (objs m r) = Some (u, h, p)"
    and R: "reconnectSSH N r m = (e, m')"
  shows "abs_mgr m' = (abs_mgr m)\<lparr>rg_entries := (rg_entries (abs_mgr m))(n \<mapsto> RemoteEntry u h p (e = None))\<rparr>"
    and "mgr_inv m'" "defaultName m' = defaultName m"
proof -
  have ssh: "\<not> IsLocalSession (objs m r)" using t by (simp add: target_local)
  note K = reconnectSSH_ok[OF I reg ssh R]
  have v: "view (objs m' r) = RemoteEntry u h p (e = None)"
    using reconnectSSH_target[OF R, of r] t K(6) by (simp add: view_eq)
  have "sessions m' = (sessions m)(n \<mapsto> r)" using K(2) reg by auto
  moreover have "view (objs m' r') = view (objs m r')" if "n' \<noteq> n" "sessions m n' = Some r'" for n' r'
  proof -
    have "r' \<noteq> r" using that reg own_reg[OF mgr_own[OF I] reg] own_reg[OF mgr_own[OF I] that(2)] by auto
    then show ?thesis using K(5) by simp
  qed
  ultimately have "abs_mgr m' = (abs_mgr m)\<lparr>rg_entries := (rg_entries (abs_mgr m))(n \<mapsto> RemoteEntry u h p (e = None)), rg_default := defaultName m'\<rparr>"
    using abs_put[of m' m n r] v by simp
  moreover show "defaultName m' = defaultName m" by (rule K(3))
  ultimately show "abs_mgr m' = (abs_mgr m)\<lparr>rg_entries := (rg_entries (abs_mgr m))(n \<mapsto> RemoteEntry u h p (e = None))\<rparr>"
    by (simp add: abs_mgr_def)
  show "mgr_inv m'" by (rule K(1))
qed

text \<open>A connected session is one with the status connected; the rest are offline.\<close>

lemma settled_view:
  assumes "mgr_inv m" "sessions m n = Some r" "target (objs m r) = Some (u, h, p)"
  shows "GetStatus (objs m r) = (if GetClient (objs m r) \<noteq> None then StatusConnected else StatusOffline)"
  using mgr_settled[OF assms(1,2)] assms(3) target_local[of "objs m r"] by (auto simp: settled_def split: if_splits)

lemma reg_distinct: "mgr_inv m \<Longrightarrow> sessions m n = Some r \<Longrightarrow> sessions m n' = Some r \<Longrightarrow> n = n'"
  using own_reg[OF mgr_own] by metis


text \<open>The default is set before a session that is not connected is reconnected with new credentials.\<close>

lemma abs_reconnect_with:
  assumes I: "mgr_inv m" and reg: "sessions m n = Some r" and t: "target (objs m r) = Some (u, h, p)"
    and R: "reconnectSSH N r (set_creds pw key r (m\<lparr>defaultName := n\<rparr>)) = (e, m')"
  shows "abs_mgr m' = rg_put n (RemoteEntry u h p (e = None)) (abs_mgr m)"
proof -
  let ?m1 = "m\<lparr>defaultName := n\<rparr>" and ?m2 = "set_creds pw key r (m\<lparr>defaultName := n\<rparr>)"
  have J: "mgr_inv ?m2" by (rule mgr_set_creds[OF mgr_set_default[OF I]]) (use reg in auto)
  have v: "view (objs ?m2 r') = view (objs m r')" for r'
    unfolding view_def by (simp add: set_creds_def Let_def cong: option.case_cong)
  have a: "abs_mgr ?m2 = (abs_mgr m)\<lparr>rg_default := n\<rparr>" using abs_same[of ?m2 m] v by simp
  have "abs_mgr m' = (abs_mgr ?m2)\<lparr>rg_entries := (rg_entries (abs_mgr ?m2))(n \<mapsto> RemoteEntry u h p (e = None))\<rparr>"
    by (rule abs_reconnect(1)[OF J _ _ R]) (use reg t in auto)
  then show ?thesis by (simp add: a rg_put_def)
qed

lemma abs_default: "abs_mgr (m\<lparr>defaultName := n\<rparr>) = (abs_mgr m)\<lparr>rg_default := n\<rparr>"
  by (simp add: abs_mgr_def)

lemma rg_put_same: "rg_entries g n = Some e \<Longrightarrow> rg_put n e g = g\<lparr>rg_default := n\<rparr>"
  by (auto simp: rg_put_def intro!: registry_eqI)

lemma rg_connect_known:
  "rg_entries g n = Some (RemoteEntry u h p True) \<Longrightarrow> rg_connect up n u h p g = (True, g\<lparr>rg_default := n\<rparr>)"
  "rg_entries g n = Some (RemoteEntry u h p False) \<Longrightarrow> rg_connect up n u h p g = (up, rg_put n (RemoteEntry u h p up) g)"
  using rg_put_same[of g n] by (auto simp: rg_connect_def)

lemma connect_refines_fresh:
  assumes I: "mgr_inv m" and C: "ConnectSSH N await now name u h p pw key m = (res, m')"
    and None: "sessions m (ssh_name name u h) = None"
  shows "\<exists>up. rg_connect up (ssh_name name u h) u h p (abs_mgr m) = (is_ok res, abs_mgr m')"
proof -
  let ?n = "ssh_name name u h"
  show ?thesis
  proof (cases res)
    case (Inl e)
    note F = ConnectSSH_fresh_fail[OF I None C[unfolded Inl]]
    have "view (objs m' r) = view (objs m r)" if "sessions m n = Some r" for n r
      using F(5) own_reg[OF mgr_own[OF I] that] by simp
    then have "abs_mgr m' = (abs_mgr m)\<lparr>rg_default := ''''\<rparr>" using abs_same[OF F(2)] F(4) by simp
    then show ?thesis using None Inl by (intro exI[of _ False]) (simp add: rg_connect_def is_ok_def)
  next
    case (Inr r)
    note F = ConnectSSH_fresh_ok[OF I None C[unfolded Inr]]
    have "GetClient (objs m' r) \<noteq> None" using F(6) by (auto simp: GetSSHClient_def split: option.splits)
    then have "view (objs m' r) = RemoteEntry u h p True" using F(7) by (simp add: view_eq target_same)
    moreover have "view (objs m' r') = view (objs m r')" if "sessions m n' = Some r'" for n' r'
      using F(2,8) own_reg[OF mgr_own[OF I] that] by simp
    ultimately have "abs_mgr m' = rg_put ?n (RemoteEntry u h p True) (abs_mgr m)"
      using abs_put[OF F(3)] F(4) by (simp add: rg_put_def)
    then show ?thesis using None Inr by (intro exI[of _ True]) (simp add: rg_connect_def is_ok_def)
  qed
qed

lemma connect_refines:
  assumes I: "mgr_inv m" and C: "ConnectSSH N await now name u h p pw key m = (res, m')"
  shows "\<exists>up. rg_connect up (ssh_name name u h) u h p (abs_mgr m) = (is_ok res, abs_mgr m')"
proof (cases "sessions m (ssh_name name u h)")
  case None
  then show ?thesis by (rule connect_refines_fresh[OF I C])
next
  case (Some r)
  let ?n = "ssh_name name u h" and ?m1 = "m\<lparr>defaultName := ssh_name name u h\<rparr>"
  note X = C[unfolded ConnectSSH_existing[OF Some] Let_def]
  show ?thesis
  proof (cases "target (objs m r) = Some (u, h, p)")
    case False
    then have "is_ok res = False" "m' = m" using X by (auto simp: target_same is_ok_def)
    moreover have "rg_connect False ?n u h p (abs_mgr m) = (False, abs_mgr m)"
      using Some False by (auto simp: rg_connect_def view_def split: option.splits)
    ultimately show ?thesis by auto
  next
    case True
    show ?thesis
    proof (cases "GetClient (objs m r)")
      case (Some c)
      then have "GetStatus (objs m r) = StatusConnected" using settled_view[OF I \<open>sessions m ?n = Some r\<close> True] by simp
      then have "res = Inr r" "m' = ?m1" using X True by (auto simp: target_same)
      moreover have "rg_entries (abs_mgr m) ?n = Some (RemoteEntry u h p True)" using \<open>sessions m ?n = Some r\<close> True Some by (simp add: view_eq)
      note rg_connect_known(1)[OF this]
      ultimately show ?thesis by (simp add: is_ok_def abs_default)
    next
      case None
      then have "GetStatus (objs m r) = StatusOffline" using settled_view[OF I Some True] by simp
      then obtain e where R: "reconnectSSH N r (set_creds pw key r ?m1) = (e, m')" "is_ok res = (e = None)"
        using X True by (auto simp: target_same is_ok_def split: prod.splits option.splits)
      have "rg_entries (abs_mgr m) ?n = Some (RemoteEntry u h p False)" using Some True None by (simp add: view_eq)
      note rg_connect_known(2)[OF this]
      then show ?thesis using abs_reconnect_with[OF I Some True R(1)] R(2) by auto
    qed
  qed
qed

lemma local_refines:
  assumes I: "mgr_inv m" and C: "ConnectLocal u now name m = (res, m')"
  shows "rg_local (if name = '''' then ''local'' else name) (abs_mgr m) = (is_ok res, abs_mgr m')"
proof -
  define n where "n = (if name = '''' then ''local'' else name)"
  note X = C[unfolded ConnectLocal_def Let_def, folded n_def]
  have "rg_local n (abs_mgr m) = (is_ok res, abs_mgr m')"
  proof (cases "sessions m n")
    case (Some r)
    show ?thesis
    proof (cases "IsLocalSession (objs m r)")
      case True
      then have "rg_entries (abs_mgr m) n = Some LocalEntry" using Some by (simp add: view_eq target_local)
      moreover have "res = Inr r" "m' = m\<lparr>defaultName := n\<rparr>" using X Some True by auto
      ultimately show ?thesis by (simp add: rg_local_def is_ok_def abs_default rg_put_same del: abs_sel)
    next
      case False
      then obtain us h p where "target (objs m r) = Some (us, h, p)" by (cases "target (objs m r)") (auto simp: target_local)
      then show ?thesis using X Some False by (auto simp: rg_local_def view_def is_ok_def)
    qed
  next
    case None
    let ?s = "Local \<lparr>l_Name = n, l_Host = ''local'', l_User = osUser u,
                 l_Status = StatusConnected, l_CreatedAt = now, l_LastCmd = ''''\<rparr>"
    have m': "m' = (snd (alloc ?s m))\<lparr>sessions := (sessions m)(n \<mapsto> nextRef m), defaultName := n\<rparr>" "res = Inr (nextRef m)"
      using X None by (auto simp: alloc_def)
    have "view (objs m' r') = view (objs m r')" if "sessions m n' = Some r'" for n' r'
      using own_reg[OF mgr_own[OF I] that] by (simp add: m')
    then have "abs_mgr m' = rg_put n LocalEntry (abs_mgr m)"
      using abs_put[of m' m n "nextRef m"] by (simp add: m' rg_put_def view_def)
    then show ?thesis using None m' by (simp add: rg_local_def is_ok_def)
  qed
  then show ?thesis by (simp add: n_def)
qed

lemma kill_refines:
  assumes I: "mgr_inv m" and N: "\<forall>c. close_err N c \<noteq> Some (Errorf ''session not found'' [])"
    and C: "Kill N name m = (e, m')"
  shows "rg_kill name (abs_mgr m) = (e \<noteq> Some (Errorf ''session not found'' []), abs_mgr m')"
proof -
  have n: "default_if_empty name m = rg_name name (abs_mgr m)" by (simp add: default_if_empty_def rg_name_def)
  show ?thesis
  proof (cases "sessions m (default_if_empty name m)")
    case None
    then have "m' = m" "e = Some (Errorf ''session not found'' [])" using C by (auto simp: Kill_def Let_def)
    then show ?thesis using None by (simp add: Let_def rg_kill_def n)
  next
    case (Some r)
    let ?n = "default_if_empty name m"
    have K: "close_session N r (forget ?n m) = (e, m')" using C Some by (simp add: Kill_def Let_def)
    have "e \<noteq> Some (Errorf ''session not found'' [])"
      using K N by (auto simp: close_session_eq close_client_def Let_def split: option.splits prod.splits)
    moreover have "abs_mgr m' = (abs_mgr m)\<lparr>rg_entries := (rg_entries (abs_mgr m))(?n := None),
       rg_default := (if defaultName m = ?n then '''' else defaultName m)\<rparr>"
    proof (rule registry_eqI)
      fix k
      have m': "m' = snd (close_session N r (forget ?n m))" using K by simp
      show "rg_entries (abs_mgr m') k = rg_entries ((abs_mgr m)\<lparr>rg_entries := (rg_entries (abs_mgr m))(?n := None),
         rg_default := (if defaultName m = ?n then '''' else defaultName m)\<rparr>) k"
        using reg_distinct[OF I Some, of k] by (cases "sessions m k") (auto simp: m' forget_def)
    next
      show "rg_default (abs_mgr m') = rg_default ((abs_mgr m)\<lparr>rg_entries := (rg_entries (abs_mgr m))(?n := None),
         rg_default := (if defaultName m = ?n then '''' else defaultName m)\<rparr>)"
        using close_session_sel(2)[of N r "forget ?n m", unfolded K] by (simp add: forget_def)
    qed
    ultimately show ?thesis using Some by (simp add: rg_kill_def Let_def n[symmetric])
  qed
qed

lemma rg_use_known:
  "rg_entries g (rg_name name g) = Some (RemoteEntry u h p True) \<Longrightarrow> rg_use up name g = (True, g\<lparr>rg_default := rg_name name g\<rparr>)"
  "rg_entries g (rg_name name g) = Some (RemoteEntry u h p False) \<Longrightarrow>
     rg_use up name g = (up, rg_put (rg_name name g) (RemoteEntry u h p up) g)"
  "rg_entries g (rg_name name g) = Some LocalEntry \<Longrightarrow> rg_use up name g = (True, g\<lparr>rg_default := rg_name name g\<rparr>)"
  using rg_put_same[of g "rg_name name g"] by (auto simp: rg_use_def Let_def)

lemma use_refines:
  assumes I: "mgr_inv m" and C: "Use N name pw key m = (e, m')"
  shows "\<exists>up. rg_use up name (abs_mgr m) = (e = None, abs_mgr m')"
proof -
  define n where "n = rg_name name (abs_mgr m)"
  have d: "default_if_empty name m = n" by (simp add: default_if_empty_def rg_name_def n_def)
  note X = C[unfolded Use_def Let_def d] and K = rg_use_known[of "abs_mgr m" name, folded n_def]
  show ?thesis
  proof (cases "sessions m n")
    case None
    then have "m' = m" "e \<noteq> None" using X by auto
    moreover have "rg_use True name (abs_mgr m) = (False, abs_mgr m)" using None by (simp add: rg_use_def Let_def n_def)
    ultimately show ?thesis by auto
  next
    case (Some r)
    show ?thesis
    proof (cases "target (objs m r)")
      case None
      then have "rg_entries (abs_mgr m) n = Some LocalEntry" using Some by (simp add: view_eq)
      note K(3)[OF this]
      moreover have "e = None" "m' = m\<lparr>defaultName := n\<rparr>" using X Some None by (auto simp: target_local)
      ultimately show ?thesis by (simp add: abs_default)
    next
      case t: (Some t)
      obtain u h p where T: "target (objs m r) = Some (u, h, p)" using t by (cases t) auto
      show ?thesis
      proof (cases "GetClient (objs m r)")
        case (Some c)
        have "rg_entries (abs_mgr m) n = Some (RemoteEntry u h p True)" using \<open>sessions m n = Some r\<close> T Some by (simp add: view_eq)
        note K(1)[OF this]
        moreover have "e = None" "m' = m\<lparr>defaultName := n\<rparr>"
          using X \<open>sessions m n = Some r\<close> settled_view[OF I \<open>sessions m n = Some r\<close> T] Some T by (auto simp: target_local)
        ultimately show ?thesis by (simp add: abs_default)
      next
        case None
        have "rg_entries (abs_mgr m) n = Some (RemoteEntry u h p False)" using Some T None by (simp add: view_eq)
        note K(2)[OF this]
        moreover have "reconnectSSH N r (set_creds pw key r (m\<lparr>defaultName := n\<rparr>)) = (e, m')"
          using X Some settled_view[OF I Some T] None T by (auto simp: target_local)
        note abs_reconnect_with[OF I Some T this]
        ultimately show ?thesis by simp
      qed
    qed
  qed
qed

lemma reconnect_refines:
  assumes I: "mgr_inv m" and C: "Reconnect N name m = (res, m')"
  shows "\<exists>up. rg_reconnect up name (abs_mgr m) = (is_ok res, abs_mgr m')"
proof (cases "sessions m name")
  case None
  then show ?thesis using C by (auto simp: Reconnect_def rg_reconnect_def is_ok_def)
next
  case (Some r)
  show ?thesis
  proof (cases "target (objs m r)")
    case None
    then have "view (objs m r) = LocalEntry" by (simp add: view_eq)
    then show ?thesis using C Some None by (auto simp: Reconnect_def rg_reconnect_def is_ok_def target_local)
  next
    case t: (Some t)
    obtain u h p where T: "target (objs m r) = Some (u, h, p)" using t by (cases t) auto
    obtain e where R: "reconnectSSH N r m = (e, m')" "is_ok res = (e = None)"
      using C Some T by (auto simp: Reconnect_def is_ok_def target_local split: prod.splits option.splits)
    have "view (objs m r) = RemoteEntry u h p (GetClient (objs m r) \<noteq> None)" using T by (simp add: view_eq)
    then show ?thesis using abs_reconnect(1)[OF I Some T R(1)] R(2) Some
      by (auto simp: rg_reconnect_def)
  qed
qed

lemma offline_refines:
  assumes I: "mgr_inv m" and "sessions m n = None"
  shows "abs_mgr (RegisterOfflineSession n u h p key t m) = rg_offline n u h p (abs_mgr m)"
proof -
  let ?s = "SSH \<lparr>s_Name = n, s_Host = h, s_User = u, s_Port = p,
            s_Password = '''', s_KeyPath = key, s_Status = StatusOffline, s_Client = None,
            s_CreatedAt = t, s_LastCmd = ''''\<rparr>"
  have m': "RegisterOfflineSession n u h p key t m =
     (snd (alloc ?s m))\<lparr>sessions := (sessions m)(n \<mapsto> nextRef m), defaultName := defaultName m\<rparr>"
    by (simp add: RegisterOfflineSession_def Let_def alloc_def)
  have "view (objs m r) = view (objs (RegisterOfflineSession n u h p key t m) r)" if "sessions m n' = Some r" for n' r
    using own_reg[OF mgr_own[OF I] that] by (simp add: m')
  then have "abs_mgr (RegisterOfflineSession n u h p key t m) =
    (abs_mgr m)\<lparr>rg_entries := (rg_entries (abs_mgr m))(n \<mapsto> RemoteEntry u h p False)\<rparr>"
    using abs_put[of "RegisterOfflineSession n u h p key t m" m n "nextRef m"]
    by (simp add: m' view_def)
  then show ?thesis by (simp add: rg_offline_def)
qed

lemma op_refines:
  assumes I: "mgr_inv m" and ok: "op_ok E a m" and A: "mgr_op E a m = (b, m')"
  shows "\<exists>up. rg_op up a (abs_mgr m) = (b, abs_mgr m')"
proof (cases a)
  case (OConnect name u h p pw key)
  obtain res where "ConnectSSH (oe_net E) (oe_await E) (oe_now E) name u h p pw key m = (res, m')" "b = is_ok res"
    using A OConnect by (auto simp: mgr_op_def split: prod.splits)
  then show ?thesis using connect_refines[OF I] OConnect by (simp add: rg_op_def)
next
  case (OLocal name)
  obtain res where "ConnectLocal (oe_user E) (oe_now E) name m = (res, m')" "b = is_ok res"
    using A OLocal by (auto simp: mgr_op_def split: prod.splits)
  then show ?thesis using local_refines[OF I] OLocal by (auto simp: rg_op_def)
next
  case (OKill name)
  have "Kill (oe_net E) name m = (fst (Kill (oe_net E) name m), m')"
    "b \<longleftrightarrow> fst (Kill (oe_net E) name m) \<noteq> Some (Errorf ''session not found'' [])"
    using A OKill by (simp_all add: mgr_op_def prod_eq_iff)
  then show ?thesis using kill_refines[OF I, of "oe_net E" name _ m'] ok OKill
    by (simp add: rg_op_def op_ok_def)
next
  case OKillAll
  then have "range_order (sessions m) (oe_keys E)" using ok by (simp add: op_ok_def)
  note K = KillAll_state[OF I this]
  have "abs_mgr (KillAll (oe_net E) (oe_keys E) m) = empty_registry"
    by (rule registry_eqI) (simp_all add: K empty_registry_def)
  then show ?thesis using A OKillAll by (auto simp: rg_op_def mgr_op_def)
next
  case (OUse name pw key)
  obtain e where "Use (oe_net E) name pw key m = (e, m')" "b = (e = None)"
    using A OUse by (auto simp: mgr_op_def split: prod.splits)
  then show ?thesis using use_refines[OF I] OUse by (simp add: rg_op_def)
next
  case (OReconnect name)
  obtain res where "Reconnect (oe_net E) name m = (res, m')" "b = is_ok res"
    using A OReconnect by (auto simp: mgr_op_def split: prod.splits)
  then show ?thesis using reconnect_refines[OF I] OReconnect by (simp add: rg_op_def)
next
  case (OOffline n u h p key t)
  then show ?thesis using offline_refines[OF I] ok A by (auto simp: rg_op_def mgr_op_def op_ok_def)
qed

lemma mgr_op_inv: "mgr_inv m \<Longrightarrow> op_ok E a m \<Longrightarrow> mgr_inv (snd (mgr_op E a m))"
  by (cases a)
     (auto simp: mgr_op_def op_ok_def split: prod.splits
       intro: ConnectSSH_ok ConnectLocal_ok KillAll_ok Use_ok Reconnect_ok RegisterOfflineSession_ok
         Kill_ok[OF _ prod.collapse[symmetric]])

text \<open>A client, as a sequence of operations: the answers and the state it leaves behind.\<close>

fun answers :: "('e \<Rightarrow> 'o \<Rightarrow> 's \<Rightarrow> 'b \<times> 's) \<Rightarrow> ('e \<times> 'o) list \<Rightarrow> 's \<Rightarrow> 'b list \<times> 's" where
  "answers f [] s = ([], s)"
| "answers f ((e, a) # xs) s = (let (b, s1) = f e a s; (bs, s2) = answers f xs s1 in (b # bs, s2))"

fun all_ok :: "('e \<Rightarrow> 'o \<Rightarrow> 's \<Rightarrow> bool) \<Rightarrow> ('e \<Rightarrow> 'o \<Rightarrow> 's \<Rightarrow> 'b \<times> 's) \<Rightarrow> ('e \<times> 'o) list \<Rightarrow> 's \<Rightarrow> bool" where
  "all_ok ok f [] s \<longleftrightarrow> True"
| "all_ok ok f ((e, a) # xs) s \<longleftrightarrow> ok e a s \<and> all_ok ok f xs (snd (f e a s))"

text \<open>
  A concrete machine refines an abstract one: its operations keep an invariant, and each gives the
  answer that the abstract one gives for some choice of what the environment did to it.  Then the
  same holds of sequences.
\<close>

locale machine_refinement =
  fixes inv :: "'c \<Rightarrow> bool" and ok :: "'e \<Rightarrow> 'o \<Rightarrow> 'c \<Rightarrow> bool" and cop :: "'e \<Rightarrow> 'o \<Rightarrow> 'c \<Rightarrow> 'b \<times> 'c"
    and aop :: "'u \<Rightarrow> 'o \<Rightarrow> 'a \<Rightarrow> 'b \<times> 'a" and abs :: "'c \<Rightarrow> 'a"
  assumes keeps_inv: "inv s \<Longrightarrow> ok e a s \<Longrightarrow> inv (snd (cop e a s))"
    and refines_op: "inv s \<Longrightarrow> ok e a s \<Longrightarrow> cop e a s = (b, s') \<Longrightarrow> \<exists>u. aop u a (abs s) = (b, abs s')"
begin

lemma answers_inv: "inv s \<Longrightarrow> all_ok ok cop xs s \<Longrightarrow> inv (snd (answers cop xs s))"
  by (induction xs arbitrary: s) (auto simp: split_beta dest: keeps_inv)

lemma answers_refine:
  "inv s \<Longrightarrow> all_ok ok cop xs s \<Longrightarrow>
   \<exists>us. map snd us = map snd xs \<and> answers aop us (abs s) = (fst (answers cop xs s), abs (snd (answers cop xs s)))"
proof (induction xs arbitrary: s)
  case Nil
  then show ?case by simp
next
  case (Cons x xs)
  obtain e a where x: "x = (e, a)" by fastforce
  obtain b s1 where A: "cop e a s = (b, s1)" by fastforce
  obtain u where u: "aop u a (abs s) = (b, abs s1)" using refines_op[OF _ _ A] Cons.prems x by auto
  have "inv s1" using keeps_inv[of s e a] Cons.prems A x by simp
  then obtain us where "map snd us = map snd xs" "answers aop us (abs s1) = (fst (answers cop xs s1), abs (snd (answers cop xs s1)))"
    using Cons.IH[of s1] Cons.prems(2) A x by auto
  then show ?case using u A x by (intro exI[of _ "(u, a) # us"]) (simp add: split_beta)
qed

end

interpretation mgr_registry_table: machine_refinement mgr_inv op_ok mgr_op rg_op abs_mgr
  using mgr_op_inv op_refines by unfold_locales

section \<open>Lemmas: objects keep their target\<close>

text \<open>Objects that exist before keep what they connect to, and none is ever reused.\<close>

definition keeps_targets :: "manager \<Rightarrow> manager \<Rightarrow> bool" where
  "keeps_targets m m' \<longleftrightarrow> nextRef m \<le> nextRef m' \<and> (\<forall>r < nextRef m. target (objs m' r) = target (objs m r))"

lemma keeps_refl [simp]: "keeps_targets m m" "keeps_targets m (m\<lparr>defaultName := n\<rparr>)"
  by (simp_all add: keeps_targets_def)

lemma keeps_trans: "keeps_targets m m1 \<Longrightarrow> keeps_targets m1 m2 \<Longrightarrow> keeps_targets m m2"
  by (auto simp: keeps_targets_def)

lemma keeps_reconnect: "reconnectSSH N r m = (e, m') \<Longrightarrow> keeps_targets m m'"
proof -
  assume R: "reconnectSSH N r m = (e, m')"
  have "nextRef (snd (reconnect_dial N r (detached N r m))) = nextRef m"
    unfolding reconnect_dial_def Let_def by simp
  moreover have "nextRef (snd (reconnect_adopt N r c m4)) = nextRef m4" for c m4
    by (simp add: reconnect_adopt_def)
  ultimately have "nextRef m' = nextRef m"
    using R unfolding reconnectSSH_unfold by (auto split: prod.splits sum.splits if_splits) (metis snd_conv)+
  then show ?thesis using reconnectSSH_target[OF R] by (simp add: keeps_targets_def)
qed

lemma keeps_creds: "reconnectSSH N r (set_creds pw key r (m\<lparr>defaultName := n\<rparr>)) = (e, m') \<Longrightarrow> keeps_targets m m'"
  using keeps_reconnect[of N r "set_creds pw key r (m\<lparr>defaultName := n\<rparr>)"] by (auto simp: keeps_targets_def)

lemma keeps_ConnectSSH:
  assumes C: "ConnectSSH N await now name u h p pw key m = (res, m')"
  shows "keeps_targets m m'"
proof (cases "sessions m (ssh_name name u h)")
  case None
  let ?n = "ssh_name name u h"
  define m1 where "m1 = (snd (alloc (new_session now ?n u h p pw key) m))
                  \<lparr>sessions := (sessions m)(?n \<mapsto> nextRef m), defaultName := ?n\<rparr>"
  obtain x m2 where x: "connect N u h p \<lparr>auth_Password = pw, auth_KeyPath = key\<rparr> m1 = (x, m2)" by fastforce
  note cs = connect_sel[of N u h p "\<lparr>auth_Password = pw, auth_KeyPath = key\<rparr>" m1, unfolded x snd_conv]
  show ?thesis
    using C[unfolded ConnectSSH_fresh[OF None] m1_def[symmetric] x] cs
    by (cases x) (auto simp: keeps_targets_def m1_def forget_def connect_adopt_def split: if_splits)
next
  case (Some r)
  then show ?thesis using C unfolding ConnectSSH_existing[OF Some] Let_def
    by (auto split: if_splits status.splits prod.splits option.splits dest: keeps_creds)
qed

lemma keeps_close_all: "keeps_targets m (close_all N rs m)"
proof (induction rs arbitrary: m)
  case (Cons r rs)
  have "keeps_targets m (snd (close_session N r m))" by (simp add: keeps_targets_def)
  then show ?case using Cons[of "snd (close_session N r m)"] by (auto dest: keeps_trans)
qed simp

lemma keeps_step: "mgr_step N m m' \<Longrightarrow> keeps_targets m m'"
proof (induction rule: mgr_step.induct)
  case (step_ConnectSSH await now name user host port pw key m res m')
  then show ?case by (rule keeps_ConnectSSH)
next
  case (step_ConnectLocal u now name m lres m')
  then show ?case
    by (auto simp: ConnectLocal_def Let_def keeps_targets_def alloc_def split: option.splits if_splits)
next
  case (step_Kill name m e m')
  then have "m' = m \<or> (\<exists>r. m' = snd (close_session N r (forget (default_if_empty name m) m)))"
    by (auto simp: Kill_def Let_def split: option.splits) (metis snd_conv)
  then show ?case by (auto simp: keeps_targets_def forget_def)
next
  case (step_KillAll m ks)
  have "keeps_targets m (m\<lparr>sessions := Map.empty, defaultName := ''''\<rparr>)" by (simp add: keeps_targets_def)
  then show ?case unfolding KillAll_def using keeps_close_all keeps_trans by blast
next
  case (step_Use name pw key m e m')
  then show ?case
    by (auto simp: Use_def Let_def split: option.splits if_splits status.splits dest: keeps_creds)
next
  case (step_Reconnect name m res m')
  then show ?case by (auto simp: Reconnect_def split: option.splits if_splits prod.splits dest: keeps_reconnect)
next
  case (step_Register m name user host port key t)
  then show ?case by (auto simp: RegisterOfflineSession_def Let_def keeps_targets_def alloc_def)
qed (auto simp: keeps_targets_def)

section \<open>Properties\<close>


text \<open>Connect, switch to a second name that does not exist, kill the default: done, refused, done.\<close>

definition demo_env :: op_env where
  "demo_env = \<lparr>oe_net = demo_net, oe_keys = [], oe_await = (\<lambda>_. Inr 0), oe_now = 7, oe_user = Inr ''me''\<rparr>"

definition demo_ops :: "(op_env \<times> op) list" where
  "demo_ops = [(demo_env, OConnect '''' ''u'' ''h'' 22 ''pw'' ''''), (demo_env, OUse ''x'' '''' ''''), (demo_env, OKill '''')]"


text \<open>
  C20: a session object never changes its kind or the user, host and port it connects to, whatever
  operation is performed on the manager: a reference once obtained, for the daemon's type
  assertions and for a dial in flight, stays what it was.  References are never reused.
\<close>

theorem session_type_stable:
  assumes "(mgr_step N)\<^sup>*\<^sup>* m m'" and "r < nextRef m"
  shows "IsLocalSession (objs m' r) = IsLocalSession (objs m r) \<and> target (objs m' r) = target (objs m r)
    \<and> r < nextRef m'"
proof -
  have "keeps_targets m m'" using assms(1)
    by (induction rule: rtranclp_induct) (auto intro: keeps_trans keeps_step)
  then show ?thesis using assms(2) by (auto simp: keeps_targets_def target_local)
qed

theorem session_type_stable_witness:
  "(mgr_step demo_net)\<^sup>*\<^sup>* demo_up (KillAll demo_net [''u@h''] demo_up)
   \<and> target (objs (KillAll demo_net [''u@h''] demo_up) 0) = Some (''u'', ''h'', 22)"
proof -
  have s: "(mgr_step demo_net)\<^sup>*\<^sup>* demo_up (KillAll demo_net [''u@h''] demo_up)"
    by (rule r_into_rtranclp, rule step_KillAll) (simp add: range_order_def demo_up_sel)
  have "0 < nextRef demo_up" using own_reg[OF mgr_own[OF demo_up_inv], of "''u@h''" 0] by (simp add: demo_up_sel)
  from session_type_stable[OF s this] demo_up_sel(6) s show ?thesis by (simp add: target_same)
qed

end
