(* ===== verification/Port_Forward.thy ===== *)
theory Port_Forward
  imports Session_Manager
begin

text \<open>
  \<open>internal/portforward/forwarder.go\<close>: one forward (\<open>Forwarder\<close>: create, start, accept loops,
  close, restart) and the service that keeps them by id (\<open>Add\<close>, \<open>List\<close>, \<open>Close\<close>, \<open>RestartAll\<close>).
  Listening sockets and accepted connections are identified by numbers in the state \<open>fstate\<close>;
  what the operating system and the SSH connection answer are the fields of \<open>fnet\<close>.
\<close>

section \<open>Resolving session names\<close>

text \<open>
  What the components that run something on a session rely on: the name they give resolves, an
  empty one to the default, and the canonical name of the session they got resolves to it again.
\<close>

locale session_registry =
  fixes inv :: "'m \<Rightarrow> bool" and get :: "string \<Rightarrow> 'm \<Rightarrow> 'r res"
    and name_of :: "'m \<Rightarrow> 'r \<Rightarrow> string" and default :: "'m \<Rightarrow> string"
  assumes get_name: "inv m \<Longrightarrow> get n m = Inr r \<Longrightarrow> name_of m r = (if n = '''' then default m else n)"
    and get_default: "get '''' m = get (default m) m"
begin

lemma get_canonical: "inv m \<Longrightarrow> get n m = Inr r \<Longrightarrow> get (name_of m r) m = Inr r"
  using get_name[of m n r] get_default[of m] by (auto split: if_splits)

lemma get_same_session:
  "inv m \<Longrightarrow> get n m = Inr r \<Longrightarrow> get n' m = Inr r' \<Longrightarrow> r = r' \<longleftrightarrow> name_of m r = name_of m r'"
  using get_canonical by (metis sum.inject(2))

end

lemma default_if_empty_default: "default_if_empty (defaultName m) m = defaultName m"
  by (simp add: default_if_empty_def)

interpretation mgr_registry: session_registry mgr_inv Get "\<lambda>m r. GetName (objs m r)" defaultName
proof
  show "mgr_inv m \<Longrightarrow> Get n m = Inr r \<Longrightarrow> GetName (objs m r) = (if n = '''' then defaultName m else n)" for m n r
    using own_reg[OF mgr_own, of m _ r] by (auto simp: Get_def default_if_empty_def split: option.splits)
  show "Get '''' m = Get (defaultName m) m" for m
    by (simp add: Get_def default_if_empty_def)
qed

section \<open>Forwarders\<close>

type_synonym lid = nat
type_synonym conn_id = nat

record Forwarder =
  f_ID :: string
  f_Session :: string
  f_Type :: string
  f_LocalPort :: int
  f_RemotePort :: int
  f_BindAddr :: string
  f_sshClient :: "cid option"
  f_listener :: "lid option"
  f_conns :: "conn_id set"
  f_closed :: bool
  f_loops :: nat

record fnet =
  tcp_listen :: "nat \<Rightarrow> string \<Rightarrow> go_err option"
  ssh_listen :: "nat \<Rightarrow> cid \<Rightarrow> string \<Rightarrow> go_err option"

record fstate =
  openL :: "lid set"
  nextL :: lid
  openC :: "conn_id set"
  listens :: nat

text \<open>A listen that fails with \<open>e\<close>, or the new listener.\<close>

definition listen :: "go_err option \<Rightarrow> fstate \<Rightarrow> lid res \<times> fstate" where
  "listen e S =
     (case e of
        Some x \<Rightarrow> (Inl x, S\<lparr>listens := Suc (listens S)\<rparr>)
      | None \<Rightarrow> (Inr (nextL S), S\<lparr>listens := Suc (listens S), nextL := Suc (nextL S),
                                  openL := insert (nextL S) (openL S)\<rparr>))"

definition local_addr :: "int \<Rightarrow> string" where
  "local_addr port = ''localhost:'' @ Itoa port"

definition NewForwarder ::
  "fnet \<Rightarrow> string \<Rightarrow> cid option \<Rightarrow> string \<Rightarrow> int \<Rightarrow> int \<Rightarrow> string \<Rightarrow> fstate \<Rightarrow> Forwarder res \<times> fstate" where
  "NewForwarder FN uuid client forwardType localPort remotePort bindAddr S =
     (let bindAddr = (if bindAddr = '''' then ''127.0.0.1'' else bindAddr);
          f = \<lparr>f_ID = uuid, f_Session = '''', f_Type = forwardType, f_LocalPort = localPort,
               f_RemotePort = remotePort, f_BindAddr = bindAddr, f_sshClient = client,
               f_listener = None, f_conns = {}, f_closed = False, f_loops = 0\<rparr>
      in if forwardType = ''local''
         then (case listen (tcp_listen FN (listens S) (local_addr localPort)) S of
                 (Inl e, S1) \<Rightarrow> (Inl (Errorf ''failed to listen on %s: %w'' [AStr (local_addr localPort), AErr e]), S1)
               | (Inr l, S1) \<Rightarrow> (Inr (f\<lparr>f_listener := Some l\<rparr>), S1))
         else if forwardType = ''remote'' then (Inr f, S)
         else (Inl (Errorf ''invalid forward type: %s'' [AStr forwardType]), S))"

text \<open>Starting a loop is one more goroutine on the wait group.\<close>

definition startLocalForward :: "Forwarder \<Rightarrow> Forwarder" where
  "startLocalForward f = f\<lparr>f_loops := Suc (f_loops f)\<rparr>"

definition startRemoteForward :: "fnet \<Rightarrow> Forwarder \<Rightarrow> fstate \<Rightarrow> go_err option \<times> Forwarder \<times> fstate" where
  "startRemoteForward FN f S =
     (case f_sshClient f of
        None \<Rightarrow> (Some (Errorf ''SSH client is nil, cannot start remote forward'' []), f, S)
      | Some c \<Rightarrow>
          (case listen (ssh_listen FN (listens S) c (JoinHostPort (f_BindAddr f) (Itoa (f_RemotePort f)))) S of
             (Inl e, S1) \<Rightarrow> (Some (Errorf ''failed to listen on remote port %d: %w'' [AInt (f_RemotePort f), AErr e]), f, S1)
           | (Inr l, S1) \<Rightarrow> (None, f\<lparr>f_listener := Some l, f_loops := Suc (f_loops f)\<rparr>, S1)))"

definition Start :: "fnet \<Rightarrow> Forwarder \<Rightarrow> fstate \<Rightarrow> go_err option \<times> Forwarder \<times> fstate" where
  "Start FN f S =
     (if f_closed f then (Some (Errorf ''forwarder is closed'' []), f, S)
      else if f_Type f = ''local'' then (None, startLocalForward f, S)
      else startRemoteForward FN f S)"

text \<open>Closing the listener and every tracked connection, the common part of \<open>Close\<close> and \<open>Restart\<close>.\<close>

definition shut :: "Forwarder \<Rightarrow> fstate \<Rightarrow> fstate" where
  "shut f S = S\<lparr>openL := openL S - set_option (f_listener f), openC := openC S - f_conns f\<rparr>"

text \<open>\<open>wg.Wait()\<close>: the loops have seen \<open>closed\<close> and returned (\<open>local_loop_exits\<close> below).\<close>

definition Forwarder_Close :: "Forwarder \<Rightarrow> fstate \<Rightarrow> Forwarder \<times> fstate" where
  "Forwarder_Close f S =
     (if f_closed f then (f, S) else (f\<lparr>f_closed := True, f_loops := 0\<rparr>, shut f S))"

definition Restart :: "fnet \<Rightarrow> cid option \<Rightarrow> Forwarder \<Rightarrow> fstate \<Rightarrow> Forwarder \<times> fstate" where
  "Restart FN client f S =
     (let S1 = (if f_closed f then S else shut f S);
          f1 = f\<lparr>f_conns := {}, f_loops := 0, f_sshClient := client, f_closed := False, f_listener := None\<rparr>
      in if f_Type f = ''local''
         then (case listen (tcp_listen FN (listens S1) (local_addr (f_LocalPort f))) S1 of
                 (Inr l, S2) \<Rightarrow> (startLocalForward (f1\<lparr>f_listener := Some l\<rparr>), S2)
               | (Inl _, S2) \<Rightarrow> (startLocalForward f1, S2))
         else if f_Type f = ''remote''
         then (case startRemoteForward FN f1 S1 of (_, f2, S2) \<Rightarrow> (f2, S2))
         else (f1, S1))"

section \<open>Accept loops\<close>

text \<open>
  One iteration of a loop reads the forwarder under the lock (\<open>f\<close>), blocks in \<open>Accept\<close>, and reads
  it again (\<open>f'\<close>, what others made of it meanwhile).
\<close>

datatype accepted = Accepted conn_id | AcceptTimeout | AcceptError

datatype loop_next = LExit | LAgain | LServe conn_id

definition local_iter :: "Forwarder \<Rightarrow> accepted \<Rightarrow> Forwarder \<Rightarrow> loop_next \<times> Forwarder" where
  "local_iter f a f' =
     (if f_closed f then (LExit, f')
      else case f_listener f of
             None \<Rightarrow> (LAgain, f')
           | Some l \<Rightarrow>
               (case a of
                  AcceptTimeout \<Rightarrow> (LAgain, f')
                | AcceptError \<Rightarrow> (if f_closed f' then LExit else LAgain, f')
                | Accepted c \<Rightarrow> (LServe c, f'\<lparr>f_conns := insert c (f_conns f')\<rparr>)))"

text \<open>The remote loop: the local dial \<open>d\<close> of an accepted connection may fail; any accept error ends
  the loop.\<close>

definition remote_iter :: "Forwarder \<Rightarrow> accepted \<Rightarrow> conn_id res \<Rightarrow> Forwarder \<Rightarrow> loop_next \<times> Forwarder" where
  "remote_iter f a d f' =
     (if f_closed f then (LExit, f')
      else case f_listener f of
             None \<Rightarrow> (LAgain, f')
           | Some l \<Rightarrow>
               (case a of
                  Accepted rc \<Rightarrow>
                    (case d of Inl _ \<Rightarrow> (LAgain, f')
                     | Inr c \<Rightarrow> (LServe c, f'\<lparr>f_conns := insert c (f_conns f')\<rparr>))
                | _ \<Rightarrow> (LExit, f')))"

text \<open>\<open>handleLocalConnection\<close>: the address dialled through the session, if any, and the forwarder and
  sockets once the copy has ended.\<close>

definition handleLocalConnection ::
  "conn_id \<Rightarrow> Forwarder \<Rightarrow> fstate \<Rightarrow> (cid \<times> string) option \<times> Forwarder \<times> fstate" where
  "handleLocalConnection c f S =
     (map_option (\<lambda>k. (k, ''127.0.0.1:'' @ Itoa (f_RemotePort f))) (f_sshClient f),
      f\<lparr>f_conns := f_conns f - {c}\<rparr>, S\<lparr>openC := openC S - {c}\<rparr>)"

section \<open>The service\<close>

record service =
  forwards :: "string \<rightharpoonup> Forwarder"
  sockets :: fstate

record ForwardInfo =
  i_ID :: string
  i_Session :: string
  i_Type :: string
  i_LocalPort :: int
  i_RemotePort :: int
  i_BindAddr :: string

definition info_of :: "Forwarder \<Rightarrow> ForwardInfo" where
  "info_of f = \<lparr>i_ID = f_ID f, i_Session = f_Session f, i_Type = f_Type f, i_LocalPort = f_LocalPort f,
                i_RemotePort = f_RemotePort f, i_BindAddr = f_BindAddr f\<rparr>"

definition NewService :: service where
  "NewService = \<lparr>forwards = Map.empty, sockets = \<lparr>openL = {}, nextL = 0, openC = {}, listens = 0\<rparr>\<rparr>"

definition sessionReadyTimeout :: nat where "sessionReadyTimeout = 20000"

definition Add ::
  "fnet \<Rightarrow> string \<Rightarrow> manager \<Rightarrow> (ref \<Rightarrow> nat \<Rightarrow> cid res) \<Rightarrow> string \<Rightarrow> string \<Rightarrow> int \<Rightarrow> int \<Rightarrow> string \<Rightarrow> service \<Rightarrow>
   ForwardInfo res \<times> service" where
  "Add FN uuid m await sessionName forwardType localPort remotePort bindAddr V =
     (case Get sessionName m of
        Inl e \<Rightarrow> (Inl e, V)
      | Inr r \<Rightarrow>
          if IsLocalSession (objs m r)
          then (Inl (Errorf ''port forwarding not available for local sessions'' []), V)
          else (case await r sessionReadyTimeout of
                  Inl e \<Rightarrow> (Inl e, V)
                | Inr c \<Rightarrow>
                    (case NewForwarder FN uuid (Some c) forwardType localPort remotePort bindAddr (sockets V) of
                       (Inl e, S1) \<Rightarrow> (Inl e, V\<lparr>sockets := S1\<rparr>)
                     | (Inr f, S1) \<Rightarrow>
                         let f = f\<lparr>f_Session := GetName (objs m r)\<rparr>;
                             V1 = V\<lparr>forwards := (forwards V)(f_ID f \<mapsto> f), sockets := S1\<rparr>
                         in (case Start FN f S1 of
                               (Some e, f2, S2) \<Rightarrow>
                                 (Inl e, V1\<lparr>forwards := (forwards V1)(f_ID f := None), sockets := S2\<rparr>)
                             | (None, f2, S2) \<Rightarrow>
                                 (Inr (info_of f2), V1\<lparr>forwards := (forwards V1)(f_ID f \<mapsto> f2), sockets := S2\<rparr>)))))"

definition Service_List :: "string list \<Rightarrow> service \<Rightarrow> ForwardInfo list" where
  "Service_List ks V = map (\<lambda>k. info_of (the (forwards V k))) ks"

text \<open>\<open>Close\<close> looks the forward up by its id or by an unambiguous prefix, for the map iteration order \<open>ks\<close>.\<close>

definition find_forward :: "string list \<Rightarrow> string \<Rightarrow> (string \<rightharpoonup> 'f) \<Rightarrow> (string \<times> 'f) res" where
  "find_forward ks forwardID fs =
     (if forwardID = [] then Inl (Errorf ''forward ID required'' [])
      else case fs forwardID of
             Some f \<Rightarrow> Inr (forwardID, f)
           | None \<Rightarrow>
               let matches = filter (\<lambda>i. HasPrefix i forwardID) ks
               in (case matches of
                     [] \<Rightarrow> Inl (Errorf ''forward not found'' [])
                   | [i] \<Rightarrow> Inr (i, the (fs i))
                   | _ \<Rightarrow> Inl (Errorf ''forward ID %q is ambiguous (%d matches)''
                             [AStr forwardID, AInt (int (length matches))])))"

definition Service_Close :: "string list \<Rightarrow> string \<Rightarrow> service \<Rightarrow> go_err option \<times> service" where
  "Service_Close ks forwardID V =
     (case find_forward ks forwardID (forwards V) of
        Inl e \<Rightarrow> (Some e, V)
      | Inr (i, f) \<Rightarrow> (None, V\<lparr>forwards := (forwards V)(i := None), sockets := snd (Forwarder_Close f (sockets V))\<rparr>))"

fun RestartAll :: "fnet \<Rightarrow> string list \<Rightarrow> string \<Rightarrow> cid option \<Rightarrow> service \<Rightarrow> service" where
  "RestartAll FN [] name client V = V"
| "RestartAll FN (k # ks) name client V =
     (let f = the (forwards V k) in
      if f_Session f = name
      then let (f1, S1) = Restart FN client f (sockets V)
           in RestartAll FN ks name client (V\<lparr>forwards := (forwards V)(k \<mapsto> f1), sockets := S1\<rparr>)
      else RestartAll FN ks name client V)"

section \<open>The service invariant\<close>

text \<open>
  Every registered forward is open, has its own id and at most one accept loop; the open listeners
  are exactly the listeners of the registered forwards, and no two forwards share one.
\<close>

definition svc_inv :: "service \<Rightarrow> bool" where
  "svc_inv V \<longleftrightarrow>
     (\<forall>k f. forwards V k = Some f \<longrightarrow> f_ID f = k \<and> \<not> f_closed f \<and> f_loops f \<le> 1)
     \<and> (\<forall>k f k' f' l. forwards V k = Some f \<longrightarrow> forwards V k' = Some f' \<longrightarrow> f_listener f = Some l \<longrightarrow>
           f_listener f' = Some l \<longrightarrow> k = k')
     \<and> (\<forall>l. l \<in> openL (sockets V) \<longleftrightarrow> (\<exists>k f. forwards V k = Some f \<and> f_listener f = Some l))
     \<and> (\<forall>l\<in>openL (sockets V). l < nextL (sockets V))"

lemma svc_invD:
  assumes "svc_inv V"
  shows svc_entry: "\<And>k f. forwards V k = Some f \<Longrightarrow> f_ID f = k \<and> \<not> f_closed f \<and> f_loops f \<le> 1"
    and svc_inj: "\<And>k f k' f' l. forwards V k = Some f \<Longrightarrow> forwards V k' = Some f' \<Longrightarrow> f_listener f = Some l \<Longrightarrow>
           f_listener f' = Some l \<Longrightarrow> k = k'"
    and svc_open: "\<And>l. l \<in> openL (sockets V) \<longleftrightarrow> (\<exists>k f. forwards V k = Some f \<and> f_listener f = Some l)"
    and svc_less: "\<And>l. l \<in> openL (sockets V) \<Longrightarrow> l < nextL (sockets V)"
  using assms unfolding svc_inv_def by blast+

text \<open>Binding the id \<open>k\<close> to \<open>f\<close> (or unbinding it), its old listener closed and the new one open.\<close>

lemma svc_replace:
  assumes I: "svc_inv V"
    and fw: "forwards V' = (forwards V)(k := x)"
    and op: "\<And>l. l \<in> openL (sockets V') \<longleftrightarrow>
        l \<in> openL (sockets V) \<and> (\<forall>g. forwards V k = Some g \<longrightarrow> f_listener g \<noteq> Some l)
        \<or> (\<exists>f. x = Some f \<and> f_listener f = Some l)"
    and new: "\<And>f. x = Some f \<Longrightarrow> f_ID f = k \<and> \<not> f_closed f \<and> f_loops f \<le> 1"
    and l: "\<And>f l. x = Some f \<Longrightarrow> f_listener f = Some l \<Longrightarrow> l = nextL (sockets V) \<and> nextL (sockets V') = Suc l"
    and nl: "nextL (sockets V) \<le> nextL (sockets V')"
  shows "svc_inv V'"
proof -
  have fresh: "f_listener g \<noteq> Some l" if "x = Some f" "f_listener f = Some l" "forwards V k' = Some g" for f g l k'
    using l[OF that(1,2)] svc_less[OF I, of l] svc_open[OF I, of l] that(3) by auto
  show ?thesis unfolding svc_inv_def
  proof (intro conjI allI impI ballI)
    fix k' f assume "forwards V' k' = Some f"
    then show "f_ID f = k'" "\<not> f_closed f" "f_loops f \<le> 1"
      using svc_entry[OF I, of k' f] new by (auto simp: fw split: if_splits)
  next
    fix k1 f1 k2 f2 l'
    assume "forwards V' k1 = Some f1" "forwards V' k2 = Some f2" "f_listener f1 = Some l'" "f_listener f2 = Some l'"
    then show "k1 = k2"
      using svc_inj[OF I, of k1 f1 k2 f2 l'] fresh by (auto simp: fw split: if_splits)
  next
    fix l'
    show "l' \<in> openL (sockets V') \<longleftrightarrow> (\<exists>k f. forwards V' k = Some f \<and> f_listener f = Some l')" (is "?A \<longleftrightarrow> ?B")
    proof
      assume ?A
      then consider k' f where "forwards V k' = Some f" "f_listener f = Some l'" "k' \<noteq> k"
        | f where "x = Some f" "f_listener f = Some l'"
        using op[of l'] svc_open[OF I, of l'] by auto
      then show ?B
      proof cases
        case 1 then show ?thesis by (intro exI[of _ k'] exI[of _ f]) (simp add: fw)
      next
        case 2 then show ?thesis by (intro exI[of _ k] exI[of _ f]) (simp add: fw)
      qed
    next
      assume ?B
      then obtain k' f where B: "forwards V' k' = Some f" "f_listener f = Some l'" by auto
      show ?A
      proof (cases "k' = k")
        case True
        then show ?thesis using B op[of l'] by (simp add: fw)
      next
        case False
        then have "forwards V k' = Some f" using B by (simp add: fw)
        then show ?thesis using B op[of l'] svc_open[OF I, of l'] svc_inj[OF I, of k' f k _ l'] False by auto
      qed
    qed
  next
    fix l' assume "l' \<in> openL (sockets V')"
    then show "l' < nextL (sockets V')" using op[of l'] svc_less[OF I, of l'] l nl by fastforce
  qed
qed

lemma listen_cases:
  obtains (err) e where "listen x S = (Inl e, S\<lparr>listens := Suc (listens S)\<rparr>)"
  | (ok) "listen x S = (Inr (nextL S), S\<lparr>listens := Suc (listens S), nextL := Suc (nextL S),
                                  openL := insert (nextL S) (openL S)\<rparr>)"
  by (cases x) (auto simp: listen_def)

lemma svc_listens: "svc_inv V \<Longrightarrow> svc_inv (V\<lparr>sockets := (sockets V)\<lparr>listens := n\<rparr>\<rparr>)"
  by (simp add: svc_inv_def)

text \<open>What a restart makes of a forward, and of the sockets.\<close>

lemma Restart_ok:
  assumes R: "Restart FN c f S = (f', S')" and o: "\<not> f_closed f"
  shows "f_ID f' = f_ID f \<and> f_Session f' = f_Session f \<and> f_Type f' = f_Type f \<and> f_LocalPort f' = f_LocalPort f
      \<and> f_RemotePort f' = f_RemotePort f \<and> f_BindAddr f' = f_BindAddr f \<and> f_sshClient f' = c
      \<and> \<not> f_closed f' \<and> f_loops f' \<le> 1 \<and> f_conns f' = {}"
    and "openL S' = openL S - set_option (f_listener f) \<union> set_option (f_listener f')"
    and "f_listener f' = None \<or> f_listener f' = Some (nextL S) \<and> nextL S' = Suc (nextL S)"
    and "nextL S \<le> nextL S'" "openC S' = openC S - f_conns f"
  using R o unfolding Restart_def startRemoteForward_def shut_def startLocalForward_def Let_def
  by (auto simp: listen_def split: if_splits option.splits)

lemma svc_Restart:
  assumes I: "svc_inv V" and k: "forwards V k = Some f" and R: "Restart FN c f (sockets V) = (f', S')"
  shows "svc_inv (V\<lparr>forwards := (forwards V)(k \<mapsto> f'), sockets := S'\<rparr>)"
proof (rule svc_replace[OF I, of _ k "Some f'"])
  note R' = Restart_ok[OF R]
  have o: "\<not> f_closed f" "f_ID f = k" using svc_entry[OF I k] by auto
  show "l \<in> openL (sockets (V\<lparr>forwards := (forwards V)(k \<mapsto> f'), sockets := S'\<rparr>)) \<longleftrightarrow>
        l \<in> openL (sockets V) \<and> (\<forall>g. forwards V k = Some g \<longrightarrow> f_listener g \<noteq> Some l)
        \<or> (\<exists>f. Some f' = Some f \<and> f_listener f = Some l)" for l
    using R'(2)[OF o(1)] k by auto
qed (use Restart_ok[OF R] svc_entry[OF I k] in auto)

text \<open>\<open>RestartAll\<close> leaves the forwards of other sessions alone, and gives the others the new client.\<close>

lemma RestartAll_ok:
  assumes "svc_inv V" "distinct ks" "set ks \<subseteq> dom (forwards V)"
  shows "svc_inv (RestartAll FN ks name c V)
    \<and> dom (forwards (RestartAll FN ks name c V)) = dom (forwards V)
    \<and> (\<forall>k f. forwards V k = Some f \<longrightarrow>
         (\<exists>f'. forwards (RestartAll FN ks name c V) k = Some f' \<and> info_of f' = info_of f
            \<and> (if k \<in> set ks \<and> f_Session f = name
               then f_sshClient f' = c \<and> \<not> f_closed f' \<and> f_conns f' = {} else f' = f)))"
  using assms
proof (induction ks arbitrary: V)
  case Nil
  then show ?case by auto
next
  case (Cons k ks)
  obtain f where f: "forwards V k = Some f" using Cons.prems by auto
  show ?case
  proof (cases "f_Session f = name")
    case False
    then have e: "RestartAll FN (k # ks) name c V = RestartAll FN ks name c V" using f by simp
    have pre: "distinct ks" "set ks \<subseteq> dom (forwards V)" using Cons.prems by simp_all
    note IH = Cons.IH[OF Cons.prems(1) pre]
    note H = IH[THEN conjunct1] IH[THEN conjunct2, THEN conjunct1] IH[THEN conjunct2, THEN conjunct2, rule_format]
    have "k' \<in> set (k # ks) \<and> f_Session g = name \<longleftrightarrow> k' \<in> set ks \<and> f_Session g = name"
      if "forwards V k' = Some g" for k' g using that f False by auto
    then show ?thesis unfolding e using H by simp
  next
    case True
    obtain f1 S1 where R: "Restart FN c f (sockets V) = (f1, S1)" by fastforce
    let ?V = "V\<lparr>forwards := (forwards V)(k \<mapsto> f1), sockets := S1\<rparr>"
    have e: "RestartAll FN (k # ks) name c V = RestartAll FN ks name c ?V" using f True R by simp
    note R1 = Restart_ok(1)[OF R]
    have o: "\<not> f_closed f" using svc_entry[OF Cons.prems(1) f] by simp
    have dom: "dom (forwards ?V) = dom (forwards V)" using f by auto
    have pre: "distinct ks" "set ks \<subseteq> dom (forwards ?V)" using Cons.prems dom by simp_all
    note IH = Cons.IH[OF svc_Restart[OF Cons.prems(1) f R] pre]
    note H = IH[THEN conjunct1] IH[THEN conjunct2, THEN conjunct1] IH[THEN conjunct2, THEN conjunct2, rule_format]
    have "\<exists>f'. forwards (RestartAll FN ks name c ?V) k' = Some f' \<and> info_of f' = info_of g
            \<and> (if k' \<in> set (k # ks) \<and> f_Session g = name
               then f_sshClient f' = c \<and> \<not> f_closed f' \<and> f_conns f' = {} else f' = g)"
      if g: "forwards V k' = Some g" for k' g
    proof (cases "k' = k")
      case True
      then have "g = f" using f g by simp
      have "k \<notin> set ks" using Cons.prems by simp
      then have "forwards (RestartAll FN ks name c ?V) k = Some f1" using H(3)[of k f1] by auto
      then show ?thesis using True \<open>g = f\<close> R1[OF o] \<open>f_Session f = name\<close> by (auto simp: info_of_def)
    next
      case False
      then show ?thesis using H(3)[of k' g] g by auto
    qed
    then show ?thesis unfolding e using H(1) H(2)[unfolded dom] by simp
  qed
qed

lemma svc_Close:
  assumes I: "svc_inv V" and f: "forwards V k = Some f"
  shows "svc_inv (V\<lparr>forwards := (forwards V)(k := None), sockets := snd (Forwarder_Close f (sockets V))\<rparr>)"
  by (rule svc_replace[OF I, of _ k None])
     (use svc_entry[OF I f] f in \<open>auto simp: Forwarder_Close_def shut_def\<close>)

lemma find_forward_Inr:
  assumes "range_order fs ks" "find_forward ks i fs = Inr (k, f)"
  shows "fs k = Some f"
proof (cases "i = [] \<or> fs i \<noteq> None")
  case True
  then show ?thesis using assms(2) by (auto simp: find_forward_def split: if_splits)
next
  case False
  then obtain j where "filter (\<lambda>i'. HasPrefix i' i) ks = [j]" "k = j" "f = the (fs j)"
    using assms(2) by (auto simp: find_forward_def Let_def split: list.splits)
  moreover from this have "j \<in> set ks" by (metis filter_is_subset list.set_intros(1) subsetD)
  ultimately show ?thesis using assms(1) by (auto simp: range_order_def)
qed

lemma Service_Close_cases:
  assumes ks: "range_order (forwards V) ks"
  obtains (same) "snd (Service_Close ks i V) = V"
  | (closed) k f where "forwards V k = Some f" "snd (Service_Close ks i V) =
      V\<lparr>forwards := (forwards V)(k := None), sockets := snd (Forwarder_Close f (sockets V))\<rparr>"
proof (cases "find_forward ks i (forwards V)")
  case (Inl e)
  then show thesis using same by (simp add: Service_Close_def)
next
  case (Inr x)
  obtain k f where "x = (k, f)" by fastforce
  then show thesis using closed[of k f] find_forward_Inr[OF ks, of i k f] Inr by (simp add: Service_Close_def)
qed

lemma Service_Close_ok:
  assumes I: "svc_inv V" and ks: "range_order (forwards V) ks"
  shows "svc_inv (snd (Service_Close ks i V))"
  by (cases rule: Service_Close_cases[OF ks, of i]) (use I svc_Close[OF I] in \<open>simp_all\<close>)

text \<open>The forward \<open>Add\<close> registers.\<close>

definition new_forward :: "string \<Rightarrow> string \<Rightarrow> cid \<Rightarrow> string \<Rightarrow> int \<Rightarrow> int \<Rightarrow> string \<Rightarrow> lid \<Rightarrow> Forwarder" where
  "new_forward uuid name c ty lp rp bind l =
     \<lparr>f_ID = uuid, f_Session = name, f_Type = ty, f_LocalPort = lp, f_RemotePort = rp,
      f_BindAddr = (if bind = '''' then ''127.0.0.1'' else bind), f_sshClient = Some c,
      f_listener = Some l, f_conns = {}, f_closed = False, f_loops = 1\<rparr>"

lemma Add_cases:
  assumes A: "Add FN uuid m await name ty lp rp bind V = (res, V')" and new: "forwards V uuid = None"
  obtains (failed) e where "res = Inl e" "forwards V' = forwards V"
      "openL (sockets V') = openL (sockets V)" "nextL (sockets V') = nextL (sockets V)"
  | (added) r c where "Get name m = Inr r" "\<not> IsLocalSession (objs m r)" "await r sessionReadyTimeout = Inr c"
      "ty = ''local'' \<or> ty = ''remote''"
      "res = Inr (info_of (new_forward uuid (GetName (objs m r)) c ty lp rp bind (nextL (sockets V))))"
      "forwards V' = (forwards V)(uuid \<mapsto> new_forward uuid (GetName (objs m r)) c ty lp rp bind (nextL (sockets V)))"
      "openL (sockets V') = insert (nextL (sockets V)) (openL (sockets V))"
      "nextL (sockets V') = Suc (nextL (sockets V))"
proof (cases "\<exists>r c. Get name m = Inr r \<and> \<not> IsLocalSession (objs m r) \<and> await r sessionReadyTimeout = Inr c")
  case False
  then have "V' = V \<and> (\<exists>e. res = Inl e)" using A by (auto simp: Add_def split: sum.splits if_splits)
  then show thesis using failed by auto
next
  case True
  then obtain r c where rc: "Get name m = Inr r" "\<not> IsLocalSession (objs m r)" "await r sessionReadyTimeout = Inr c"
    by auto
  have [simp]: "(forwards V)(uuid := None) = forwards V" using new by auto
  consider "ty = ''local''" | "ty = ''remote''" | "ty \<noteq> ''local''" "ty \<noteq> ''remote''" by blast
  then show thesis
  proof cases
    case 1
    note D = Add_def NewForwarder_def Start_def startLocalForward_def Let_def new_forward_def
    show thesis
    proof (cases rule: listen_cases[of "tcp_listen FN (listens (sockets V)) (local_addr lp)" "sockets V"])
      case (err e) then show thesis by (intro failed) (use A rc \<open>ty = _\<close> in \<open>auto simp: D\<close>)
    next
      case ok then show thesis by (intro added[OF rc]) (use A rc \<open>ty = _\<close> in \<open>auto simp: D\<close>)
    qed
  next
    case 2
    let ?b = "JoinHostPort (if bind = '''' then ''127.0.0.1'' else bind) (Itoa rp)"
    note D = Add_def NewForwarder_def Start_def startRemoteForward_def Let_def new_forward_def
    show thesis
    proof (cases rule: listen_cases[of "ssh_listen FN (listens (sockets V)) c ?b" "sockets V"])
      case (err e) then show thesis by (intro failed) (use A rc \<open>ty = _\<close> in \<open>auto simp: D\<close>)
    next
      case ok then show thesis by (intro added[OF rc]) (use A rc \<open>ty = _\<close> in \<open>auto simp: D\<close>)
    qed
  next
    case 3
    show thesis
      by (rule failed) (use A rc 3 in \<open>auto simp: Add_def NewForwarder_def Let_def\<close>)
  qed
qed

lemma Add_ok:
  assumes I: "svc_inv V" and new: "forwards V uuid = None"
    and A: "Add FN uuid m await name ty lp rp bind V = (res, V')"
  shows "svc_inv V'"
proof (cases rule: Add_cases[OF A new])
  case (1 e)
  then show ?thesis using I by (simp add: svc_inv_def)
next
  case (2 r c)
  show ?thesis
    by (rule svc_replace[OF I 2(6)]) (use 2(7,8) new in \<open>auto simp: new_forward_def\<close>)
qed

section \<open>Reachable services\<close>

inductive svc_step :: "fnet \<Rightarrow> service \<Rightarrow> service \<Rightarrow> bool" for FN where
  svc_add: "forwards V uuid = None \<Longrightarrow>
    Add FN uuid m await name ty lp rp bind V = (res, V') \<Longrightarrow> svc_step FN V V'"
| svc_close: "range_order (forwards V) ks \<Longrightarrow> svc_step FN V (snd (Service_Close ks i V))"
| svc_restart: "range_order (forwards V) ks \<Longrightarrow> svc_step FN V (RestartAll FN ks name c V)"
| svc_serve: "forwards V k = Some f \<Longrightarrow> local_iter f (Accepted c) f = (nx, f') \<Longrightarrow>
    svc_step FN V (V\<lparr>forwards := (forwards V)(k \<mapsto> f'), sockets := (sockets V)\<lparr>openC := insert c (openC (sockets V))\<rparr>\<rparr>)"
| svc_served: "forwards V k = Some f \<Longrightarrow> handleLocalConnection c f (sockets V) = (d, f', S') \<Longrightarrow>
    svc_step FN V (V\<lparr>forwards := (forwards V)(k \<mapsto> f'), sockets := S'\<rparr>)"

lemma svc_conns:
  assumes I: "svc_inv V" and f: "forwards V k = Some f" and f': "f' = f\<lparr>f_conns := C\<rparr>"
    and S: "openL S' = openL (sockets V)" "nextL S' = nextL (sockets V)"
  shows "svc_inv (V\<lparr>forwards := (forwards V)(k \<mapsto> f'), sockets := S'\<rparr>)"
proof -
  have e: "\<exists>g. forwards V k' = Some g \<and> f_listener g = f_listener x \<and> f_ID g = f_ID x
        \<and> f_closed g = f_closed x \<and> f_loops g = f_loops x"
    if "((forwards V)(k \<mapsto> f')) k' = Some x" for k' x
    using that f f' by (auto split: if_splits)
  have e': "\<exists>g. ((forwards V)(k \<mapsto> f')) k' = Some g \<and> f_listener g = f_listener x"
    if "forwards V k' = Some x" for k' x
    using that f f' by (auto split: if_splits)
  let ?V = "V\<lparr>forwards := (forwards V)(k \<mapsto> f'), sockets := S'\<rparr>"
  have sel: "forwards ?V = (forwards V)(k \<mapsto> f')" "sockets ?V = S'" by simp_all
  show ?thesis unfolding svc_inv_def sel S
  proof (intro conjI allI impI ballI)
    fix k' x assume "((forwards V)(k \<mapsto> f')) k' = Some x"
    then show "f_ID x = k'" "\<not> f_closed x" "f_loops x \<le> 1" using e[of k' x] svc_entry[OF I, of k'] by auto
  next
    fix k1 f1 k2 f2 l assume "((forwards V)(k \<mapsto> f')) k1 = Some f1" "((forwards V)(k \<mapsto> f')) k2 = Some f2"
      "f_listener f1 = Some l" "f_listener f2 = Some l"
    then show "k1 = k2" using e[of k1 f1] e[of k2 f2] svc_inj[OF I] by metis
  next
    fix l show "l \<in> openL (sockets V) \<longleftrightarrow> (\<exists>k' x. ((forwards V)(k \<mapsto> f')) k' = Some x \<and> f_listener x = Some l)"
      using svc_open[OF I, of l] e e' by metis
  next
    fix l assume "l \<in> openL (sockets V)" then show "l < nextL (sockets V)" by (rule svc_less[OF I])
  qed
qed

lemma svc_step_inv: "svc_step FN V V' \<Longrightarrow> svc_inv V \<Longrightarrow> svc_inv V'"
proof (induction rule: svc_step.induct)
  case (svc_restart V ks name c)
  then show ?case using RestartAll_ok[of V ks FN name c] by (auto simp: range_order_def)
next
  case (svc_serve V k f c nx f')
  then have "f' = f\<lparr>f_conns := f_conns f'\<rparr>"
    by (auto simp: local_iter_def split: if_splits option.splits)
  then show ?case using svc_conns[of V k f f' "f_conns f'"] svc_serve by auto
next
  case (svc_served V k f c d f' S')
  then show ?case using svc_conns[of V k f f' "f_conns f'" S'] by (auto simp: handleLocalConnection_def)
qed (auto intro: Add_ok Service_Close_ok)

interpretation svc_machine: state_machine "\<lambda>V. V = NewService" svc_inv "svc_step FN" for FN
  by unfold_locales (simp add: svc_inv_def NewService_def, blast intro: svc_step_inv)

lemmas svc_reach_inv = svc_machine.reach_inv[OF _ refl]

lemma svc_inv_listeners:
  assumes I: "svc_inv V"
  shows "l \<in> openL (sockets V) \<longleftrightarrow> (\<exists>!k. \<exists>f. forwards V k = Some f \<and> f_listener f = Some l)"
  using svc_open[OF I, of l] svc_inj[OF I] by (auto intro!: ex1I)

section \<open>Properties\<close>


definition demo_fnet :: fnet where
  "demo_fnet = \<lparr>tcp_listen = (\<lambda>n a. None), ssh_listen = (\<lambda>n c a. None)\<rparr>"

definition demo_svc :: service where
  "demo_svc = snd (Add demo_fnet ''id-1'' demo_up (\<lambda>r t. Inr 0) '''' ''local'' 8080 80 '''' NewService)"

lemma demo_svc_sel:
  "forwards demo_svc = [''id-1'' \<mapsto> new_forward ''id-1'' ''u@h'' 0 ''local'' 8080 80 '''' 0]"
  "openL (sockets demo_svc) = {0}"
  "fst (Add demo_fnet ''id-1'' demo_up (\<lambda>r t. Inr 0) '''' ''local'' 8080 80 '''' NewService) =
     Inr (info_of (new_forward ''id-1'' ''u@h'' 0 ''local'' 8080 80 '''' 0))"
proof -
  have "GetName (objs demo_up 0) = ''u@h''"
    using own_reg[OF mgr_own[OF demo_up_inv], of "''u@h''" 0] by (simp add: demo_up_sel)
  then show "forwards demo_svc = [''id-1'' \<mapsto> new_forward ''id-1'' ''u@h'' 0 ''local'' 8080 80 '''' 0]"
    "openL (sockets demo_svc) = {0}"
    "fst (Add demo_fnet ''id-1'' demo_up (\<lambda>r t. Inr 0) '''' ''local'' 8080 80 '''' NewService) =
     Inr (info_of (new_forward ''id-1'' ''u@h'' 0 ''local'' 8080 80 '''' 0))"
    using same_target_ssh[OF demo_up_sel(6)]
    by (auto simp: demo_svc_def Add_def Get_def default_if_empty_def demo_up_sel NewForwarder_def Let_def listen_def
        NewService_def demo_fnet_def Start_def startLocalForward_def new_forward_def)
qed

lemma demo_svc_reach: "(svc_step demo_fnet)\<^sup>*\<^sup>* NewService demo_svc"
  unfolding demo_svc_def
  by (rule r_into_rtranclp, rule svc_add[OF _ prod.collapse[symmetric]]) (simp add: NewService_def)


text \<open>
  C34: adding a forward is all or nothing.  \<open>Add\<close> either fails and registers nothing and leaves no
  listener open, or it resolves the session (the default for an empty name), obtains its client,
  and registers under the new id one forward that carries the session's canonical name (by
  which the same session is found again, so that it can be restarted), the requested type and ports and that client; a local session or an unknown type always fails.
\<close>

theorem Add_all_or_nothing:
  assumes "Add FN uuid m await name ty lp rp bind V = (res, V')" "forwards V uuid = None" "mgr_inv m"
  shows "case res of
      Inl e \<Rightarrow> forwards V' = forwards V \<and> openL (sockets V') = openL (sockets V)
    | Inr i \<Rightarrow> (\<exists>r c f. Get name m = Inr r \<and> \<not> IsLocalSession (objs m r) \<and> (ty = ''local'' \<or> ty = ''remote'')
        \<and> await r sessionReadyTimeout = Inr c
        \<and> forwards V' = (forwards V)(uuid \<mapsto> f) \<and> i = info_of f \<and> i_Session i = GetName (objs m r) \<and> Get (i_Session i) m = Inr r
        \<and> i_Type i = ty \<and> i_LocalPort i = lp \<and> i_RemotePort i = rp \<and> f_sshClient f = Some c
        \<and> openL (sockets V') = openL (sockets V) \<union> set_option (f_listener f))"
proof (cases rule: Add_cases[OF assms(1,2)])
  case (1 e)
  then show ?thesis by simp
next
  case (2 r c)
  then show ?thesis using mgr_registry.get_canonical[OF assms(3)] by (auto simp: info_of_def new_forward_def)
qed

theorem Add_all_or_nothing_witness:
  "\<exists>f. forwards demo_svc = [''id-1'' \<mapsto> f] \<and> f_sshClient f = Some 0 \<and> f_Session f = ''u@h''"
proof -
  let ?A = "Add demo_fnet ''id-1'' demo_up (\<lambda>r t. Inr 0) '''' ''local'' 8080 80 '''' NewService"
  have f: "forwards NewService ''id-1'' = None" by (simp add: NewService_def)
  obtain g where "forwards demo_svc = (forwards NewService)(''id-1'' \<mapsto> g)" "f_sshClient g = Some 0"
    using Add_all_or_nothing[OF prod.collapse[symmetric] f demo_up_inv, of demo_fnet "\<lambda>r t. Inr 0" "''''" "''local''" 8080 80 "''''"]
    by (auto simp: demo_svc_def demo_svc_sel(3))
  moreover have "f_Session g = ''u@h''"
    using fun_cong[OF calculation(1), of "''id-1''"] by (auto simp: demo_svc_sel(1) new_forward_def)
  ultimately show ?thesis by (auto simp: NewService_def)
qed

text \<open>
  Closing a forward by id or prefix.  An exact id always closes that forward even when it is a
  prefix of others; otherwise a prefix closes the only forward it matches, and an empty, unknown or
  ambiguous one is an error that changes nothing.  Closing unregisters exactly that forward and
  closes its listener and all its connections.
\<close>

theorem Service_Close_effect:
  assumes "range_order (forwards V) ks" "svc_inv V"
  shows "Service_Close ks i V =
    (let target = (if i = '''' then None else if forwards V i \<noteq> None then Some i
                   else if \<exists>!k. k \<in> dom (forwards V) \<and> prefix i k
                   then Some (THE k. k \<in> dom (forwards V) \<and> prefix i k) else None)
     in case target of
          Some k \<Rightarrow> (None, V\<lparr>forwards := (forwards V)(k := None),
             sockets := (sockets V)\<lparr>openL := openL (sockets V) - set_option (f_listener (the (forwards V k))),
                                    openC := openC (sockets V) - f_conns (the (forwards V k))\<rparr>\<rparr>)
        | None \<Rightarrow> (Some (if i = '''' then Errorf ''forward ID required'' []
             else if \<exists>k\<in>dom (forwards V). prefix i k
             then Errorf ''forward ID %q is ambiguous (%d matches)''
                    [AStr i, AInt (int (card {k \<in> dom (forwards V). prefix i k}))]
             else Errorf ''forward not found'' []), V))"
proof -
  let ?M = "filter (\<lambda>k. HasPrefix k i) ks"
  have set: "set ?M = {k \<in> dom (forwards V). prefix i k}" and d: "distinct ?M"
    using assms(1) by (auto simp: range_order_def HasPrefix_def)
  have del: "snd (Forwarder_Close f (sockets V)) = shut f (sockets V)" if "forwards V k = Some f" for k f
    using svc_entry[OF assms(2) that] by (simp add: Forwarder_Close_def)
  consider "i = ''''" | "i \<noteq> ''''" "forwards V i \<noteq> None" | "i \<noteq> ''''" "forwards V i = None" "?M = []"
    | k where "i \<noteq> ''''" "forwards V i = None" "?M = [k]"
    | k k' xs where "i \<noteq> ''''" "forwards V i = None" "?M = k # k' # xs"
    by (metis list.exhaust)
  then show ?thesis
  proof cases
    case 2
    then show ?thesis using del[of i] by (auto simp: Service_Close_def find_forward_def shut_def)
  next
    case 3
    then have "\<not> (\<exists>k\<in>dom (forwards V). prefix i k)" using set by auto
    moreover then have "\<not> (\<exists>!k. k \<in> dom (forwards V) \<and> prefix i k)" by blast
    ultimately show ?thesis using 3 unfolding Service_Close_def find_forward_def Let_def by simp
  next
    case (4 k)
    then have k: "\<And>x. x \<in> dom (forwards V) \<and> prefix i x \<longleftrightarrow> x = k" using set by auto
    then obtain f where f: "forwards V k = Some f" by blast
    show ?thesis using 4 k del[OF f] f unfolding Service_Close_def find_forward_def Let_def by (simp add: shut_def)
  next
    case (5 k k' xs)
    then have kk: "k \<noteq> k'" "k \<in> dom (forwards V) \<and> prefix i k" "k' \<in> dom (forwards V) \<and> prefix i k'"
      using set d by auto
    then have "\<not> (\<exists>!k. k \<in> dom (forwards V) \<and> prefix i k)" by blast
    moreover have "card {k \<in> dom (forwards V). prefix i k} = length ?M" using set d distinct_card by metis
    ultimately show ?thesis using 5 kk unfolding Service_Close_def find_forward_def Let_def by auto
  qed (simp add: Service_Close_def find_forward_def)
qed

theorem Service_Close_effect_witness:
  "forwards (snd (Service_Close [''id-1''] ''id'' demo_svc)) = Map.empty
   \<and> openL (sockets (snd (Service_Close [''id-1''] ''id'' demo_svc))) = {}"
proof -
  have r: "range_order (forwards demo_svc) [''id-1'']" by (simp add: range_order_def demo_svc_sel)
  have u: "\<exists>!k. k \<in> dom (forwards demo_svc) \<and> prefix ''id'' k" "(THE k. k \<in> dom (forwards demo_svc) \<and> prefix ''id'' k) = ''id-1''"
    by (auto simp: demo_svc_sel prefix_def)
  show ?thesis
    using Service_Close_effect[OF r svc_reach_inv[OF demo_svc_reach], of "''id''"] u
    by (simp add: Let_def demo_svc_sel new_forward_def)
qed

text \<open>
  After a reconnection every forward of that session is live on the new client.  \<open>RestartAll\<close>
  keeps all registrations, ids, ports and session names; each forward of the session gets the new
  client, is open and drops its stale connections, and the forwards of other sessions are untouched.
\<close>

theorem RestartAll_effect:
  assumes "svc_inv V" "range_order (forwards V) ks"
  shows "dom (forwards (RestartAll FN ks name c V)) = dom (forwards V)
    \<and> (\<forall>k f. forwards V k = Some f \<longrightarrow>
         (\<exists>f'. forwards (RestartAll FN ks name c V) k = Some f' \<and> info_of f' = info_of f
            \<and> (if f_Session f = name
               then f_sshClient f' = c \<and> \<not> f_closed f' \<and> f_conns f' = {} else f' = f)))"
proof -
  have p: "distinct ks" "set ks = dom (forwards V)" using assms(2) by (auto simp: range_order_def)
  have "k \<in> set ks" if "forwards V k = Some f" for k f using that p by auto
  then show ?thesis
    using RestartAll_ok[OF assms(1) p(1), of FN name c] p(2) by (simp add: domI)
qed

theorem RestartAll_effect_witness:
  "\<exists>f. forwards (RestartAll demo_fnet [''id-1''] ''u@h'' (Some 7) demo_svc) ''id-1'' = Some f
     \<and> f_sshClient f = Some 7 \<and> f_LocalPort f = 8080"
proof -
  have r: "range_order (forwards demo_svc) [''id-1'']" by (simp add: range_order_def demo_svc_sel)
  have k: "forwards demo_svc ''id-1'' = Some (new_forward ''id-1'' ''u@h'' 0 ''local'' 8080 80 '''' 0)"
    by (simp add: demo_svc_sel)
  show ?thesis
    using RestartAll_effect[OF svc_reach_inv[OF demo_svc_reach] r, THEN conjunct2, rule_format, OF k,
        of demo_fnet "''u@h''" "Some 7"]
    by (elim exE) (auto simp: new_forward_def info_of_def)
qed

text \<open>
  The accept loops stop.  Once a forwarder is closed, the local and the remote loop take no
  further connection: an iteration that starts on a closed forwarder exits whatever \<open>Accept\<close>
  returns, and one that was blocked in \<open>Accept\<close> when it was closed exits when \<open>Accept\<close> fails.
\<close>

theorem accept_loops_stop:
  "(f_closed f \<longrightarrow> fst (local_iter f a f') = LExit \<and> fst (remote_iter f a d f') = LExit)
   \<and> (f_closed f' \<and> f_listener f \<noteq> None \<longrightarrow>
        fst (local_iter f AcceptError f') = LExit \<and> fst (remote_iter f AcceptError d f') = LExit)"
  by (auto simp: local_iter_def remote_iter_def split: option.splits)

theorem accept_loops_stop_witness:
  "fst (local_iter (fst (Forwarder_Close (new_forward ''i'' ''s'' 0 ''local'' 1 2 '''' 0) (sockets demo_svc))) (Accepted 3)
       (new_forward ''i'' ''s'' 0 ''local'' 1 2 '''' 0)) = LExit"
  using accept_loops_stop[of "fst (Forwarder_Close (new_forward ''i'' ''s'' 0 ''local'' 1 2 '''' 0) (sockets demo_svc))"]
  by (simp add: Forwarder_Close_def new_forward_def)

end
