(* ===== verification/Forward_Races.thy ===== *)
theory Forward_Races
  imports Port_Forward
begin

text \<open>
  Concurrent use of the forwarding service.  Requests to add and close forwards and the restarts
  after a reconnection run in parallel.  The service's map is protected by \<open>s.mu\<close>, which \<open>RestartAll\<close>
  holds for reading throughout; \<open>lifecycleMu\<close> makes \<open>Start\<close>, \<open>Close\<close> and \<open>Restart\<close> of one forwarder
  exclude each other.  A goroutine is a program counter between two such sections of
  \<open>internal/portforward/forwarder.go\<close>; \<open>fadvance\<close> runs its next section, built from the operations
  of \<open>Port_Forward\<close>, and is \<open>None\<close> while the goroutine waits for \<open>s.mu\<close>.
\<close>

section \<open>Goroutines\<close>

text \<open>
  Forwarders are objects, since \<open>Add\<close> keeps one after it has put it into the map.  \<open>fw_readers\<close> are
  the goroutines that hold \<open>s.mu\<close> for reading.  Two ghost fields: \<open>fw_pending\<close>, the forwarders that
  are in the map or were and whose \<open>Add\<close> has not returned, and \<open>fw_raced\<close>, the remote ones of them
  that were restarted meanwhile.
\<close>

record fshared =
  fw_objs :: "nat \<Rightarrow> Forwarder"
  fw_next :: nat
  fw_map :: "string \<rightharpoonup> nat"
  fw_sock :: fstate
  fw_readers :: "nat set"
  fw_pending :: "nat set"
  fw_raced :: "nat set"

text \<open>
  \<open>FNew\<close> is \<open>Add\<close> once it has the session's client; its arguments are the new id, the client, the
  canonical name of the session, the type, the ports and the bind address.
\<close>

datatype fpc =
    FIdle
  | FNew string cid string string int int string
  | FRegister nat
  | FStart nat
  | FUnregister nat
  | FLookup string
  | FShut nat
  | FRestartAll string "cid option"
  | FRestart "cid option" "nat list"

definition set_fw :: "nat \<Rightarrow> Forwarder \<Rightarrow> fstate \<Rightarrow> fshared \<Rightarrow> fshared" where
  "set_fw r f S s = s\<lparr>fw_objs := (fw_objs s)(r := f), fw_sock := S\<rparr>"

text \<open>\<open>ks\<close> is the order in which the goroutine \<open>t\<close> iterates over the map, where it does.\<close>

fun fadvance :: "fnet \<Rightarrow> string list \<Rightarrow> nat \<Rightarrow> fpc \<Rightarrow> fshared \<Rightarrow> (fpc \<times> fshared) option" where
  "fadvance FN ks t FIdle s = None"
| "fadvance FN ks t (FNew uuid c name ty lp rp bind) s =
     (case NewForwarder FN uuid (Some c) ty lp rp bind (fw_sock s) of
        (Inl e, S) \<Rightarrow> Some (FIdle, s\<lparr>fw_sock := S\<rparr>)
      | (Inr f, S) \<Rightarrow> Some (FRegister (fw_next s), (set_fw (fw_next s) (f\<lparr>f_Session := name\<rparr>) S s)\<lparr>fw_next := Suc (fw_next s)\<rparr>))"
| "fadvance FN ks t (FRegister r) s =
     (if fw_readers s \<noteq> {} then None
      else Some (FStart r, s\<lparr>fw_map := (fw_map s)(f_ID (fw_objs s r) \<mapsto> r), fw_pending := insert r (fw_pending s)\<rparr>))"
| "fadvance FN ks t (FStart r) s =
     (case Start FN (fw_objs s r) (fw_sock s) of
        (None, f, S) \<Rightarrow> Some (FIdle, (set_fw r f S s)\<lparr>fw_pending := fw_pending s - {r}\<rparr>)
      | (Some e, f, S) \<Rightarrow> Some (FUnregister r, set_fw r f S s))"
| "fadvance FN ks t (FUnregister r) s =
     (if fw_readers s \<noteq> {} then None
      else Some (FIdle, s\<lparr>fw_map := (fw_map s)(f_ID (fw_objs s r) := None), fw_pending := fw_pending s - {r}\<rparr>))"
| "fadvance FN ks t (FLookup i) s =
     (if fw_readers s \<noteq> {} then None
      else case find_forward ks i (fw_map s) of
             Inl e \<Rightarrow> Some (FIdle, s)
           | Inr (k, r) \<Rightarrow> Some (FShut r, s\<lparr>fw_map := (fw_map s)(k := None)\<rparr>))"
| "fadvance FN ks t (FShut r) s =
     (case Forwarder_Close (fw_objs s r) (fw_sock s) of (f, S) \<Rightarrow> Some (FIdle, set_fw r f S s))"
| "fadvance FN ks t (FRestartAll name c) s =
     Some (FRestart c (filter (\<lambda>r. f_Session (fw_objs s r) = name) (map (\<lambda>k. the (fw_map s k)) ks)),
           s\<lparr>fw_readers := insert t (fw_readers s)\<rparr>)"
| "fadvance FN ks t (FRestart c []) s = Some (FIdle, s\<lparr>fw_readers := fw_readers s - {t}\<rparr>)"
| "fadvance FN ks t (FRestart c (r # rs)) s =
     (case Restart FN c (fw_objs s r) (fw_sock s) of
        (f, S) \<Rightarrow> Some (FRestart c rs, (set_fw r f S s)\<lparr>fw_raced :=
          (if r \<in> fw_pending s \<and> f_Type (fw_objs s r) \<noteq> ''local'' then insert r (fw_raced s) else fw_raced s)\<rparr>))"

section \<open>Interleavings\<close>

record fworld =
  fsh :: fshared
  fthr :: "nat \<Rightarrow> fpc"

fun frequest :: "fpc \<Rightarrow> bool" where
  "frequest (FNew uuid c name ty lp rp bind) = True"
| "frequest (FLookup i) = True"
| "frequest (FRestartAll name c) = True"
| "frequest _ = False"

text \<open>The map is iterated in some order, and a new id is new.\<close>

definition go_ok :: "string list \<Rightarrow> fpc \<Rightarrow> fshared \<Rightarrow> bool" where
  "go_ok ks p s \<longleftrightarrow> range_order (fw_map s) ks
     \<and> (case p of FNew uuid c name ty lp rp bind \<Rightarrow> \<forall>r < fw_next s. f_ID (fw_objs s r) \<noteq> uuid | _ \<Rightarrow> True)"

inductive fwd_step :: "fnet \<Rightarrow> fworld \<Rightarrow> fworld \<Rightarrow> bool" for FN where
  fspawn: "fthr w t = FIdle \<Longrightarrow> frequest p \<Longrightarrow> fwd_step FN w (w\<lparr>fthr := (fthr w)(t := p)\<rparr>)"
| frun: "go_ok ks (fthr w t) (fsh w) \<Longrightarrow> fadvance FN ks t (fthr w t) (fsh w) = Some (p, s) \<Longrightarrow>
     fwd_step FN w (w\<lparr>fsh := s, fthr := (fthr w)(t := p)\<rparr>)"

definition fwd_init :: fworld where
  "fwd_init = \<lparr>fsh = \<lparr>fw_objs = (\<lambda>_. new_forward [] [] 0 [] 0 0 [] 0), fw_next = 0, fw_map = Map.empty,
     fw_sock = sockets NewService, fw_readers = {}, fw_pending = {}, fw_raced = {}\<rparr>, fthr = (\<lambda>_. FIdle)\<rparr>"

section \<open>The invariant\<close>

definition mapped :: "fshared \<Rightarrow> nat \<Rightarrow> bool" where
  "mapped s r \<longleftrightarrow> fw_map s (f_ID (fw_objs s r)) = Some r"

text \<open>A listener that is held: its forwarder's, unless that was closed.\<close>

definition held_listener :: "Forwarder \<Rightarrow> lid option" where
  "held_listener f = (if f_closed f then None else f_listener f)"

text \<open>The forwarder that a goroutine is adding, or closing.\<close>

fun adds :: "fpc \<Rightarrow> nat option" where
  "adds (FRegister r) = Some r"
| "adds (FStart r) = Some r"
| "adds (FUnregister r) = Some r"
| "adds _ = None"

fun shuts :: "fpc \<Rightarrow> nat option" where
  "shuts (FShut r) = Some r"
| "shuts _ = None"

text \<open>
  The objects: the map binds ids to open forwarders of these ids, ids are unique, and the open
  listeners are those held by the forwarders, one each.
\<close>

definition obj_inv :: "fshared \<Rightarrow> bool" where
  "obj_inv s \<longleftrightarrow>
     (\<forall>n r. fw_map s n = Some r \<longrightarrow> r < fw_next s \<and> f_ID (fw_objs s r) = n \<and> \<not> f_closed (fw_objs s r))
     \<and> (\<forall>r r'. r < fw_next s \<longrightarrow> r' < fw_next s \<longrightarrow> f_ID (fw_objs s r) = f_ID (fw_objs s r') \<longrightarrow> r = r')
     \<and> (\<forall>l. l \<in> openL (fw_sock s) \<longleftrightarrow> (\<exists>r < fw_next s. held_listener (fw_objs s r) = Some l))
     \<and> (\<forall>r r' l. r < fw_next s \<longrightarrow> r' < fw_next s \<longrightarrow> held_listener (fw_objs s r) = Some l \<longrightarrow>
           held_listener (fw_objs s r') = Some l \<longrightarrow> r = r')
     \<and> (\<forall>l \<in> openL (fw_sock s). l < nextL (fw_sock s))
     \<and> (\<forall>r \<in> fw_pending s. r < fw_next s)"

text \<open>What a goroutine knows of the forwarder it works on.\<close>

fun pc_inv :: "fshared \<Rightarrow> nat \<Rightarrow> fpc \<Rightarrow> bool" where
  "pc_inv s t (FRegister r) = (r < fw_next s \<and> \<not> mapped s r \<and> \<not> f_closed (fw_objs s r) \<and> r \<notin> fw_pending s
     \<and> (f_Type (fw_objs s r) \<noteq> ''local'' \<longrightarrow> f_listener (fw_objs s r) = None))"
| "pc_inv s t (FStart r) = (r < fw_next s \<and> r \<in> fw_pending s
     \<and> (f_Type (fw_objs s r) \<noteq> ''local'' \<longrightarrow> held_listener (fw_objs s r) = None))"
| "pc_inv s t (FUnregister r) = (r < fw_next s \<and> r \<in> fw_pending s \<and> held_listener (fw_objs s r) = None
     \<and> (f_Type (fw_objs s r) = ''local'' \<longrightarrow> f_closed (fw_objs s r)))"
| "pc_inv s t (FShut r) = (r < fw_next s \<and> \<not> mapped s r)"
| "pc_inv s t (FRestart c rs) = (t \<in> fw_readers s \<and> (\<forall>r \<in> set rs. mapped s r))"
| "pc_inv s t _ = True"

text \<open>
  Together: no two goroutines add, or close, the same forwarder; a held listener belongs to a
  forwarder in the map or in the hands of a goroutine that will register or close it.
\<close>

definition hand_inv :: "fshared \<Rightarrow> (nat \<Rightarrow> fpc) \<Rightarrow> bool" where
  "hand_inv s th \<longleftrightarrow>
     (\<forall>t t' r. adds (th t) = Some r \<longrightarrow> adds (th t') = Some r \<longrightarrow> t = t')
     \<and> (\<forall>t t' r. shuts (th t) = Some r \<longrightarrow> shuts (th t') = Some r \<longrightarrow> t = t')
     \<and> (\<forall>t t' r. th t = FRegister r \<longrightarrow> th t' \<noteq> FShut r)
     \<and> (\<forall>r l. r < fw_next s \<longrightarrow> held_listener (fw_objs s r) = Some l \<longrightarrow>
           mapped s r \<or> (\<exists>t. th t = FRegister r \<or> th t = FShut r))
     \<and> (\<forall>t r. th t = FStart r \<longrightarrow> mapped s r \<or> f_closed (fw_objs s r) \<or> (\<exists>t'. th t' = FShut r))"

definition fwd_inv :: "fworld \<Rightarrow> bool" where
  "fwd_inv w \<longleftrightarrow> obj_inv (fsh w) \<and> (\<forall>t. pc_inv (fsh w) t (fthr w t)) \<and> hand_inv (fsh w) (fthr w)"

text \<open>Whatever is restarted: readers are restarting, and the map is finite.\<close>

definition lock_inv :: "fworld \<Rightarrow> bool" where
  "lock_inv w \<longleftrightarrow> (\<forall>t \<in> fw_readers (fsh w). \<exists>c rs. fthr w t = FRestart c rs) \<and> finite (dom (fw_map (fsh w)))"

section \<open>Lemmas\<close>

lemma set_fw_sel [simp]:
  "fw_objs (set_fw r f S s) = (fw_objs s)(r := f)" "fw_sock (set_fw r f S s) = S" "fw_map (set_fw r f S s) = fw_map s"
  "fw_next (set_fw r f S s) = fw_next s" "fw_readers (set_fw r f S s) = fw_readers s"
  "fw_pending (set_fw r f S s) = fw_pending s" "fw_raced (set_fw r f S s) = fw_raced s"
  by (simp_all add: set_fw_def)

lemma obj_invD:
  assumes "obj_inv s"
  shows obj_map: "\<And>n r. fw_map s n = Some r \<Longrightarrow> r < fw_next s \<and> f_ID (fw_objs s r) = n \<and> \<not> f_closed (fw_objs s r)"
    and obj_id: "\<And>r r'. r < fw_next s \<Longrightarrow> r' < fw_next s \<Longrightarrow> f_ID (fw_objs s r) = f_ID (fw_objs s r') \<Longrightarrow> r = r'"
    and obj_open: "\<And>l. l \<in> openL (fw_sock s) \<longleftrightarrow> (\<exists>r < fw_next s. held_listener (fw_objs s r) = Some l)"
    and obj_inj: "\<And>r r' l. r < fw_next s \<Longrightarrow> r' < fw_next s \<Longrightarrow> held_listener (fw_objs s r) = Some l \<Longrightarrow>
           held_listener (fw_objs s r') = Some l \<Longrightarrow> r = r'"
    and obj_less: "\<And>l. l \<in> openL (fw_sock s) \<Longrightarrow> l < nextL (fw_sock s)"
    and obj_pending: "\<And>r. r \<in> fw_pending s \<Longrightarrow> r < fw_next s"
  using assms unfolding obj_inv_def by blast+

lemma mapped_less: "obj_inv s \<Longrightarrow> mapped s r \<Longrightarrow> r < fw_next s \<and> \<not> f_closed (fw_objs s r)"
  unfolding mapped_def by (drule obj_map) auto

text \<open>Changing one object, its listener kept, dropped or new.\<close>

lemma obj_set:
  assumes I: "obj_inv s" and r: "r < fw_next s" and i: "f_ID f = f_ID (fw_objs s r)"
    and c: "mapped s r \<longrightarrow> \<not> f_closed f"
    and op: "openL S = openL (fw_sock s) - set_option (held_listener (fw_objs s r)) \<union> set_option (held_listener f)"
    and l: "held_listener f = None \<or> held_listener f = held_listener (fw_objs s r)
       \<or> held_listener f = Some (nextL (fw_sock s)) \<and> nextL S = Suc (nextL (fw_sock s))"
    and n: "nextL (fw_sock s) \<le> nextL S"
  shows "obj_inv (set_fw r f S s)"
proof -
  note D = obj_map[OF I] obj_id[OF I] obj_open[OF I] obj_inj[OF I] obj_less[OF I] obj_pending[OF I]
  have less: "x < fw_next s \<Longrightarrow> held_listener (fw_objs s x) = Some k \<Longrightarrow> k < nextL (fw_sock s)" for x k
    using D(3,5) by blast
  have fresh: "x \<noteq> r \<Longrightarrow> x < fw_next s \<Longrightarrow> held_listener (fw_objs s x) = Some k \<Longrightarrow> held_listener f \<noteq> Some k" for x k
    using l less[of x k] D(4)[OF r, of x k] by auto
  show ?thesis unfolding obj_inv_def set_fw_sel
  proof (intro conjI allI impI ballI, goal_cases)
    case (1 k x) then show ?case using D(1) by auto
  next
    case (2 k x) then show ?case using D(1) i by auto
  next
    case (3 k x) then show ?case using D(1) c by (auto simp: mapped_def)
  next
    case (4 x y) then show ?case using D(2)[of x y] i r by (auto split: if_splits)
  next
    case (5 k)
    show ?case
    proof
      assume "k \<in> openL S"
      then consider "held_listener f = Some k" | "k \<in> openL (fw_sock s)" "held_listener (fw_objs s r) \<noteq> Some k"
        using op by (auto simp: elem_set)
      then show "\<exists>x < fw_next s. held_listener (((fw_objs s)(r := f)) x) = Some k"
        using D(3)[of k] r by cases (auto intro: exI[of _ r])
    next
      assume "\<exists>x < fw_next s. held_listener (((fw_objs s)(r := f)) x) = Some k"
      then obtain x where "x < fw_next s" "held_listener (((fw_objs s)(r := f)) x) = Some k" by blast
      then show "k \<in> openL S" using op D(3)[of k] D(4)[OF r, of x k] by (auto simp: elem_set split: if_splits)
    qed
  next
    case (6 x y k) then show ?case using D(4)[of x y k] fresh[of x k] fresh[of y k] by (auto split: if_splits)
  next
    case (7 k)
    then have "k \<in> openL (fw_sock s) \<or> held_listener f = Some k" using op by (auto simp: elem_set)
    then show ?case using l n D(5)[of k] less[OF r, of k] by auto
  next
    case (8 x) then show ?case using D(6) by simp
  qed
qed

text \<open>A new object.\<close>

lemma obj_new:
  assumes I: "obj_inv s" and new: "\<forall>r < fw_next s. f_ID (fw_objs s r) \<noteq> f_ID f"
    and op: "openL S = openL (fw_sock s) \<union> set_option (held_listener f)"
    and l: "held_listener f = None \<or> held_listener f = Some (nextL (fw_sock s)) \<and> nextL S = Suc (nextL (fw_sock s))"
    and n: "nextL (fw_sock s) \<le> nextL S"
  shows "obj_inv ((set_fw (fw_next s) f S s)\<lparr>fw_next := Suc (fw_next s)\<rparr>)" (is "obj_inv ?s")
proof -
  note D = obj_map[OF I] obj_id[OF I] obj_open[OF I] obj_inj[OF I] obj_less[OF I] obj_pending[OF I]
  have less: "x < fw_next s \<Longrightarrow> held_listener (fw_objs s x) = Some k \<Longrightarrow> k < nextL (fw_sock s)" for x k
    using D(3,5) by blast
  have fresh: "x < fw_next s \<Longrightarrow> held_listener (fw_objs s x) = Some k \<Longrightarrow> held_listener f \<noteq> Some k" for x k
    using l less[of x k] by auto
  have sel: "fw_objs ?s = (fw_objs s)(fw_next s := f)" "fw_next ?s = Suc (fw_next s)" "fw_sock ?s = S" "fw_map ?s = fw_map s"
    by (simp_all add: set_fw_def)
  show ?thesis unfolding obj_inv_def sel
  proof (intro conjI allI impI ballI, goal_cases)
    case (1 k x) then show ?case using D(1)[of k x] by simp
  next
    case (2 k x) then show ?case using D(1)[of k x] by auto
  next
    case (3 k x) then show ?case using D(1)[of k x] by auto
  next
    case (4 x y) then show ?case using D(2)[of x y] new by (auto simp: less_Suc_eq split: if_splits)
  next
    case (5 k)
    have "((fw_objs s)(fw_next s := f)) x = fw_objs s x" if "x < fw_next s" for x using that by simp
    then have "(\<exists>x < Suc (fw_next s). held_listener (((fw_objs s)(fw_next s := f)) x) = Some k) \<longleftrightarrow>
        held_listener f = Some k \<or> (\<exists>x < fw_next s. held_listener (fw_objs s x) = Some k)"
      unfolding Ex_less_Suc by (metis fun_upd_same)
    then show ?case using op D(3)[of k] by (auto simp: elem_set)
  next
    case (6 x y k)
    then show ?case using D(4)[of x y k] fresh[of x k] fresh[of y k] by (auto simp: less_Suc_eq split: if_splits)
  next
    case (7 k) then show ?case using op l n D(5)[of k] by (auto simp: elem_set)
  next
    case (8 x) then show ?case using D(6)[of x] by (simp add: set_fw_def)
  qed
qed

text \<open>What the operations do to a forwarder and the sockets.\<close>

lemma NewForwarder_held:
  assumes "NewForwarder FN uuid c ty lp rp bind S = (Inr f, S')"
  shows "f_ID f = uuid" "\<not> f_closed f" "openL S' = openL S \<union> set_option (held_listener f)" "nextL S \<le> nextL S'"
    "held_listener f = None \<or> held_listener f = Some (nextL S) \<and> nextL S' = Suc (nextL S)"
    "f_Type f \<noteq> ''local'' \<longrightarrow> f_listener f = None"
  using assms by (auto simp: NewForwarder_def Let_def listen_def held_listener_def split: if_splits option.splits)

lemma NewForwarder_failed:
  "NewForwarder FN uuid c ty lp rp bind S = (Inl e, S') \<Longrightarrow> openL S' = openL S \<and> nextL S' = nextL S"
  by (auto simp: NewForwarder_def Let_def listen_def split: if_splits option.splits)

lemma Start_held:
  assumes "Start FN f S = (e, f', S')" "f_Type f \<noteq> ''local'' \<longrightarrow> held_listener f = None" "set_option (held_listener f) \<subseteq> openL S"
  shows "f_ID f' = f_ID f" "f_closed f' = f_closed f" "f_Type f' = f_Type f"
    "openL S' = openL S - set_option (held_listener f) \<union> set_option (held_listener f')" "nextL S \<le> nextL S'"
    "held_listener f' = None \<or> held_listener f' = held_listener f \<or> held_listener f' = Some (nextL S) \<and> nextL S' = Suc (nextL S)"
    "e \<noteq> None \<Longrightarrow> f' = f \<and> held_listener f = None \<and> (f_Type f = ''local'' \<longrightarrow> f_closed f)"
proof -
  have "f_ID f' = f_ID f \<and> f_closed f' = f_closed f \<and> f_Type f' = f_Type f
    \<and> (f_closed f \<or> f_Type f = ''local'' \<longrightarrow> held_listener f' = held_listener f \<and> S' = S)
    \<and> (f_Type f \<noteq> ''local'' \<longrightarrow> openL S' = openL S \<union> set_option (held_listener f'))
    \<and> nextL S \<le> nextL S'
    \<and> (held_listener f' = None \<or> held_listener f' = held_listener f \<or> held_listener f' = Some (nextL S) \<and> nextL S' = Suc (nextL S))
    \<and> (e \<noteq> None \<longrightarrow> f' = f \<and> held_listener f = None \<and> (f_Type f = ''local'' \<longrightarrow> f_closed f))"
    using assms(1,2)
    by (auto simp: Start_def startLocalForward_def startRemoteForward_def listen_def held_listener_def split: if_splits option.splits)
  note R = this
  then show "f_ID f' = f_ID f" "f_closed f' = f_closed f" "f_Type f' = f_Type f" "nextL S \<le> nextL S'"
    "held_listener f' = None \<or> held_listener f' = held_listener f \<or> held_listener f' = Some (nextL S) \<and> nextL S' = Suc (nextL S)"
    "e \<noteq> None \<Longrightarrow> f' = f \<and> held_listener f = None \<and> (f_Type f = ''local'' \<longrightarrow> f_closed f)"
    by auto
  show "openL S' = openL S - set_option (held_listener f) \<union> set_option (held_listener f')"
    using R assms(2,3) by (cases "f_Type f = ''local''") auto
qed

lemma Close_held:
  assumes "Forwarder_Close f S = (f', S')"
  shows "f_ID f' = f_ID f" "f_closed f'" "f_Type f' = f_Type f"
    "openL S' = openL S - set_option (held_listener f) \<union> set_option (held_listener f')" "nextL S' = nextL S" "held_listener f' = None"
  using assms by (auto simp: Forwarder_Close_def shut_def held_listener_def split: if_splits)

lemma Restart_held:
  assumes "Restart FN c f S = (f', S')" "\<not> f_closed f"
  shows "f_ID f' = f_ID f" "\<not> f_closed f'" "f_Type f' = f_Type f"
    "openL S' = openL S - set_option (held_listener f) \<union> set_option (held_listener f')" "nextL S \<le> nextL S'"
    "held_listener f' = None \<or> held_listener f' = Some (nextL S) \<and> nextL S' = Suc (nextL S)"
  using Restart_ok[OF assms] assms(2) by (simp_all add: held_listener_def)

section \<open>Lemmas: one step\<close>

lemma hand_invD:
  assumes "hand_inv s th"
  shows hand_adds: "\<And>t t' r. adds (th t) = Some r \<Longrightarrow> adds (th t') = Some r \<Longrightarrow> t = t'"
    and hand_shuts: "\<And>t t' r. shuts (th t) = Some r \<Longrightarrow> shuts (th t') = Some r \<Longrightarrow> t = t'"
    and hand_apart: "\<And>t t' r. th t = FRegister r \<Longrightarrow> th t' \<noteq> FShut r"
    and hand_holds: "\<And>r l. r < fw_next s \<Longrightarrow> held_listener (fw_objs s r) = Some l \<Longrightarrow>
           mapped s r \<or> (\<exists>t. th t = FRegister r \<or> th t = FShut r)"
    and hand_start: "\<And>t r. th t = FStart r \<Longrightarrow> mapped s r \<or> f_closed (fw_objs s r) \<or> (\<exists>t'. th t' = FShut r)"
  using assms unfolding hand_inv_def by blast+

lemma hand_other:
  assumes "hand_inv s th"
  shows "r < fw_next s \<Longrightarrow> held_listener (fw_objs s r) = Some l \<Longrightarrow>
      mapped s r \<or> th t = FRegister r \<or> th t = FShut r \<or> (\<exists>t'. t' \<noteq> t \<and> (th t' = FRegister r \<or> th t' = FShut r))"
    and "th t' = FStart r \<Longrightarrow>
      mapped s r \<or> f_closed (fw_objs s r) \<or> th t = FShut r \<or> (\<exists>t''. t'' \<noteq> t \<and> th t'' = FShut r)"
  using hand_holds[OF assms, of r l] hand_start[OF assms, of t' r] by metis+

text \<open>The invariant with the goroutine \<open>t\<close> at \<open>p\<close>.\<close>

abbreviation step_ok :: "fshared \<Rightarrow> (nat \<Rightarrow> fpc) \<Rightarrow> nat \<Rightarrow> fpc \<Rightarrow> bool" where
  "step_ok s th t p \<equiv> obj_inv s \<and> (\<forall>t'. pc_inv s t' ((th(t := p)) t')) \<and> hand_inv s (th(t := p))"

lemma stepI:
  assumes O: "obj_inv s'" and P: "\<And>t'. t' \<noteq> t \<Longrightarrow> pc_inv s' t' (th t')" "pc_inv s' t p" and H: "hand_inv s th"
    and a: "\<And>r t'. adds p = Some r \<Longrightarrow> adds (th t') = Some r \<Longrightarrow> t' = t"
    and c: "\<And>r t'. shuts p = Some r \<Longrightarrow> shuts (th t') = Some r \<Longrightarrow> t' = t"
    and ac: "\<And>r t'. p = FRegister r \<Longrightarrow> t' \<noteq> t \<Longrightarrow> th t' \<noteq> FShut r" "\<And>r t'. p = FShut r \<Longrightarrow> t' \<noteq> t \<Longrightarrow> th t' \<noteq> FRegister r"
    and l: "\<And>r l. r < fw_next s' \<Longrightarrow> held_listener (fw_objs s' r) = Some l \<Longrightarrow>
        mapped s' r \<or> p = FRegister r \<or> p = FShut r \<or> (\<exists>t'. t' \<noteq> t \<and> (th t' = FRegister r \<or> th t' = FShut r))"
    and st: "\<And>t' r. t' \<noteq> t \<Longrightarrow> th t' = FStart r \<Longrightarrow>
        mapped s' r \<or> f_closed (fw_objs s' r) \<or> p = FShut r \<or> (\<exists>t''. t'' \<noteq> t \<and> th t'' = FShut r)"
      "\<And>r. p = FStart r \<Longrightarrow> mapped s' r \<or> f_closed (fw_objs s' r) \<or> (\<exists>t''. t'' \<noteq> t \<and> th t'' = FShut r)"
  shows "step_ok s' th t p"
proof (intro conjI)
  show "obj_inv s'" by (rule O)
  show "\<forall>t'. pc_inv s' t' ((th(t := p)) t')" using P by auto
  show "hand_inv s' (th(t := p))" unfolding hand_inv_def
  proof (intro conjI allI impI, goal_cases)
    case (1 x y r) then show ?case using hand_adds[OF H, of x r y] a by (auto split: if_splits)
  next
    case (2 x y r) then show ?case using hand_shuts[OF H, of x r y] c by (auto split: if_splits)
  next
    case (3 x y r) then show ?case using hand_apart[OF H, of x r y] ac[of r] by (auto split: if_splits)
  next
    case (4 r k) then show ?case using l[of r k] by (metis fun_upd_apply)
  next
    case (5 x r) then show ?case using st(1)[of x r] st(2)[of r] by (metis fun_upd_apply)
  qed
qed

lemma step_FNew:
  assumes O: "obj_inv s" and P: "\<And>t. pc_inv s t (th t)" and H: "hand_inv s th"
    and at: "th t = FNew uuid c name ty lp rp bind" and g: "go_ok ks (th t) s"
    and A: "fadvance FN ks t (th t) s = Some (p, s')"
  shows "step_ok s' th t p"
proof -
  obtain x S where N: "NewForwarder FN uuid (Some c) ty lp rp bind (fw_sock s) = (x, S)" by fastforce
  show ?thesis
  proof (cases x)
    case (Inl e)
    then have s': "s' = s\<lparr>fw_sock := S\<rparr>" "p = FIdle" using A N at by simp_all
    have O': "obj_inv s'" using O NewForwarder_failed[of FN uuid "Some c" ty lp rp bind "fw_sock s" e S] N Inl by (simp add: s' obj_inv_def)
    have m: "mapped s' = mapped s" by (auto simp: s' mapped_def)
    have "pc_inv s' t' (th t')" for t' using P[of t'] m by (cases "th t'") (auto simp: s')
    then show ?thesis
    proof (rule stepI[OF O' _ _ H], goal_cases)
      case (6 r l) then show ?case using hand_other(1)[OF H, of r l t] m at by (simp add: s')
    next
      case (7 t' r) then show ?case using hand_other(2)[OF H, of t' r t] m at by (simp add: s')
    qed (auto simp: s')
  next
    case (Inr f)
    let ?r = "fw_next s" and ?f = "f\<lparr>f_Session := name\<rparr>"
    have s': "s' = (set_fw ?r ?f S s)\<lparr>fw_next := Suc ?r\<rparr>" "p = FRegister ?r" using A N at Inr by simp_all
    note F = NewForwarder_held[OF N[unfolded Inr]]
    have h: "held_listener ?f = held_listener f" by (simp add: held_listener_def)
    have id: "\<forall>r < ?r. f_ID (fw_objs s r) \<noteq> f_ID ?f" using g at F(1) by (simp add: go_ok_def)
    have old: "fw_objs s' r = fw_objs s r" "mapped s' r = mapped s r" if "r < ?r" for r
      using that by (auto simp: s' mapped_def)
    have new: "\<not> mapped s' ?r" "?r \<notin> fw_pending s'" "fw_objs s' ?r = ?f" "fw_next s' = Suc ?r" "fw_readers s' = fw_readers s"
      "fw_pending s' = fw_pending s"
      using obj_map[OF O, of "f_ID f" ?r] obj_pending[OF O, of ?r] by (auto simp: s' mapped_def)
    have O': "obj_inv s'"
      unfolding s'(1) by (rule obj_new[OF O id]) (use F(3-5) h in auto)
    have P': "pc_inv s' t' (th t')" for t'
    proof (cases "th t'")
      case (FRestart c rs)
      then show ?thesis using P[of t'] mapped_less[OF O] old(2) new(5) by simp
    qed (use P[of t'] old new in auto)
    have no: "adds (th t') \<noteq> Some ?r" "shuts (th t') \<noteq> Some ?r" for t' using P[of t'] by (cases "th t'"; auto)+
    show ?thesis
    proof (rule stepI[OF O' P' _ H], goal_cases)
      case 1 then show ?case using new F(2,6) by (simp add: s'(2))
    next
      case (4 r t') then show ?case using no(2)[of t'] by (auto simp: s'(2))
    next
      case (6 r l)
      then show ?case using hand_other(1)[OF H, of r l t] old[of r] new(4) at by (cases "r = fw_next s") (simp_all add: s'(2))
    next
      case (7 t' r) then show ?case using hand_other(2)[OF H, of t' r t] P[of t'] old[of r] at by auto
    qed (use no in \<open>auto simp: s'(2)\<close>)
  qed
qed

lemma mapped_map:
  assumes "obj_inv s" "x < fw_next s" "r < fw_next s" "fw_objs s' = fw_objs s"
  shows "fw_map s' = (fw_map s)(f_ID (fw_objs s r) \<mapsto> r) \<Longrightarrow> mapped s' x = (mapped s x \<or> x = r)"
    and "fw_map s' = (fw_map s)(f_ID (fw_objs s r) := None) \<Longrightarrow> mapped s' x = (mapped s x \<and> x \<noteq> r)"
  using obj_id[OF assms(1-3)] assms(4) by (auto simp: mapped_def)

lemma obj_map_del:
  assumes O: "obj_inv s" and "fw_map s' = (fw_map s)(k := None)" "fw_objs s' = fw_objs s" "fw_next s' = fw_next s"
    "fw_sock s' = fw_sock s" "fw_pending s' \<subseteq> fw_pending s"
  shows "obj_inv s'"
  using O assms(2-) unfolding obj_inv_def by (auto split: if_splits)

lemma obj_pending_sub:
  assumes "obj_inv s" "A \<subseteq> fw_pending s"
  shows "obj_inv (s\<lparr>fw_pending := A\<rparr>)"
proof -
  have "\<forall>r \<in> A. r < fw_next s" using assms obj_pending by blast
  then show ?thesis using assms(1) by (simp add: obj_inv_def)
qed

lemma obj_raced: "obj_inv (s\<lparr>fw_raced := A\<rparr>) = obj_inv s"
  by (simp add: obj_inv_def)

lemma step_FRegister:
  assumes O: "obj_inv s" and P: "\<And>t. pc_inv s t (th t)" and H: "hand_inv s th"
    and at: "th t = FRegister r" and A: "fadvance FN ks t (th t) s = Some (p, s')"
  shows "step_ok s' th t p"
proof -
  have rd: "fw_readers s = {}" and s': "p = FStart r"
    "s' = s\<lparr>fw_map := (fw_map s)(f_ID (fw_objs s r) \<mapsto> r), fw_pending := insert r (fw_pending s)\<rparr>"
    using A at by (auto split: if_splits)
  have me: "r < fw_next s" "\<not> f_closed (fw_objs s r)" "f_Type (fw_objs s r) \<noteq> ''local'' \<longrightarrow> f_listener (fw_objs s r) = None"
    using P[of t] at by auto
  have m: "mapped s' x = (mapped s x \<or> x = r)" if "x < fw_next s" for x
    by (rule mapped_map(1)[OF O that me(1)]) (simp_all add: s')
  have one: "adds (th t') = Some r \<Longrightarrow> t' = t" for t' using hand_adds[OF H, of t' r t] at by simp
  have O': "obj_inv s'" using O me unfolding obj_inv_def s' by auto
  have P': "pc_inv s' t' (th t')" if "t' \<noteq> t" for t'
    using P[of t'] one[of t'] that hand_apart[OF H at, of t'] rd m by (cases "th t'") (auto simp: s'(2))
  show ?thesis
  proof (rule stepI[OF O' P' _ H], goal_cases)
    case 2 then show ?case using me by (simp add: s' held_listener_def)
  next
    case (7 x l) then show ?case using hand_other(1)[OF H, of x l t] m[of x] at by (auto simp: s')
  next
    case (8 t' x) then show ?case using hand_other(2)[OF H, of t' x t] m[of x] P[of t'] at by (auto simp: s')
  next
    case (9 x) then show ?case using m[of r] me by (simp add: s'(1))
  qed (use one in \<open>auto simp: s'(1)\<close>)
qed

lemma held_open: "obj_inv s \<Longrightarrow> r < fw_next s \<Longrightarrow> set_option (held_listener (fw_objs s r)) \<subseteq> openL (fw_sock s)"
  using obj_open[of s] by (auto simp: elem_set)

text \<open>An object that is replaced under its id is as much in the map as it was.\<close>

lemma mapped_set: "f_ID f = f_ID (fw_objs s r) \<Longrightarrow> fw_objs s' = (fw_objs s)(r := f) \<Longrightarrow> fw_map s' = fw_map s \<Longrightarrow> mapped s' x = mapped s x"
  by (simp add: mapped_def)

lemma step_FStart:
  assumes O: "obj_inv s" and P: "\<And>t. pc_inv s t (th t)" and H: "hand_inv s th"
    and at: "th t = FStart r" and A: "fadvance FN ks t (th t) s = Some (p, s')"
  shows "step_ok s' th t p"
proof -
  obtain e f S where St: "Start FN (fw_objs s r) (fw_sock s) = (e, f, S)" by (metis surj_pair)
  have s': "p = (if e = None then FIdle else FUnregister r)"
    "s' = (set_fw r f S s)\<lparr>fw_pending := (if e = None then fw_pending s - {r} else fw_pending s)\<rparr>"
    using A at St by (auto simp: set_fw_def split: option.splits)
  have me: "r < fw_next s" "r \<in> fw_pending s" "f_Type (fw_objs s r) \<noteq> ''local'' \<longrightarrow> held_listener (fw_objs s r) = None"
    using P[of t] at by auto
  note F = Start_held[OF St me(3) held_open[OF O me(1)]]
  have m: "mapped s' x = mapped s x" for x by (rule mapped_set[OF F(1)]) (simp_all add: s')
  have one: "adds (th t') = Some r \<Longrightarrow> t' = t" for t' using hand_adds[OF H, of t' r t] at by simp
  have "obj_inv (set_fw r f S s)"
    by (rule obj_set[OF O me(1) F(1) _ F(4,6,5)]) (use mapped_less[OF O, of r] F(2) in simp)
  then have O': "obj_inv s'" unfolding s' by (rule obj_pending_sub) auto
  have P': "pc_inv s' t' (th t')" if "t' \<noteq> t" for t'
    using P[of t'] one[of t'] that m by (cases "th t'") (auto simp: s'(2))
  show ?thesis
  proof (rule stepI[OF O' P' _ H], goal_cases)
    case 2 then show ?case using me F by (simp add: s')
  next
    case (7 x l)
    show ?case
    proof (cases "x = r")
      case True
      have "\<not> f_closed (fw_objs s r)" using 7 True F(2) by (auto simp: s' held_listener_def split: if_splits)
      then show ?thesis using hand_other(2)[OF H at, of t] True m at by auto
    next
      case False
      then show ?thesis using 7 hand_other(1)[OF H, of x l t] m[of x] at by (simp add: s')
    qed
  next
    case (8 t' x)
    then have "x \<noteq> r" using one[of t'] by auto
    then show ?case using 8 hand_other(2)[OF H, of t' x t] m[of x] at by (simp add: s')
  qed (use one in \<open>auto simp: s'(1) split: if_splits\<close>)
qed

lemma step_FUnregister:
  assumes O: "obj_inv s" and P: "\<And>t. pc_inv s t (th t)" and H: "hand_inv s th"
    and at: "th t = FUnregister r" and A: "fadvance FN ks t (th t) s = Some (p, s')"
  shows "step_ok s' th t p"
proof -
  have rd: "fw_readers s = {}" and s': "p = FIdle"
    "s' = s\<lparr>fw_map := (fw_map s)(f_ID (fw_objs s r) := None), fw_pending := fw_pending s - {r}\<rparr>"
    using A at by (auto split: if_splits)
  have me: "r < fw_next s" "held_listener (fw_objs s r) = None" using P[of t] at by auto
  have m: "mapped s' x = (mapped s x \<and> x \<noteq> r)" if "x < fw_next s" for x
    by (rule mapped_map(2)[OF O that me(1)]) (simp_all add: s')
  have one: "adds (th t') = Some r \<Longrightarrow> t' = t" for t' using hand_adds[OF H, of t' r t] at by simp
  have O': "obj_inv s'" by (rule obj_map_del[OF O]) (auto simp: s')
  have P': "pc_inv s' t' (th t')" if "t' \<noteq> t" for t'
    using P[of t'] one[of t'] that rd m by (cases "th t'") (auto simp: s'(2))
  show ?thesis
  proof (rule stepI[OF O' P' _ H], goal_cases)
    case (7 x l)
    then have "x \<noteq> r" using me(2) by (auto simp: s')
    then show ?case using 7 hand_other(1)[OF H, of x l t] m[of x] at by (simp add: s')
  next
    case (8 t' x)
    then have "x \<noteq> r" using one[of t'] by auto
    then show ?case using 8 hand_other(2)[OF H, of t' x t] m[of x] P[of t'] at by (simp add: s')
  qed (auto simp: s'(1))
qed

lemma step_FLookup:
  assumes O: "obj_inv s" and P: "\<And>t. pc_inv s t (th t)" and H: "hand_inv s th"
    and at: "th t = FLookup i" and g: "go_ok ks (th t) s" and A: "fadvance FN ks t (th t) s = Some (p, s')"
  shows "step_ok s' th t p"
proof -
  have rd: "fw_readers s = {}" using A at by (auto split: if_splits)
  show ?thesis
  proof (cases "find_forward ks i (fw_map s)")
    case (Inl e)
    then have s': "p = FIdle" "s' = s" using A at rd by auto
    show ?thesis
    proof (rule stepI[OF _ _ _ H], goal_cases)
      case (8 x l) then show ?case using hand_other(1)[OF H, of x l t] at by (simp add: s')
    next
      case (9 t' x) then show ?case using hand_other(2)[OF H, of t' x t] at by (simp add: s')
    qed (use O P in \<open>auto simp: s'\<close>)
  next
    case (Inr kr)
    obtain k r where kr: "kr = (k, r)" by fastforce
    have k: "fw_map s k = Some r" using find_forward_Inr[of "fw_map s" ks i k r] g Inr kr by (simp add: go_ok_def)
    note me = obj_map[OF O k]
    have s': "p = FShut r" "s' = s\<lparr>fw_map := (fw_map s)(k := None)\<rparr>" using A at rd Inr kr by auto
    have m: "mapped s' x = (mapped s x \<and> x \<noteq> r)" if "x < fw_next s" for x
      by (rule mapped_map(2)[OF O that]) (use me in \<open>auto simp: s'\<close>)
    have mr: "mapped s r" using k me by (simp add: mapped_def)
    have O': "obj_inv s'" by (rule obj_map_del[OF O]) (auto simp: s')
    have P': "pc_inv s' t' (th t')" for t'
      using P[of t'] rd m by (cases "th t'") (auto simp: s'(2))
    have none: "th t' \<noteq> FShut r" "th t' \<noteq> FRegister r" for t' using P[of t'] mr by auto
    have no: "shuts (th t') \<noteq> Some r" for t' using none(1)[of t'] by (cases "th t'") auto
    show ?thesis
    proof (rule stepI[OF O' P' _ H], goal_cases)
      case 1 then show ?case using m[of r] me by (simp add: s')
    next
      case (6 x l) then show ?case using hand_other(1)[OF H, of x l t] m[of x] at by (auto simp: s')
    next
      case (7 t' x) then show ?case using hand_other(2)[OF H, of t' x t] m[of x] P[of t'] at by (auto simp: s')
    qed (use no none in \<open>auto simp: s'(1)\<close>)
  qed
qed

lemma step_FShut:
  assumes O: "obj_inv s" and P: "\<And>t. pc_inv s t (th t)" and H: "hand_inv s th"
    and at: "th t = FShut r" and A: "fadvance FN ks t (th t) s = Some (p, s')"
  shows "step_ok s' th t p"
proof -
  obtain f S where C: "Forwarder_Close (fw_objs s r) (fw_sock s) = (f, S)" by fastforce
  have s': "p = FIdle" "s' = set_fw r f S s" using A at C by auto
  have me: "r < fw_next s" "\<not> mapped s r" using P[of t] at by auto
  note F = Close_held[OF C]
  have m: "mapped s' x = mapped s x" for x by (rule mapped_set[OF F(1)]) (simp_all add: s')
  have O': "obj_inv s'" unfolding s' by (rule obj_set[OF O me(1) F(1) _ F(4)]) (use me F in auto)
  have P': "pc_inv s' t' (th t')" if "t' \<noteq> t" for t'
    using P[of t'] that m F hand_apart[OF H, of t' r t] at by (cases "th t'") (auto simp: s'(2))
  show ?thesis
  proof (rule stepI[OF O' P' _ H], goal_cases)
    case (7 x l)
    then have "x \<noteq> r" using F(6) by (auto simp: s')
    then show ?case using 7 hand_other(1)[OF H, of x l t] m[of x] at by (auto simp: s')
  next
    case (8 t' x)
    then show ?case using hand_other(2)[OF H, of t' x t] m[of x] F(2) at by (cases "x = r") (auto simp: s')
  qed (auto simp: s'(1))
qed

lemma step_FRestartAll:
  assumes O: "obj_inv s" and P: "\<And>t. pc_inv s t (th t)" and H: "hand_inv s th"
    and at: "th t = FRestartAll name c" and g: "go_ok ks (th t) s" and A: "fadvance FN ks t (th t) s = Some (p, s')"
  shows "step_ok s' th t p"
proof -
  let ?rs = "filter (\<lambda>r. f_Session (fw_objs s r) = name) (map (\<lambda>k. the (fw_map s k)) ks)"
  have s': "p = FRestart c ?rs" "s' = s\<lparr>fw_readers := insert t (fw_readers s)\<rparr>" using A at by auto
  have m: "mapped s' x = mapped s x" for x by (simp add: s' mapped_def)
  have "mapped s (the (fw_map s k))" if "k \<in> set ks" for k
    using that g obj_map[OF O, of k] by (auto simp: go_ok_def range_order_def mapped_def)
  then have rs: "mapped s r" if "r \<in> set ?rs" for r using that by auto
  have O': "obj_inv s'" using O by (simp add: s' obj_inv_def)
  have P': "pc_inv s' t' (th t')" for t' using P[of t'] m by (cases "th t'") (auto simp: s')
  show ?thesis
  proof (rule stepI[OF O' P' _ H], goal_cases)
    case 1 then show ?case using rs m by (simp add: s')
  next
    case (6 x l) then show ?case using hand_other(1)[OF H, of x l t] m[of x] at by (simp add: s')
  next
    case (7 t' x) then show ?case using hand_other(2)[OF H, of t' x t] m[of x] at by (simp add: s')
  qed (auto simp: s'(1))
qed

lemma step_FRestart_end:
  assumes O: "obj_inv s" and P: "\<And>t. pc_inv s t (th t)" and H: "hand_inv s th"
    and at: "th t = FRestart c []" and A: "fadvance FN ks t (th t) s = Some (p, s')"
  shows "step_ok s' th t p"
proof -
  have s': "p = FIdle" "s' = s\<lparr>fw_readers := fw_readers s - {t}\<rparr>" using A at by auto
  have m: "mapped s' x = mapped s x" for x by (simp add: s' mapped_def)
  have O': "obj_inv s'" using O by (simp add: s' obj_inv_def)
  have P': "pc_inv s' t' (th t')" if "t' \<noteq> t" for t' using P[of t'] that m by (cases "th t'") (auto simp: s')
  show ?thesis
  proof (rule stepI[OF O' P' _ H], goal_cases)
    case (7 x l) then show ?case using hand_other(1)[OF H, of x l t] m[of x] at by (simp add: s')
  next
    case (8 t' x) then show ?case using hand_other(2)[OF H, of t' x t] m[of x] at by (simp add: s')
  qed (auto simp: s'(1))
qed

text \<open>Here the order matters: a forwarder that is still being added must be local.\<close>

lemma step_FRestart:
  assumes O: "obj_inv s" and P: "\<And>t. pc_inv s t (th t)" and H: "hand_inv s th"
    and at: "th t = FRestart c (r # rs)" and A: "fadvance FN ks t (th t) s = Some (p, s')" and n: "fw_raced s' = {}"
  shows "step_ok s' th t p"
proof -
  obtain f S where R: "Restart FN c (fw_objs s r) (fw_sock s) = (f, S)" by fastforce
  have s': "p = FRestart c rs" "s' = (set_fw r f S s)\<lparr>fw_raced :=
          (if r \<in> fw_pending s \<and> f_Type (fw_objs s r) \<noteq> ''local'' then insert r (fw_raced s) else fw_raced s)\<rparr>"
    using A at R by auto
  have lo: "r \<in> fw_pending s \<Longrightarrow> f_Type (fw_objs s r) = ''local''" using n by (auto simp: s' split: if_splits)
  have me: "mapped s r" "r < fw_next s" "\<not> f_closed (fw_objs s r)" "t \<in> fw_readers s" "\<forall>x \<in> set rs. mapped s x"
    using P[of t] at mapped_less[OF O, of r] by auto
  note F = Restart_held[OF R me(3)]
  have m: "mapped s' x = mapped s x" for x by (rule mapped_set[OF F(1)]) (simp_all add: s')
  have "obj_inv (set_fw r f S s)" by (rule obj_set[OF O me(2) F(1) _ F(4) _ F(5)]) (use F(2,6) in auto)
  then have O': "obj_inv s'" unfolding s' by (simp only: obj_raced)
  have sel: "fw_next s' = fw_next s" "fw_pending s' = fw_pending s" "fw_readers s' = fw_readers s" "fw_objs s' r = f"
    "\<And>x. x \<noteq> r \<Longrightarrow> fw_objs s' x = fw_objs s x" by (simp_all add: s')
  have P': "pc_inv s' t' (th t')" for t'
  proof (cases "th t'")
    case (FRegister x)
    then have "x \<noteq> r" using P[of t'] me(1) by auto
    then show ?thesis using P[of t'] FRegister m sel by simp
  next
    case (FStart x)
    then show ?thesis using P[of t'] m sel lo F(3) by (cases "x = r") simp_all
  next
    case (FUnregister x)
    then have "x \<noteq> r" using P[of t'] me(3) lo by auto
    then show ?thesis using P[of t'] FUnregister m sel by simp
  qed (use P[of t'] m sel in simp_all)
  show ?thesis
  proof (rule stepI[OF O' P' _ H], goal_cases)
    case 1 then show ?case using me m by (simp add: s')
  next
    case (6 x l)
    then show ?case using hand_other(1)[OF H, of x l t] m[of x] me(1) at sel by (cases "x = r") auto
  next
    case (7 t' x)
    then show ?case using hand_other(2)[OF H, of t' x t] m[of x] me(1) at sel by (cases "x = r") auto
  qed (auto simp: s'(1))
qed

lemma fadvance_inv:
  assumes O: "obj_inv s" and P: "\<And>t. pc_inv s t (th t)" and H: "hand_inv s th" and g: "go_ok ks (th t) s"
    and A: "fadvance FN ks t (th t) s = Some (p, s')" and n: "fw_raced s' = {}"
  shows "step_ok s' th t p"
proof (cases "th t")
  case FIdle
  then show ?thesis using A by simp
next
  case FNew
  then show ?thesis by (rule step_FNew[OF O P H _ g A])
next
  case FRegister
  then show ?thesis by (rule step_FRegister[OF O P H _ A])
next
  case FStart
  then show ?thesis by (rule step_FStart[OF O P H _ A])
next
  case FUnregister
  then show ?thesis by (rule step_FUnregister[OF O P H _ A])
next
  case FLookup
  then show ?thesis by (rule step_FLookup[OF O P H _ g A])
next
  case FShut
  then show ?thesis by (rule step_FShut[OF O P H _ A])
next
  case FRestartAll
  then show ?thesis by (rule step_FRestartAll[OF O P H _ g A])
next
  case (FRestart c rs)
  show ?thesis
  proof (cases rs)
    case Nil
    show ?thesis by (rule step_FRestart_end[OF O P H FRestart[unfolded Nil] A])
  next
    case (Cons r rs')
    show ?thesis by (rule step_FRestart[OF O P H FRestart[unfolded Cons] A n])
  qed
qed


lemma fadvance_raced: "fadvance FN ks t p s = Some (p', s') \<Longrightarrow> fw_raced s \<subseteq> fw_raced s'"
  by (cases "(FN, ks, t, p, s)" rule: fadvance.cases)
     (auto simp: set_fw_def split: prod.splits sum.splits option.splits if_splits)

text \<open>Readers and the domain of the map, whatever is restarted.\<close>

lemma fadvance_lock:
  assumes "lock_inv w" "fadvance FN ks t (fthr w t) (fsh w) = Some (p, s)"
  shows "lock_inv (w\<lparr>fsh := s, fthr := (fthr w)(t := p)\<rparr>)"
proof -
  have "(fw_readers s \<subseteq> fw_readers (fsh w) \<and> t \<notin> fw_readers s
         \<or> fw_readers s \<subseteq> insert t (fw_readers (fsh w)) \<and> (\<exists>c rs. p = FRestart c rs))
      \<and> finite (dom (fw_map s))"
  proof (cases "t \<in> fw_readers (fsh w)")
    case True
    then obtain c rs where "fthr w t = FRestart c rs" using assms(1) by (auto simp: lock_inv_def)
    then show ?thesis using assms
      by (cases rs) (auto simp: lock_inv_def set_fw_def split: prod.splits)
  next
    case False
    then show ?thesis using assms
      by (cases "(FN, ks, t, fthr w t, fsh w)" rule: fadvance.cases)
         (auto simp: lock_inv_def set_fw_def split: prod.splits sum.splits option.splits if_splits)
  qed
  then show ?thesis using assms(1) by (auto simp: lock_inv_def)
qed

section \<open>Reachable states\<close>

lemma fwd_init_inv: "fwd_inv fwd_init \<and> lock_inv fwd_init"
  by (simp add: fwd_inv_def obj_inv_def hand_inv_def lock_inv_def fwd_init_def NewService_def)

lemma frequest_sel: "frequest p \<Longrightarrow> adds p = None \<and> shuts p = None \<and> pc_inv s t p \<and> p \<noteq> FRegister r \<and> p \<noteq> FShut r \<and> p \<noteq> FStart r"
  by (cases p) auto

lemma fwd_inv_spawn:
  assumes I: "fwd_inv w" and i: "fthr w t = FIdle" and p: "frequest p"
  shows "fwd_inv (w\<lparr>fthr := (fthr w)(t := p)\<rparr>)"
proof -
  note P = frequest_sel[OF p]
  have H: "hand_inv (fsh w) (fthr w)" "obj_inv (fsh w)" "\<And>t. pc_inv (fsh w) t (fthr w t)" using I by (auto simp: fwd_inv_def)
  have "step_ok (fsh w) (fthr w) t p"
  proof (rule stepI[OF H(2,3) _ H(1)], goal_cases)
    case (6 x l) then show ?case using hand_other(1)[OF H(1), of x l t] i by auto
  next
    case (7 t' x) then show ?case using hand_other(2)[OF H(1), of t' x t] i by auto
  qed (use P in auto)
  then show ?thesis by (simp add: fwd_inv_def)
qed

interpretation fwd_machine: state_machine "\<lambda>w. w = fwd_init"
    "\<lambda>w. (fw_raced (fsh w) = {} \<longrightarrow> fwd_inv w) \<and> lock_inv w" "fwd_step FN" for FN
proof
  show "w = fwd_init \<Longrightarrow> (fw_raced (fsh w) = {} \<longrightarrow> fwd_inv w) \<and> lock_inv w" for w by (simp add: fwd_init_inv)
next
  fix w w' assume I: "(fw_raced (fsh w) = {} \<longrightarrow> fwd_inv w) \<and> lock_inv w" and S: "fwd_step FN w w'"
  from S show "(fw_raced (fsh w') = {} \<longrightarrow> fwd_inv w') \<and> lock_inv w'"
  proof (cases rule: fwd_step.cases)
    case (fspawn t p)
    then show ?thesis using I fwd_inv_spawn[of w t p] by (auto simp: lock_inv_def)
  next
    case (frun ks t p s)
    have "fwd_inv w'" if n: "fw_raced s = {}"
    proof -
      have "fw_raced (fsh w) = {}" using fadvance_raced[OF frun(3)] n by auto
      then have J: "obj_inv (fsh w)" "\<And>t. pc_inv (fsh w) t (fthr w t)" "hand_inv (fsh w) (fthr w)"
        using I by (auto simp: fwd_inv_def)
      show ?thesis using fadvance_inv[OF J frun(2,3) n] frun(1) by (simp add: fwd_inv_def)
    qed
    then show ?thesis using fadvance_lock[OF conjunct2[OF I] frun(3)] frun(1) by simp
  qed
qed

lemmas fwd_reach = fwd_machine.reach_inv[OF _ refl]

section \<open>Properties\<close>

text \<open>
  C15: no forward leaks a listener, whatever the interleaving of adding and closing forwards and of
  the restarts after reconnections, unless a remote forward was restarted while it was being added.
  Every open listener is held by exactly one forwarder; that forwarder is in the service's map, or
  a goroutine is about to put it there or to close it; and when no goroutine is at work, the open
  listeners are those of the forwards in the map, each of one.
\<close>

theorem forward_races_exact:
  assumes "(fwd_step FN)\<^sup>*\<^sup>* fwd_init w" "fw_raced (fsh w) = {}"
  shows "(\<forall>l. l \<in> openL (fw_sock (fsh w)) \<longleftrightarrow> (\<exists>!r. r < fw_next (fsh w) \<and> held_listener (fw_objs (fsh w) r) = Some l))
    \<and> (\<forall>r l. r < fw_next (fsh w) \<and> held_listener (fw_objs (fsh w) r) = Some l \<longrightarrow>
          mapped (fsh w) r \<or> (\<exists>t. fthr w t = FRegister r \<or> fthr w t = FShut r))
    \<and> ((\<forall>t. fthr w t = FIdle) \<longrightarrow> (\<forall>l. l \<in> openL (fw_sock (fsh w)) \<longleftrightarrow>
          (\<exists>!n. \<exists>r. fw_map (fsh w) n = Some r \<and> f_listener (fw_objs (fsh w) r) = Some l)))"
proof -
  have I: "obj_inv (fsh w)" "hand_inv (fsh w) (fthr w)" using fwd_reach[OF assms(1)] assms(2) by (auto simp: fwd_inv_def)
  have 1: "l \<in> openL (fw_sock (fsh w)) \<longleftrightarrow> (\<exists>!r. r < fw_next (fsh w) \<and> held_listener (fw_objs (fsh w) r) = Some l)" for l
    using obj_open[OF I(1)] obj_inj[OF I(1)] by metis
  have 2: "mapped (fsh w) r \<or> (\<exists>t. fthr w t = FRegister r \<or> fthr w t = FShut r)"
    if "r < fw_next (fsh w)" "held_listener (fw_objs (fsh w) r) = Some l" for r l
    using hand_holds[OF I(2) that] .
  have 3: "l \<in> openL (fw_sock (fsh w)) \<longleftrightarrow> (\<exists>!n. \<exists>r. fw_map (fsh w) n = Some r \<and> f_listener (fw_objs (fsh w) r) = Some l)"
    if idle: "\<forall>t. fthr w t = FIdle" for l
  proof -
    have "fw_map (fsh w) n = Some r \<and> f_listener (fw_objs (fsh w) r) = Some l \<longleftrightarrow>
        r < fw_next (fsh w) \<and> held_listener (fw_objs (fsh w) r) = Some l \<and> n = f_ID (fw_objs (fsh w) r)" for n r
      using obj_map[OF I(1), of n r] 2[of r l] idle by (auto simp: held_listener_def mapped_def split: if_splits)
    then have "(\<exists>r. fw_map (fsh w) n = Some r \<and> f_listener (fw_objs (fsh w) r) = Some l) \<longleftrightarrow>
        (\<exists>r < fw_next (fsh w). held_listener (fw_objs (fsh w) r) = Some l \<and> n = f_ID (fw_objs (fsh w) r))" for n by blast
    moreover have "l \<in> openL (fw_sock (fsh w)) \<longleftrightarrow>
        (\<exists>!n. \<exists>r < fw_next (fsh w). held_listener (fw_objs (fsh w) r) = Some l \<and> n = f_ID (fw_objs (fsh w) r))"
      using obj_open[OF I(1), of l] obj_inj[OF I(1)] by blast
    ultimately show ?thesis by simp
  qed
  show ?thesis using 1 2 3 by blast
qed

definition leak_net :: fnet where
  "leak_net = \<lparr>tcp_listen = (\<lambda>_ _. None),
     ssh_listen = (\<lambda>n _ _. if n = 0 then None else Some (ExtErr ''ssh: tcpip-forward request denied by peer''))\<rparr>"

text \<open>The states of the run: the forwarder and what has become of the service.\<close>

definition leak_fw :: "cid \<Rightarrow> lid option \<Rightarrow> nat \<Rightarrow> Forwarder" where
  "leak_fw c l n = \<lparr>f_ID = ''id'', f_Session = ''u@h'', f_Type = ''remote'', f_LocalPort = 80, f_RemotePort = 8080,
     f_BindAddr = ''127.0.0.1'', f_sshClient = Some c, f_listener = l, f_conns = {}, f_closed = False, f_loops = n\<rparr>"

definition leak_sh :: "(string \<rightharpoonup> nat) \<Rightarrow> nat set \<Rightarrow> nat set \<Rightarrow> nat set \<Rightarrow> Forwarder \<Rightarrow> lid set \<Rightarrow> nat \<Rightarrow> fshared" where
  "leak_sh m rd pe ra f L n = \<lparr>fw_objs = (fw_objs (fsh fwd_init))(0 := f), fw_next = 1, fw_map = m,
     fw_sock = \<lparr>openL = L, nextL = card L, openC = {}, listens = n\<rparr>, fw_readers = rd, fw_pending = pe, fw_raced = ra\<rparr>"

lemma leak_sections:
  "fadvance leak_net ks t (FNew ''id'' 0 ''u@h'' ''remote'' 80 8080 []) (fsh fwd_init) =
     Some (FRegister 0, leak_sh Map.empty {} {} {} (leak_fw 0 None 0) {} 0)"
  "fadvance leak_net ks t (FRegister 0) (leak_sh Map.empty {} {} {} (leak_fw 0 None 0) {} 0) =
     Some (FStart 0, leak_sh [''id'' \<mapsto> 0] {} {0} {} (leak_fw 0 None 0) {} 0)"
  "fadvance leak_net [''id''] 1 (FRestartAll ''u@h'' (Some 1)) (leak_sh [''id'' \<mapsto> 0] {} {0} {} (leak_fw 0 None 0) {} 0) =
     Some (FRestart (Some 1) [0], leak_sh [''id'' \<mapsto> 0] {1} {0} {} (leak_fw 0 None 0) {} 0)"
  "fadvance leak_net ks 1 (FRestart (Some 1) [0]) (leak_sh [''id'' \<mapsto> 0] {1} {0} {} (leak_fw 0 None 0) {} 0) =
     Some (FRestart (Some 1) [], leak_sh [''id'' \<mapsto> 0] {1} {0} {0} (leak_fw 1 (Some 0) 1) {0} 1)"
  "fadvance leak_net ks 1 (FRestart (Some 1) []) (leak_sh [''id'' \<mapsto> 0] {1} {0} {0} (leak_fw 1 (Some 0) 1) {0} 1) =
     Some (FIdle, leak_sh [''id'' \<mapsto> 0] {} {0} {0} (leak_fw 1 (Some 0) 1) {0} 1)"
  "fadvance leak_net ks t (FStart 0) (leak_sh [''id'' \<mapsto> 0] {} {0} {0} (leak_fw 1 (Some 0) 1) {0} 1) =
     Some (FUnregister 0, leak_sh [''id'' \<mapsto> 0] {} {0} {0} (leak_fw 1 (Some 0) 1) {0} 2)"
  "fadvance leak_net ks t (FUnregister 0) (leak_sh [''id'' \<mapsto> 0] {} {0} {0} (leak_fw 1 (Some 0) 1) {0} 2) =
     Some (FIdle, leak_sh Map.empty {} {} {0} (leak_fw 1 (Some 0) 1) {0} 2)"
  by (simp_all add: leak_sh_def leak_fw_def leak_net_def fwd_init_def NewService_def NewForwarder_def Let_def set_fw_def
        Restart_def Start_def startRemoteForward_def listen_def shut_def)

lemma leak_go:
  "go_ok [] p (fsh fwd_init)" "go_ok [] (FRegister 0) (leak_sh Map.empty rd pe ra f L n)"
  "go_ok [''id''] (FRestartAll nm c) (leak_sh [''id'' \<mapsto> 0] rd pe ra f L n)"
  "go_ok [''id''] (FRestart c rs) (leak_sh [''id'' \<mapsto> 0] rd pe ra f L n)"
  "go_ok [''id''] (FStart 0) (leak_sh [''id'' \<mapsto> 0] rd pe ra f L n)"
  "go_ok [''id''] (FUnregister 0) (leak_sh [''id'' \<mapsto> 0] rd pe ra f L n)"
  by (simp_all add: go_ok_def leak_sh_def fwd_init_def range_order_def split: fpc.split)

text \<open>Two goroutines, at \<open>p\<close> and at \<open>q\<close>.\<close>

definition leak_world :: "fshared \<Rightarrow> fpc \<Rightarrow> fpc \<Rightarrow> fworld" where
  "leak_world s p q = \<lparr>fsh = s, fthr = (\<lambda>_. FIdle)(0 := p, 1 := q)\<rparr>"

lemma leak_first:
  assumes "fadvance FN ks 0 p s = Some (p', s')" "go_ok ks p s"
  shows "(fwd_step FN)\<^sup>*\<^sup>* (leak_world s p q) (leak_world s' p' q)"
proof -
  have "leak_world s' p' q = (leak_world s p q)\<lparr>fsh := s', fthr := (fthr (leak_world s p q))(0 := p')\<rparr>"
    by (simp add: leak_world_def fun_upd_twist)
  moreover have "fwd_step FN (leak_world s p q) \<dots>"
    by (rule frun[of ks _ 0]) (use assms in \<open>simp_all add: leak_world_def\<close>)
  ultimately show ?thesis by auto
qed

lemma leak_second:
  assumes "fadvance FN ks 1 q s = Some (q', s')" "go_ok ks q s"
  shows "(fwd_step FN)\<^sup>*\<^sup>* (leak_world s p q) (leak_world s' p q')"
proof -
  have "leak_world s' p q' = (leak_world s p q)\<lparr>fsh := s', fthr := (fthr (leak_world s p q))(1 := q')\<rparr>"
    by (simp add: leak_world_def)
  moreover have "fwd_step FN (leak_world s p q) \<dots>"
    by (rule frun[of ks _ 1]) (use assms in \<open>simp_all add: leak_world_def\<close>)
  ultimately show ?thesis by auto
qed

lemma leak_spawn:
  "frequest p \<Longrightarrow> fwd_step FN (leak_world s FIdle q) (leak_world s p q)"
  "frequest q \<Longrightarrow> fwd_step FN (leak_world s p FIdle) (leak_world s p q)"
  using fspawn[of "leak_world s FIdle q" 0 p FN] fspawn[of "leak_world s p FIdle" 1 q FN]
  by (simp_all add: leak_world_def fun_upd_twist)

lemma leak_reach:
  "(fwd_step leak_net)\<^sup>*\<^sup>* fwd_init (leak_world (leak_sh [''id'' \<mapsto> 0] {} {0} {} (leak_fw 0 None 0) {} 0) (FStart 0) FIdle)"
  "(fwd_step leak_net)\<^sup>*\<^sup>* (leak_world (leak_sh [''id'' \<mapsto> 0] {} {0} {} (leak_fw 0 None 0) {} 0) (FStart 0) FIdle)
     (leak_world (leak_sh Map.empty {} {} {0} (leak_fw 1 (Some 0) 1) {0} 2) FIdle FIdle)"
proof -
  have i: "fwd_init = leak_world (fsh fwd_init) FIdle FIdle" by (simp add: leak_world_def fwd_init_def fun_eq_iff)
  have "(fwd_step leak_net)\<^sup>*\<^sup>* fwd_init (leak_world (fsh fwd_init) (FNew ''id'' 0 ''u@h'' ''remote'' 80 8080 []) FIdle)"
    by (subst i, rule r_into_rtranclp, rule leak_spawn(1)) simp
  note rtranclp_trans[OF this leak_first[OF leak_sections(1) leak_go(1)]]
  from rtranclp_trans[OF this leak_first[OF leak_sections(2) leak_go(2)]]
  show "(fwd_step leak_net)\<^sup>*\<^sup>* fwd_init (leak_world (leak_sh [''id'' \<mapsto> 0] {} {0} {} (leak_fw 0 None 0) {} 0) (FStart 0) FIdle)" .
next
  have "(fwd_step leak_net)\<^sup>*\<^sup>* (leak_world (leak_sh [''id'' \<mapsto> 0] {} {0} {} (leak_fw 0 None 0) {} 0) (FStart 0) FIdle)
     (leak_world (leak_sh [''id'' \<mapsto> 0] {} {0} {} (leak_fw 0 None 0) {} 0) (FStart 0) (FRestartAll ''u@h'' (Some 1)))"
    by (rule r_into_rtranclp, rule leak_spawn(2)) simp
  note rtranclp_trans[OF this leak_second[OF leak_sections(3) leak_go(3)]]
  note rtranclp_trans[OF this leak_second[OF leak_sections(4) leak_go(4)]]
  note rtranclp_trans[OF this leak_second[OF leak_sections(5) leak_go(4)]]
  note rtranclp_trans[OF this leak_first[OF leak_sections(6) leak_go(5)]]
  from rtranclp_trans[OF this leak_first[OF leak_sections(7) leak_go(6)]]
  show "(fwd_step leak_net)\<^sup>*\<^sup>* (leak_world (leak_sh [''id'' \<mapsto> 0] {} {0} {} (leak_fw 0 None 0) {} 0) (FStart 0) FIdle)
     (leak_world (leak_sh Map.empty {} {} {0} (leak_fw 1 (Some 0) 1) {0} 2) FIdle FIdle)" .
qed

text \<open>
  C36: a remote forward that is restarted while it is being added can leak its listener.  There is a
  run in which a session reconnects between the registration of a remote forward and its start; the
  restart opens the listener, the start then fails because the port is taken, and \<open>Add\<close> removes the
  forward from the map: at the end no goroutine is at work, no forward is registered, and the
  listener is open.
\<close>

theorem forward_add_race_leaks:
  "\<exists>w. (fwd_step leak_net)\<^sup>*\<^sup>* fwd_init w \<and> (\<forall>t. fthr w t = FIdle) \<and> fw_map (fsh w) = Map.empty
     \<and> openL (fw_sock (fsh w)) = {0}"
  by (rule exI, rule conjI[OF rtranclp_trans[OF leak_reach]]) (simp add: leak_world_def leak_sh_def)

text \<open>A local forward whose listener is open and which is about to be registered.\<close>

definition local_sh :: fshared where
  "local_sh = leak_sh Map.empty {} {} {} ((leak_fw 0 (Some 0) 0)\<lparr>f_Type := ''local''\<rparr>) {0} 1"

lemma local_reach: "(fwd_step leak_net)\<^sup>*\<^sup>* fwd_init (leak_world local_sh (FRegister 0) FIdle)"
proof -
  have i: "fwd_init = leak_world (fsh fwd_init) FIdle FIdle" by (simp add: leak_world_def fwd_init_def fun_eq_iff)
  have "(fwd_step leak_net)\<^sup>*\<^sup>* fwd_init (leak_world (fsh fwd_init) (FNew ''id'' 0 ''u@h'' ''local'' 80 8080 []) FIdle)"
    by (subst i, rule r_into_rtranclp, rule leak_spawn(1)) simp
  moreover have "fadvance leak_net [] 0 (FNew ''id'' 0 ''u@h'' ''local'' 80 8080 []) (fsh fwd_init) = Some (FRegister 0, local_sh)"
    by (simp add: local_sh_def leak_sh_def leak_fw_def leak_net_def fwd_init_def NewService_def NewForwarder_def Let_def set_fw_def
        listen_def)
  ultimately show ?thesis using leak_first[OF _ leak_go(1)] rtranclp_trans by metis
qed

theorem forward_races_exact_witness:
  "(fwd_step leak_net)\<^sup>*\<^sup>* fwd_init (leak_world local_sh (FRegister 0) FIdle) \<and> 0 \<in> openL (fw_sock local_sh)
   \<and> (\<exists>!r. r < fw_next local_sh \<and> held_listener (fw_objs local_sh r) = Some 0)"
proof -
  have sel: "fsh (leak_world local_sh (FRegister 0) FIdle) = local_sh" "fw_raced local_sh = {}" "openL (fw_sock local_sh) = {0}"
    by (simp_all add: leak_world_def local_sh_def leak_sh_def)
  show ?thesis
    using conjunct1[OF forward_races_exact[OF local_reach, unfolded sel, OF refl], rule_format, of 0] local_reach sel(3) by blast
qed



end
