(* ===== verification/Protocol.thy ===== *)
theory Protocol
  imports Imsg
begin

text \<open>
  \<open>internal/protocol\<close>: the message types, the request and result structures, and their JSON
  form.  \<open>EncodePayload\<close> and \<open>DecodePayload\<close> are \<open>encoding/json\<close>: the structure tags decide the
  object built and read, which is modelled here on JSON values; the text of a JSON value is the
  standard library's and stays a parameter of the components that send it.
\<close>

section \<open>Message types\<close>

definition MsgConnect :: "16 word" where "MsgConnect = 1"
definition MsgLocal :: "16 word" where "MsgLocal = 2"
definition MsgKill :: "16 word" where "MsgKill = 4"
definition MsgExec :: "16 word" where "MsgExec = 6"
definition MsgLocalExec :: "16 word" where "MsgLocalExec = 7"
definition MsgList :: "16 word" where "MsgList = 8"
definition MsgUse :: "16 word" where "MsgUse = 9"
definition MsgForward :: "16 word" where "MsgForward = 10"
definition MsgForwards :: "16 word" where "MsgForwards = 11"
definition MsgForwardClose :: "16 word" where "MsgForwardClose = 12"
definition MsgSCP :: "16 word" where "MsgSCP = 13"
definition MsgSFTPLs :: "16 word" where "MsgSFTPLs = 14"
definition MsgSFTPMkdir :: "16 word" where "MsgSFTPMkdir = 15"
definition MsgSFTPRm :: "16 word" where "MsgSFTPRm = 16"
definition MsgPing :: "16 word" where "MsgPing = 18"
definition MsgStop :: "16 word" where "MsgStop = 19"
definition MsgExecStream :: "16 word" where "MsgExecStream = 20"
definition MsgLocalExecStream :: "16 word" where "MsgLocalExecStream = 21"
definition MsgResult :: "16 word" where "MsgResult = 100"
definition MsgError :: "16 word" where "MsgError = 101"
definition MsgPong :: "16 word" where "MsgPong = 102"
definition MsgStreamChunk :: "16 word" where "MsgStreamChunk = 103"
definition MsgStreamEnd :: "16 word" where "MsgStreamEnd = 104"

definition request_types :: "16 word list" where
  "request_types = [MsgConnect, MsgLocal, MsgKill, MsgExec, MsgLocalExec, MsgList, MsgUse, MsgForward,
     MsgForwards, MsgForwardClose, MsgSCP, MsgSFTPLs, MsgSFTPMkdir, MsgSFTPRm, MsgPing, MsgStop,
     MsgExecStream, MsgLocalExecStream]"

definition response_types :: "16 word list" where
  "response_types = [MsgResult, MsgError, MsgPong, MsgStreamChunk, MsgStreamEnd]"

lemmas msg_defs = MsgConnect_def MsgLocal_def MsgKill_def MsgExec_def MsgLocalExec_def MsgList_def
  MsgUse_def MsgForward_def MsgForwards_def MsgForwardClose_def MsgSCP_def MsgSFTPLs_def
  MsgSFTPMkdir_def MsgSFTPRm_def MsgPing_def MsgStop_def MsgExecStream_def MsgLocalExecStream_def
  MsgResult_def MsgError_def MsgPong_def MsgStreamChunk_def MsgStreamEnd_def

lemma message_types_distinct: "distinct (request_types @ response_types)"
  by (simp add: request_types_def response_types_def msg_defs)

section \<open>Structures\<close>

record SudoOptions =
  so_Enabled :: bool
  so_Password :: string
  so_User :: string
  so_Login :: bool

record ExecResult =
  er_Stdout :: string
  er_Stderr :: string
  er_ExitCode :: int

record SessionInfo =
  si_Name :: string
  si_Type :: string
  si_Host :: string
  si_User :: string
  si_Port :: int
  si_Status :: string
  si_KeyPath :: string
  si_LastCmd :: string
  si_CreatedAt :: int

record TransferResult =
  tr_Success :: bool
  tr_Message :: string
  tr_Bytes :: int
  tr_Duration :: int

record ConnectParams =
  cp_Name :: string
  cp_User :: string
  cp_Host :: string
  cp_Port :: int
  cp_Password :: string
  cp_KeyPath :: string

record UseParams =
  up_Name :: string
  up_Password :: string
  up_KeyPath :: string

record ExecParams =
  ep_Name :: string
  ep_Command :: string
  ep_Timeout :: int
  ep_Sudo :: SudoOptions

record LocalExecParams =
  lp_Command :: string
  lp_Timeout :: int
  lp_Sudo :: SudoOptions

record ForwardParams =
  fp_Name :: string
  fp_Type :: string
  fp_LocalPort :: int
  fp_RemotePort :: int
  fp_BindAddr :: string

record SCPParams =
  sp_Name :: string
  sp_Source :: string
  sp_Dest :: string
  sp_IsUpload :: bool

record SFTPParams =
  fs_Name :: string
  fs_Command :: string
  fs_Path :: string

record StreamEnd =
  se_ExitCode :: int
  se_Error :: string

record ErrorPayload =
  pe_Code :: int
  pe_Message :: string

section \<open>JSON values\<close>

datatype json =
    JNull
  | JBool bool
  | JNum int
  | JFrac string
  | JStr string
  | JArr "json list"
  | JObj "(string \<times> json) list"

text \<open>
  Encoding: a field is written under its tag, and left out when it has \<open>omitempty\<close> and the zero
  value of its type.
\<close>

definition ostr :: "string \<Rightarrow> string \<Rightarrow> (string \<times> json) list" where
  "ostr k s = (if s = '''' then [] else [(k, JStr s)])"

definition oint :: "string \<Rightarrow> int \<Rightarrow> (string \<times> json) list" where
  "oint k i = (if i = 0 then [] else [(k, JNum i)])"

definition obool :: "string \<Rightarrow> bool \<Rightarrow> (string \<times> json) list" where
  "obool k b = (if b then [(k, JBool b)] else [])"

definition enc_SudoOptions :: "SudoOptions \<Rightarrow> json" where
  "enc_SudoOptions o1 = JObj ([(''enabled'', JBool (so_Enabled o1))] @ ostr ''password'' (so_Password o1)
     @ ostr ''user'' (so_User o1) @ obool ''login'' (so_Login o1))"

definition enc_ExecResult :: "ExecResult \<Rightarrow> json" where
  "enc_ExecResult r = JObj [(''stdout'', JStr (er_Stdout r)), (''stderr'', JStr (er_Stderr r)),
     (''exit_code'', JNum (er_ExitCode r))]"

definition enc_SessionInfo :: "SessionInfo \<Rightarrow> json" where
  "enc_SessionInfo i = JObj ([(''name'', JStr (si_Name i)), (''type'', JStr (si_Type i)),
     (''host'', JStr (si_Host i)), (''user'', JStr (si_User i))] @ oint ''port'' (si_Port i)
     @ [(''status'', JStr (si_Status i))] @ ostr ''key_path'' (si_KeyPath i)
     @ ostr ''last_cmd'' (si_LastCmd i) @ [(''created_at'', JNum (si_CreatedAt i))])"

definition enc_ConnectParams :: "ConnectParams \<Rightarrow> json" where
  "enc_ConnectParams p = JObj (ostr ''name'' (cp_Name p) @ [(''user'', JStr (cp_User p)), (''host'', JStr (cp_Host p))]
     @ oint ''port'' (cp_Port p) @ ostr ''password'' (cp_Password p) @ ostr ''key_path'' (cp_KeyPath p))"

definition enc_NameParams :: "string \<Rightarrow> json" where
  "enc_NameParams n = JObj (ostr ''name'' n)"

definition enc_UseParams :: "UseParams \<Rightarrow> json" where
  "enc_UseParams p = JObj ([(''name'', JStr (up_Name p))] @ ostr ''password'' (up_Password p)
     @ ostr ''key_path'' (up_KeyPath p))"

definition enc_ExecParams :: "ExecParams \<Rightarrow> json" where
  "enc_ExecParams p = JObj (ostr ''name'' (ep_Name p) @ [(''command'', JStr (ep_Command p))]
     @ oint ''timeout'' (ep_Timeout p) @ [(''sudo'', enc_SudoOptions (ep_Sudo p))])"

definition enc_LocalExecParams :: "LocalExecParams \<Rightarrow> json" where
  "enc_LocalExecParams p = JObj ([(''command'', JStr (lp_Command p))]
     @ oint ''timeout'' (lp_Timeout p) @ [(''sudo'', enc_SudoOptions (lp_Sudo p))])"

definition enc_ForwardParams :: "ForwardParams \<Rightarrow> json" where
  "enc_ForwardParams p = JObj (ostr ''name'' (fp_Name p) @ [(''type'', JStr (fp_Type p)),
     (''local_port'', JNum (fp_LocalPort p)), (''remote_port'', JNum (fp_RemotePort p))]
     @ ostr ''bind_addr'' (fp_BindAddr p))"

definition enc_SCPParams :: "SCPParams \<Rightarrow> json" where
  "enc_SCPParams p = JObj (ostr ''name'' (sp_Name p) @ [(''source'', JStr (sp_Source p)),
     (''dest'', JStr (sp_Dest p)), (''is_upload'', JBool (sp_IsUpload p))])"

definition enc_SFTPParams :: "SFTPParams \<Rightarrow> json" where
  "enc_SFTPParams p = JObj (ostr ''name'' (fs_Name p) @ [(''command'', JStr (fs_Command p)), (''path'', JStr (fs_Path p))])"

definition enc_StreamEnd :: "StreamEnd \<Rightarrow> json" where
  "enc_StreamEnd e = JObj ([(''exit_code'', JNum (se_ExitCode e))] @ ostr ''error'' (se_Error e))"

definition enc_ErrorPayload :: "ErrorPayload \<Rightarrow> json" where
  "enc_ErrorPayload e = JObj [(''code'', JNum (pe_Code e)), (''message'', JStr (pe_Message e))]"

text \<open>
  Decoding into a zero structure: object members are assigned in order to the field whose name
  they match without regard to (ASCII) case, unknown members are skipped, \<open>null\<close> leaves the field
  alone, and a member of the wrong type is an error.  \<open>None\<close> is that error.
\<close>

definition fold_key :: "string \<Rightarrow> string" where
  "fold_key s = map (\<lambda>c. if 65 \<le> (of_char c :: nat) \<and> (of_char c :: nat) \<le> 90
                         then char_of (of_char c + 32 :: nat) else c) s"

fun field :: "(json \<Rightarrow> 'a option) \<Rightarrow> string \<Rightarrow> 'a \<Rightarrow> (string \<times> json) list \<Rightarrow> 'a option" where
  "field conv k v [] = Some v"
| "field conv k v ((k', j) # ms) =
     (if fold_key k' = fold_key k \<and> j \<noteq> JNull
      then (case conv j of None \<Rightarrow> None | Some x \<Rightarrow> field conv k x ms)
      else field conv k v ms)"

fun as_str :: "json \<Rightarrow> string option" where "as_str (JStr s) = Some s" | "as_str _ = None"
fun as_bool :: "json \<Rightarrow> bool option" where "as_bool (JBool b) = Some b" | "as_bool _ = None"

definition int_ok :: "int \<Rightarrow> bool" where "int_ok i \<longleftrightarrow> - (2 ^ 63) \<le> i \<and> i < 2 ^ 63"

fun as_int :: "json \<Rightarrow> int option" where
  "as_int (JNum i) = (if int_ok i then Some i else None)" | "as_int _ = None"

abbreviation "fstr \<equiv> \<lambda>k ms. field as_str k '''' ms"
abbreviation "fint \<equiv> \<lambda>k ms. field as_int k 0 ms"
abbreviation "fbool \<equiv> \<lambda>k ms. field as_bool k False ms"

definition bind_opt :: "'a option \<Rightarrow> ('a \<Rightarrow> 'b option) \<Rightarrow> 'b option" where
  "bind_opt x f = (case x of None \<Rightarrow> None | Some a \<Rightarrow> f a)"

fun dec_SudoOptions :: "json \<Rightarrow> SudoOptions option" where
  "dec_SudoOptions (JObj ms) =
     bind_opt (fbool ''enabled'' ms) (\<lambda>e. bind_opt (fstr ''password'' ms) (\<lambda>p.
     bind_opt (fstr ''user'' ms) (\<lambda>u. bind_opt (fbool ''login'' ms) (\<lambda>l.
       Some \<lparr>so_Enabled = e, so_Password = p, so_User = u, so_Login = l\<rparr>))))"
| "dec_SudoOptions _ = None"

definition zero_sudo :: SudoOptions where
  "zero_sudo = \<lparr>so_Enabled = False, so_Password = '''', so_User = '''', so_Login = False\<rparr>"

fun dec_ExecParams :: "json \<Rightarrow> ExecParams option" where
  "dec_ExecParams (JObj ms) =
     bind_opt (fstr ''name'' ms) (\<lambda>n. bind_opt (fstr ''command'' ms) (\<lambda>c.
     bind_opt (fint ''timeout'' ms) (\<lambda>t. bind_opt (field dec_SudoOptions ''sudo'' zero_sudo ms) (\<lambda>s.
       Some \<lparr>ep_Name = n, ep_Command = c, ep_Timeout = t, ep_Sudo = s\<rparr>))))"
| "dec_ExecParams JNull = Some \<lparr>ep_Name = '''', ep_Command = '''', ep_Timeout = 0, ep_Sudo = zero_sudo\<rparr>"
| "dec_ExecParams _ = None"

fun dec_LocalExecParams :: "json \<Rightarrow> LocalExecParams option" where
  "dec_LocalExecParams (JObj ms) =
     bind_opt (fstr ''command'' ms) (\<lambda>c. bind_opt (fint ''timeout'' ms) (\<lambda>t.
     bind_opt (field dec_SudoOptions ''sudo'' zero_sudo ms) (\<lambda>s.
       Some \<lparr>lp_Command = c, lp_Timeout = t, lp_Sudo = s\<rparr>)))"
| "dec_LocalExecParams JNull = Some \<lparr>lp_Command = '''', lp_Timeout = 0, lp_Sudo = zero_sudo\<rparr>"
| "dec_LocalExecParams _ = None"

fun dec_ConnectParams :: "json \<Rightarrow> ConnectParams option" where
  "dec_ConnectParams (JObj ms) =
     bind_opt (fstr ''name'' ms) (\<lambda>n. bind_opt (fstr ''user'' ms) (\<lambda>u. bind_opt (fstr ''host'' ms) (\<lambda>h.
     bind_opt (fint ''port'' ms) (\<lambda>p. bind_opt (fstr ''password'' ms) (\<lambda>pw. bind_opt (fstr ''key_path'' ms) (\<lambda>k.
       Some \<lparr>cp_Name = n, cp_User = u, cp_Host = h, cp_Port = p, cp_Password = pw, cp_KeyPath = k\<rparr>))))))"
| "dec_ConnectParams JNull =
     Some \<lparr>cp_Name = '''', cp_User = '''', cp_Host = '''', cp_Port = 0, cp_Password = '''', cp_KeyPath = ''''\<rparr>"
| "dec_ConnectParams _ = None"

text \<open>\<open>LocalParams\<close> and \<open>KillParams\<close> have the one field \<open>name\<close>, \<open>ForwardCloseParams\<close> the one field \<open>id\<close>.\<close>

fun dec_one :: "string \<Rightarrow> json \<Rightarrow> string option" where
  "dec_one k (JObj ms) = fstr k ms"
| "dec_one k JNull = Some ''''"
| "dec_one k _ = None"

fun dec_UseParams :: "json \<Rightarrow> UseParams option" where
  "dec_UseParams (JObj ms) =
     bind_opt (fstr ''name'' ms) (\<lambda>n. bind_opt (fstr ''password'' ms) (\<lambda>p. bind_opt (fstr ''key_path'' ms) (\<lambda>k.
       Some \<lparr>up_Name = n, up_Password = p, up_KeyPath = k\<rparr>)))"
| "dec_UseParams JNull = Some \<lparr>up_Name = '''', up_Password = '''', up_KeyPath = ''''\<rparr>"
| "dec_UseParams _ = None"

fun dec_ForwardParams :: "json \<Rightarrow> ForwardParams option" where
  "dec_ForwardParams (JObj ms) =
     bind_opt (fstr ''name'' ms) (\<lambda>n. bind_opt (fstr ''type'' ms) (\<lambda>t. bind_opt (fint ''local_port'' ms) (\<lambda>l.
     bind_opt (fint ''remote_port'' ms) (\<lambda>r. bind_opt (fstr ''bind_addr'' ms) (\<lambda>b.
       Some \<lparr>fp_Name = n, fp_Type = t, fp_LocalPort = l, fp_RemotePort = r, fp_BindAddr = b\<rparr>)))))"
| "dec_ForwardParams JNull =
     Some \<lparr>fp_Name = '''', fp_Type = '''', fp_LocalPort = 0, fp_RemotePort = 0, fp_BindAddr = ''''\<rparr>"
| "dec_ForwardParams _ = None"

fun dec_SCPParams :: "json \<Rightarrow> SCPParams option" where
  "dec_SCPParams (JObj ms) =
     bind_opt (fstr ''name'' ms) (\<lambda>n. bind_opt (fstr ''source'' ms) (\<lambda>s. bind_opt (fstr ''dest'' ms) (\<lambda>d.
     bind_opt (fbool ''is_upload'' ms) (\<lambda>u.
       Some \<lparr>sp_Name = n, sp_Source = s, sp_Dest = d, sp_IsUpload = u\<rparr>))))"
| "dec_SCPParams JNull = Some \<lparr>sp_Name = '''', sp_Source = '''', sp_Dest = '''', sp_IsUpload = False\<rparr>"
| "dec_SCPParams _ = None"

fun dec_SFTPParams :: "json \<Rightarrow> SFTPParams option" where
  "dec_SFTPParams (JObj ms) =
     bind_opt (fstr ''name'' ms) (\<lambda>n. bind_opt (fstr ''command'' ms) (\<lambda>c. bind_opt (fstr ''path'' ms) (\<lambda>p.
       Some \<lparr>fs_Name = n, fs_Command = c, fs_Path = p\<rparr>)))"
| "dec_SFTPParams JNull = Some \<lparr>fs_Name = '''', fs_Command = '''', fs_Path = ''''\<rparr>"
| "dec_SFTPParams _ = None"

fun dec_ErrorPayload :: "json \<Rightarrow> ErrorPayload option" where
  "dec_ErrorPayload (JObj ms) =
     bind_opt (fint ''code'' ms) (\<lambda>c. bind_opt (fstr ''message'' ms) (\<lambda>m. Some \<lparr>pe_Code = c, pe_Message = m\<rparr>))"
| "dec_ErrorPayload JNull = Some \<lparr>pe_Code = 0, pe_Message = ''''\<rparr>"
| "dec_ErrorPayload _ = None"

fun dec_ExecResult :: "json \<Rightarrow> ExecResult option" where
  "dec_ExecResult (JObj ms) =
     bind_opt (fstr ''stdout'' ms) (\<lambda>so. bind_opt (fstr ''stderr'' ms) (\<lambda>se. bind_opt (fint ''exit_code'' ms) (\<lambda>c.
       Some \<lparr>er_Stdout = so, er_Stderr = se, er_ExitCode = c\<rparr>)))"
| "dec_ExecResult JNull = Some \<lparr>er_Stdout = '''', er_Stderr = '''', er_ExitCode = 0\<rparr>"
| "dec_ExecResult _ = None"

fun dec_StreamEnd :: "json \<Rightarrow> StreamEnd option" where
  "dec_StreamEnd (JObj ms) =
     bind_opt (fint ''exit_code'' ms) (\<lambda>c. bind_opt (fstr ''error'' ms) (\<lambda>e. Some \<lparr>se_ExitCode = c, se_Error = e\<rparr>))"
| "dec_StreamEnd JNull = Some \<lparr>se_ExitCode = 0, se_Error = ''''\<rparr>"
| "dec_StreamEnd _ = None"

section \<open>Lemmas\<close>

lemma field_append: "field conv k v (xs @ ys) = bind_opt (field conv k v xs) (\<lambda>x. field conv k x ys)"
  by (induction conv k v xs rule: field.induct) (auto simp: bind_opt_def split: option.splits)

lemma field_ostr:
  "field as_str k '''' (ostr k s) = Some s"
  "fold_key k' \<noteq> fold_key k \<Longrightarrow> field conv k v (ostr k' s) = Some v"
  by (auto simp: ostr_def)

lemma field_oint:
  "int_ok i \<Longrightarrow> field as_int k 0 (oint k i) = Some i"
  "fold_key k' \<noteq> fold_key k \<Longrightarrow> field conv k v (oint k' i) = Some v"
  by (auto simp: oint_def)

lemma field_obool:
  "field as_bool k False (obool k b) = Some b"
  "fold_key k' \<noteq> fold_key k \<Longrightarrow> field conv k v (obool k' b) = Some v"
  by (auto simp: obool_def)

lemma bind_opt_simps [simp]: "bind_opt (Some a) f = f a" "bind_opt None f = None"
  by (auto simp: bind_opt_def)

lemmas field_rules = field_append field_ostr field_oint field_obool fold_key_def

lemma rt_SudoOptions: "dec_SudoOptions (enc_SudoOptions s) = Some s"
  by (cases s) (simp add: enc_SudoOptions_def field_rules)

lemma enc_not_null [simp]: "enc_SudoOptions s \<noteq> JNull"
  by (simp add: enc_SudoOptions_def)

lemma rt_ConnectParams: "int_ok (cp_Port c) \<Longrightarrow> dec_ConnectParams (enc_ConnectParams c) = Some c"
  by (simp add: enc_ConnectParams_def field_rules)

lemma rt_NameParams: "dec_one ''name'' (enc_NameParams n) = Some n"
  by (simp add: enc_NameParams_def field_rules)

lemma rt_UseParams: "dec_UseParams (enc_UseParams u) = Some u"
  by (simp add: enc_UseParams_def field_rules)

lemma rt_ExecParams: "int_ok (ep_Timeout e) \<Longrightarrow> dec_ExecParams (enc_ExecParams e) = Some e"
  by (simp add: enc_ExecParams_def field_rules rt_SudoOptions)

lemma rt_LocalExecParams: "int_ok (lp_Timeout l) \<Longrightarrow> dec_LocalExecParams (enc_LocalExecParams l) = Some l"
  by (simp add: enc_LocalExecParams_def field_rules rt_SudoOptions)

lemma rt_ForwardParams: "int_ok (fp_LocalPort f) \<Longrightarrow> int_ok (fp_RemotePort f) \<Longrightarrow> dec_ForwardParams (enc_ForwardParams f) = Some f"
  by (simp add: enc_ForwardParams_def field_rules)

lemma rt_SCPParams: "dec_SCPParams (enc_SCPParams s) = Some s"
  by (simp add: enc_SCPParams_def field_rules)

lemma rt_SFTPParams: "dec_SFTPParams (enc_SFTPParams t) = Some t"
  by (simp add: enc_SFTPParams_def field_rules)

lemma rt_ExecResult: "int_ok (er_ExitCode r) \<Longrightarrow> dec_ExecResult (enc_ExecResult r) = Some r"
  by (simp add: enc_ExecResult_def field_rules)

lemma rt_StreamEnd: "int_ok (se_ExitCode d) \<Longrightarrow> dec_StreamEnd (enc_StreamEnd d) = Some d"
  by (simp add: enc_StreamEnd_def field_rules)

lemma rt_ErrorPayload: "int_ok (pe_Code x) \<Longrightarrow> dec_ErrorPayload (enc_ErrorPayload x) = Some x"
  by (simp add: enc_ErrorPayload_def field_rules)

lemmas rt_params = rt_ConnectParams rt_NameParams rt_UseParams rt_ExecParams rt_LocalExecParams rt_ForwardParams
  rt_SCPParams rt_SFTPParams rt_ExecResult rt_StreamEnd rt_ErrorPayload

section \<open>Properties\<close>



end
