(* ===== verification/Executor.thy ===== *)
theory Executor
  imports Shellquote Session_Manager Protocol
begin

text \<open>
  \<open>internal/exec/executor.go\<close>: running a command in a session or locally, buffered or streaming,
  with or without sudo.  What a process does is given by the record \<open>proc\<close>: the outcome of every
  library call of the executor on it, the bytes it writes, and when it ends.
\<close>

section \<open>Processes\<close>

text \<open>
  \<open>pr_elapsed\<close> is the time in nanoseconds after which the goroutine that waits for the process
  delivers its result; when it equals the timer's duration, \<open>select\<close> picks either
  (\<open>pr_tie_done\<close>).  \<open>pr_drains\<close>: once killed, the process lets go of its pipes, so that the goroutine
  ends.  \<open>pr_stderr_first\<close>: the reader of stderr finishes first.
\<close>

record proc =
  pr_StdoutPipe :: "go_err option"
  pr_StderrPipe :: "go_err option"
  pr_StdinPipe :: "go_err option"
  pr_Start :: "go_err option"
  pr_WriteStdin :: "string \<Rightarrow> go_err option"
  pr_stdout :: "string \<times> go_err option"
  pr_stderr :: "string \<times> go_err option"
  pr_stderr_first :: bool
  pr_Wait :: "go_err option"
  pr_elapsed :: int
  pr_tie_done :: bool
  pr_drains :: bool

record execResult =
  x_stdout :: string
  x_stderr :: string
  x_err :: "go_err option"

section \<open>Command lines\<close>

definition full_cmd :: "string \<Rightarrow> string" where
  "full_cmd command = ''/bin/bash -c '' @ Quote command"

definition buildSudoPrefix :: "SudoOptions \<Rightarrow> string" where
  "buildSudoPrefix opts =
     (if so_Login opts then ''sudo -i''
      else if so_User opts \<noteq> '''' then ''sudo -u '' @ Quote (so_User opts)
      else ''sudo'')"

definition buildSudoCommand :: "string \<Rightarrow> SudoOptions \<Rightarrow> string" where
  "buildSudoCommand fullCmd opts =
     buildSudoPrefix opts @ '' -S -p '' @ [CHR 0x27, CHR 0x27] @ '' '' @ fullCmd"

text \<open>\<open>writePassword\<close>: what is written to the process's standard input, and the error.\<close>

definition writePassword :: "proc \<Rightarrow> string \<Rightarrow> go_err option" where
  "writePassword P password =
     (if password = '''' then None
      else map_option (\<lambda>e. Errorf ''failed to write sudo password: %w'' [AErr e])
             (pr_WriteStdin P (password @ [CHR 0x0A])))"

section \<open>Collecting output and exit codes\<close>

definition readPipes :: "proc \<Rightarrow> string \<times> string \<times> go_err option" where
  "readPipes P =
     (let results = (if pr_stderr_first P then [snd (pr_stderr P), snd (pr_stdout P)]
                     else [snd (pr_stdout P), snd (pr_stderr P)])
      in (fst (pr_stdout P), fst (pr_stderr P),
          foldl (\<lambda>readErr e. if readErr = None then e else readErr) None results))"

definition sshExitCode :: "go_err option \<Rightarrow> int \<times> go_err option" where
  "sshExitCode err =
     (case err of None \<Rightarrow> (0, None)
      | Some e \<Rightarrow> (case e of ExitError code _ \<Rightarrow> (code, None) | _ \<Rightarrow> (1, err)))"

definition localExitCode :: "go_err option \<Rightarrow> int \<times> go_err option" where
  "localExitCode err =
     (case err of None \<Rightarrow> (0, None)
      | Some e \<Rightarrow> (case e of ExitError code _ \<Rightarrow> (code, None) | _ \<Rightarrow> (1, err)))"

definition exitCodeFromErr :: "go_err option \<Rightarrow> int" where
  "exitCodeFromErr err = (case err of None \<Rightarrow> 0 | Some _ \<Rightarrow> 1)"

definition sshExecResult :: "execResult \<Rightarrow> ExecResult" where
  "sshExecResult res =
     (case x_err res of
        Some (ExitError code _) \<Rightarrow> \<lparr>er_Stdout = x_stdout res, er_Stderr = x_stderr res, er_ExitCode = code\<rparr>
      | _ \<Rightarrow> \<lparr>er_Stdout = x_stdout res, er_Stderr = x_stderr res, er_ExitCode = exitCodeFromErr (x_err res)\<rparr>)"

definition localExecResult :: "execResult \<Rightarrow> ExecResult" where
  "localExecResult res =
     (case x_err res of
        Some (ExitError code extra) \<Rightarrow>
          \<lparr>er_Stdout = x_stdout res, er_Stderr = (if length extra > 0 then x_stderr res @ extra else x_stderr res),
           er_ExitCode = code\<rparr>
      | _ \<Rightarrow> \<lparr>er_Stdout = x_stdout res, er_Stderr = x_stderr res, er_ExitCode = exitCodeFromErr (x_err res)\<rparr>)"

section \<open>Timeouts\<close>

text \<open>\<open>time.Duration(timeout) * time.Second\<close>, a 64-bit product.\<close>

definition timeout_ns :: "int \<Rightarrow> int" where
  "timeout_ns timeout = sint (word_of_int timeout * 1000000000 :: 64 word)"

text \<open>Which case of the \<open>select\<close> is taken: the timer is ready at once when its duration is negative.\<close>

definition timer_wins :: "int \<Rightarrow> proc \<Rightarrow> bool" where
  "timer_wins d P \<longleftrightarrow> max 0 d < pr_elapsed P \<or> max 0 d = pr_elapsed P \<and> \<not> pr_tie_done P"

definition timed_out :: "int \<Rightarrow> proc \<Rightarrow> bool" where
  "timed_out timeout P \<longleftrightarrow> \<not> timeout \<le> 0 \<and> timer_wins (timeout_ns timeout) P"

definition timeout_err :: go_err where "timeout_err = Errorf ''command timed out'' []"

section \<open>Buffered execution\<close>

text \<open>The goroutine of the normal runs: pipes, start, read, wait.\<close>

definition collect_normal :: "proc \<Rightarrow> execResult" where
  "collect_normal P =
     (case pr_StdoutPipe P of Some e \<Rightarrow> \<lparr>x_stdout = '''', x_stderr = '''', x_err = Some e\<rparr>
      | None \<Rightarrow> (case pr_StderrPipe P of Some e \<Rightarrow> \<lparr>x_stdout = '''', x_stderr = '''', x_err = Some e\<rparr>
      | None \<Rightarrow> (case pr_Start P of Some e \<Rightarrow> \<lparr>x_stdout = '''', x_stderr = '''', x_err = Some e\<rparr>
      | None \<Rightarrow>
          let (out, err, readErr) = readPipes P
          in (case readErr of Some e \<Rightarrow> \<lparr>x_stdout = out, x_stderr = err, x_err = Some e\<rparr>
              | None \<Rightarrow> \<lparr>x_stdout = out, x_stderr = err, x_err = pr_Wait P\<rparr>))))"

text \<open>The goroutine of the sudo runs: also opens standard input and writes the password.\<close>

definition collect_sudo :: "string \<Rightarrow> proc \<Rightarrow> execResult" where
  "collect_sudo password P =
     (case pr_StdoutPipe P of Some e \<Rightarrow> \<lparr>x_stdout = '''', x_stderr = '''', x_err = Some e\<rparr>
      | None \<Rightarrow> (case pr_StderrPipe P of Some e \<Rightarrow> \<lparr>x_stdout = '''', x_stderr = '''', x_err = Some e\<rparr>
      | None \<Rightarrow> (case pr_StdinPipe P of Some e \<Rightarrow> \<lparr>x_stdout = '''', x_stderr = '''', x_err = Some e\<rparr>
      | None \<Rightarrow> (case pr_Start P of Some e \<Rightarrow> \<lparr>x_stdout = '''', x_stderr = '''', x_err = Some e\<rparr>
      | None \<Rightarrow> (case writePassword P password of Some e \<Rightarrow> \<lparr>x_stdout = '''', x_stderr = '''', x_err = Some e\<rparr>
      | None \<Rightarrow>
          let (out, err, readErr) = readPipes P
          in (case readErr of Some e \<Rightarrow> \<lparr>x_stdout = out, x_stderr = err, x_err = Some e\<rparr>
              | None \<Rightarrow> \<lparr>x_stdout = out, x_stderr = err, x_err = pr_Wait P\<rparr>))))))"

text \<open>
  A run returns a result and an error, or \<open>None\<close> when it waits forever: after a timeout it kills
  the process and waits for the goroutine, which ends when the pipes are released.
\<close>

definition timeout_result :: "proc \<Rightarrow> (ExecResult option \<times> go_err option) option" where
  "timeout_result P =
     (if pr_drains P
      then Some (Some \<lparr>er_Stdout = '''', er_Stderr = '''', er_ExitCode = -1\<rparr>, Some timeout_err) else None)"

definition runRemoteNormal :: "(string \<Rightarrow> proc) \<Rightarrow> string \<Rightarrow> int \<Rightarrow> (ExecResult option \<times> go_err option) option" where
  "runRemoteNormal sp fullCmd timeout =
     (let P = sp fullCmd in
      if timed_out timeout P then timeout_result P
      else Some (Some (sshExecResult (collect_normal P)), None))"

definition runRemoteSudo ::
  "(string \<Rightarrow> proc) \<Rightarrow> string \<Rightarrow> SudoOptions \<Rightarrow> int \<Rightarrow> (ExecResult option \<times> go_err option) option" where
  "runRemoteSudo sp fullCmd opts timeout =
     (let P = sp (buildSudoCommand fullCmd opts) in
      if timed_out timeout P then timeout_result P
      else Some (Some (sshExecResult (collect_sudo (so_Password opts) P)), None))"

text \<open>
  \<open>runRemote\<close>: \<open>newSession\<close> fails or gives the spawner of the SSH session, which starts the given
  command line on the remote side.
\<close>

definition runRemote ::
  "(string \<Rightarrow> proc) res \<Rightarrow> string \<Rightarrow> int \<Rightarrow> SudoOptions option \<Rightarrow> (ExecResult option \<times> go_err option) option" where
  "runRemote newSession command timeout sudoOpts =
     (case newSession of
        Inl e \<Rightarrow> Some (None, Some (Errorf ''failed to create SSH session: %w'' [AErr e]))
      | Inr sp \<Rightarrow>
          (case sudoOpts of
             Some opts \<Rightarrow> if so_Enabled opts then runRemoteSudo sp (full_cmd command) opts timeout
                         else runRemoteNormal sp (full_cmd command) timeout
           | None \<Rightarrow> runRemoteNormal sp (full_cmd command) timeout))"

text \<open>Local runs: \<open>sh c\<close> is the process of \<open>exec.Command("/bin/sh", "-c", c)\<close>.\<close>

definition runLocalNormal :: "(string \<Rightarrow> proc) \<Rightarrow> string \<Rightarrow> int \<Rightarrow> (ExecResult option \<times> go_err option) option" where
  "runLocalNormal sh fullCmd timeout =
     (let P = sh fullCmd in
      if timed_out timeout P then timeout_result P
      else Some (Some (localExecResult (collect_normal P)), None))"

definition runLocalSudo ::
  "(string \<Rightarrow> proc) \<Rightarrow> string \<Rightarrow> SudoOptions \<Rightarrow> int \<Rightarrow> (ExecResult option \<times> go_err option) option" where
  "runLocalSudo sh fullCmd opts timeout =
     (let P = sh (buildSudoCommand fullCmd opts) in
      if timed_out timeout P then timeout_result P
      else Some (Some (localExecResult (collect_sudo (so_Password opts) P)), None))"

definition runLocal ::
  "(string \<Rightarrow> proc) \<Rightarrow> string \<Rightarrow> int \<Rightarrow> SudoOptions option \<Rightarrow> (ExecResult option \<times> go_err option) option" where
  "runLocal sh command timeout sudoOpts =
     (case sudoOpts of
        Some opts \<Rightarrow> if so_Enabled opts then runLocalSudo sh (full_cmd command) opts timeout
                    else runLocalNormal sh (full_cmd command) timeout
      | None \<Rightarrow> runLocalNormal sh (full_cmd command) timeout)"

section \<open>Streaming execution\<close>

text \<open>
  A streaming run copies each pipe to its writer and returns the exit code and an error.  The
  record holds them with the bytes handed to the writers.
\<close>

record streamed =
  st_code :: int
  st_err :: "go_err option"
  st_out :: string
  st_errout :: string

definition stream_fail :: "go_err \<Rightarrow> streamed" where
  "stream_fail e = \<lparr>st_code = 1, st_err = Some e, st_out = '''', st_errout = ''''\<rparr>"

definition waitStreamTimeout :: "proc \<Rightarrow> int \<times> go_err option \<Rightarrow> int \<Rightarrow> streamed option" where
  "waitStreamTimeout P res timeout =
     (if timed_out timeout P
      then (if pr_drains P
            then Some \<lparr>st_code = -1, st_err = Some timeout_err, st_out = fst (pr_stdout P), st_errout = fst (pr_stderr P)\<rparr>
            else None)
      else Some \<lparr>st_code = fst res, st_err = snd res, st_out = fst (pr_stdout P), st_errout = fst (pr_stderr P)\<rparr>)"

definition runRemoteNormalStream :: "(string \<Rightarrow> proc) \<Rightarrow> string \<Rightarrow> int \<Rightarrow> streamed option" where
  "runRemoteNormalStream sp fullCmd timeout =
     (let P = sp fullCmd in
      case pr_StdoutPipe P of Some e \<Rightarrow> Some (stream_fail e)
      | None \<Rightarrow> (case pr_StderrPipe P of Some e \<Rightarrow> Some (stream_fail e)
      | None \<Rightarrow> (case pr_Start P of Some e \<Rightarrow> Some (stream_fail e)
      | None \<Rightarrow> waitStreamTimeout P (sshExitCode (pr_Wait P)) timeout)))"

definition runRemoteSudoStream :: "(string \<Rightarrow> proc) \<Rightarrow> string \<Rightarrow> SudoOptions \<Rightarrow> int \<Rightarrow> streamed option" where
  "runRemoteSudoStream sp fullCmd opts timeout =
     (let P = sp (buildSudoCommand fullCmd opts) in
      case pr_StdoutPipe P of Some e \<Rightarrow> Some (stream_fail e)
      | None \<Rightarrow> (case pr_StderrPipe P of Some e \<Rightarrow> Some (stream_fail e)
      | None \<Rightarrow> (case pr_StdinPipe P of Some e \<Rightarrow> Some (stream_fail e)
      | None \<Rightarrow> (case pr_Start P of Some e \<Rightarrow> Some (stream_fail e)
      | None \<Rightarrow> (case writePassword P (so_Password opts) of Some e \<Rightarrow> Some (stream_fail e)
      | None \<Rightarrow> waitStreamTimeout P (sshExitCode (pr_Wait P)) timeout)))))"

definition runRemoteStream :: "(string \<Rightarrow> proc) res \<Rightarrow> string \<Rightarrow> int \<Rightarrow> SudoOptions option \<Rightarrow> streamed option" where
  "runRemoteStream newSession command timeout sudoOpts =
     (case newSession of
        Inl e \<Rightarrow> Some (stream_fail (Errorf ''failed to create SSH session: %w'' [AErr e]))
      | Inr sp \<Rightarrow>
          (case sudoOpts of
             Some opts \<Rightarrow> if so_Enabled opts then runRemoteSudoStream sp (full_cmd command) opts timeout
                         else runRemoteNormalStream sp (full_cmd command) timeout
           | None \<Rightarrow> runRemoteNormalStream sp (full_cmd command) timeout))"

definition runLocalNormalStream :: "(string \<Rightarrow> proc) \<Rightarrow> string \<Rightarrow> int \<Rightarrow> streamed option" where
  "runLocalNormalStream sh fullCmd timeout =
     (let P = sh fullCmd in
      case pr_StdoutPipe P of Some e \<Rightarrow> Some (stream_fail e)
      | None \<Rightarrow> (case pr_StderrPipe P of Some e \<Rightarrow> Some (stream_fail e)
      | None \<Rightarrow> (case pr_Start P of Some e \<Rightarrow> Some (stream_fail e)
      | None \<Rightarrow> waitStreamTimeout P (localExitCode (pr_Wait P)) timeout)))"

definition runLocalSudoStream :: "(string \<Rightarrow> proc) \<Rightarrow> string \<Rightarrow> SudoOptions \<Rightarrow> int \<Rightarrow> streamed option" where
  "runLocalSudoStream sh fullCmd opts timeout =
     (let P = sh (buildSudoCommand fullCmd opts) in
      case pr_StdoutPipe P of Some e \<Rightarrow> Some (stream_fail e)
      | None \<Rightarrow> (case pr_StderrPipe P of Some e \<Rightarrow> Some (stream_fail e)
      | None \<Rightarrow> (case pr_StdinPipe P of Some e \<Rightarrow> Some (stream_fail e)
      | None \<Rightarrow> (case pr_Start P of Some e \<Rightarrow> Some (stream_fail e)
      | None \<Rightarrow> (case writePassword P (so_Password opts) of Some e \<Rightarrow> Some (stream_fail e)
      | None \<Rightarrow> waitStreamTimeout P (localExitCode (pr_Wait P)) timeout)))))"

definition runLocalStream :: "(string \<Rightarrow> proc) \<Rightarrow> string \<Rightarrow> int \<Rightarrow> SudoOptions option \<Rightarrow> streamed option" where
  "runLocalStream sh command timeout sudoOpts =
     (case sudoOpts of
        Some opts \<Rightarrow> if so_Enabled opts then runLocalSudoStream sh (full_cmd command) opts timeout
                    else runLocalNormalStream sh (full_cmd command) timeout
      | None \<Rightarrow> runLocalNormalStream sh (full_cmd command) timeout)"

section \<open>The executor\<close>

text \<open>
  The machine: local shells, and for each client the SSH sessions it opens.  \<open>await\<close> is
  \<open>AwaitClient\<close> on a session with a timeout in milliseconds.
\<close>

record machine =
  local_sh :: "string \<Rightarrow> proc"
  new_session_of :: "cid \<Rightarrow> (string \<Rightarrow> proc) res"
  await_client :: "ref \<Rightarrow> nat \<Rightarrow> cid res"

definition exec_ready_timeout :: nat where "exec_ready_timeout = 20000"

definition Exec ::
  "machine \<Rightarrow> string \<Rightarrow> string \<Rightarrow> int \<Rightarrow> SudoOptions option \<Rightarrow> manager \<Rightarrow>
   (ExecResult option \<times> go_err option) option \<times> manager" where
  "Exec M sessionName command timeout sudoOpts m =
     (case Get sessionName m of
        Inl e \<Rightarrow> (Some (None, Some e), m)
      | Inr r \<Rightarrow>
          let m1 = upd_obj r (SetLastCmd command) m in
          if IsLocalSession (objs m1 r) then (runLocal (local_sh M) command timeout sudoOpts, m1)
          else (case await_client M r exec_ready_timeout of
                  Inl e \<Rightarrow> (Some (None, Some e), m1)
                | Inr c \<Rightarrow> (runRemote (new_session_of M c) command timeout sudoOpts, m1)))"

definition ExecLocal ::
  "machine \<Rightarrow> string \<Rightarrow> int \<Rightarrow> SudoOptions option \<Rightarrow> (ExecResult option \<times> go_err option) option" where
  "ExecLocal M command timeout sudoOpts = runLocal (local_sh M) command timeout sudoOpts"

definition ExecStream ::
  "machine \<Rightarrow> string \<Rightarrow> string \<Rightarrow> int \<Rightarrow> SudoOptions option \<Rightarrow> manager \<Rightarrow> streamed option \<times> manager" where
  "ExecStream M sessionName command timeout sudoOpts m =
     (case Get sessionName m of
        Inl e \<Rightarrow> (Some (stream_fail e), m)
      | Inr r \<Rightarrow>
          let m1 = upd_obj r (SetLastCmd command) m in
          if IsLocalSession (objs m1 r) then (runLocalStream (local_sh M) command timeout sudoOpts, m1)
          else (case await_client M r exec_ready_timeout of
                  Inl e \<Rightarrow> (Some (stream_fail e), m1)
                | Inr c \<Rightarrow> (runRemoteStream (new_session_of M c) command timeout sudoOpts, m1)))"

definition ExecLocalStream :: "machine \<Rightarrow> string \<Rightarrow> int \<Rightarrow> SudoOptions option \<Rightarrow> streamed option" where
  "ExecLocalStream M command timeout sudoOpts = runLocalStream (local_sh M) command timeout sudoOpts"

section \<open>Lemmas: command lines\<close>

lemmas lex_simps = posix_quote.lex_quote word_so_far_def sh_blank_def sh_special_def

lemma lex_full_cmd: "lex_plain None (full_cmd c) = Some [''/bin/bash'', ''-c'', c]"
  using posix_quote.lex_quote[of None c "[]"] by (simp add: full_cmd_def lex_simps)

definition sudo_words :: "SudoOptions \<Rightarrow> string list" where
  "sudo_words opts = ''sudo'' # (if so_Login opts then [''-i''] else if so_User opts \<noteq> '''' then [''-u'', so_User opts] else [])"

lemma lex_sudo:
  assumes "lex_plain None cmd = Some ws"
  shows "lex_plain None (buildSudoCommand cmd opts) = Some (sudo_words opts @ [''-S'', ''-p'', ''''] @ ws)"
  by (simp add: buildSudoCommand_def buildSudoPrefix_def sudo_words_def lex_simps assms)

section \<open>Lemmas: timeouts\<close>

lemma timeout_ns_exact:
  assumes "\<bar>timeout\<bar> \<le> 9223372036"
  shows "timeout_ns timeout = timeout * 1000000000"
proof -
  have "(word_of_int timeout * 1000000000 :: 64 word) = word_of_int (timeout * 1000000000)" by simp
  then have "timeout_ns timeout = signed_take_bit 63 (timeout * 1000000000)"
    unfolding timeout_ns_def by (simp only: sint_sbintrunc') simp
  also have "\<dots> = timeout * 1000000000"
    using assms by (intro signed_take_bit_int_eq_self) auto
  finally show ?thesis .
qed

section \<open>Lemmas: one process, buffered and streaming\<close>

text \<open>The process came up: pipes, start and (for sudo) the password succeeded.\<close>

definition started :: "string option \<Rightarrow> proc \<Rightarrow> bool" where
  "started pw P \<longleftrightarrow> pr_StdoutPipe P = None \<and> pr_StderrPipe P = None \<and> pr_Start P = None
     \<and> (case pw of None \<Rightarrow> True | Some p \<Rightarrow> pr_StdinPipe P = None \<and> writePassword P p = None)"

text \<open>Its pipes are read without error, and the exit error carries no captured stderr of its own.\<close>

definition clean_io :: "proc \<Rightarrow> bool" where
  "clean_io P \<longleftrightarrow> snd (pr_stdout P) = None \<and> snd (pr_stderr P) = None
     \<and> (case pr_Wait P of Some (ExitError c s) \<Rightarrow> s = '''' | _ \<Rightarrow> True)"

text \<open>What the two modes should report for a process.\<close>

definition agree :: "(ExecResult option \<times> go_err option) option \<Rightarrow> streamed option \<Rightarrow> bool" where
  "agree b s \<longleftrightarrow>
     (case (b, s) of
        (None, None) \<Rightarrow> True
      | (Some (Some r, e), Some x) \<Rightarrow>
          er_ExitCode r = st_code x
          \<and> (if e = None then er_Stdout r = st_out x \<and> er_Stderr r = st_errout x else st_err x = e)
      | _ \<Rightarrow> False)"

lemma readPipes_clean: "clean_io P \<Longrightarrow> readPipes P = (fst (pr_stdout P), fst (pr_stderr P), None)"
  by (auto simp: readPipes_def clean_io_def)

lemma collect_started:
  assumes "clean_io P"
  shows "started None P \<Longrightarrow> collect_normal P = \<lparr>x_stdout = fst (pr_stdout P), x_stderr = fst (pr_stderr P), x_err = pr_Wait P\<rparr>"
    and "started (Some pw) P \<Longrightarrow> collect_sudo pw P = \<lparr>x_stdout = fst (pr_stdout P), x_stderr = fst (pr_stderr P), x_err = pr_Wait P\<rparr>"
  by (auto simp: collect_normal_def collect_sudo_def started_def readPipes_clean[OF assms])

lemma exit_codes_agree:
  assumes "clean_io P"
  shows "localExecResult \<lparr>x_stdout = a, x_stderr = b, x_err = pr_Wait P\<rparr> =
      \<lparr>er_Stdout = a, er_Stderr = b, er_ExitCode = fst (localExitCode (pr_Wait P))\<rparr>"
    and "sshExecResult \<lparr>x_stdout = a, x_stderr = b, x_err = pr_Wait P\<rparr> =
      \<lparr>er_Stdout = a, er_Stderr = b, er_ExitCode = fst (sshExitCode (pr_Wait P))\<rparr>"
  using assms
  by (auto simp: localExecResult_def sshExecResult_def localExitCode_def sshExitCode_def clean_io_def
      exitCodeFromErr_def split: option.splits go_err.splits)

lemma waitStream_agree:
  "agree (if timed_out t P then timeout_result P
          else Some (Some \<lparr>er_Stdout = fst (pr_stdout P), er_Stderr = fst (pr_stderr P), er_ExitCode = fst res\<rparr>, None))
         (waitStreamTimeout P res t)"
  by (simp add: agree_def timeout_result_def waitStreamTimeout_def)

lemma normal_agree:
  assumes "clean_io (sp c)" "started None (sp c)"
  shows "agree (runLocalNormal sp c t) (runLocalNormalStream sp c t)"
    and "agree (runRemoteNormal sp c t) (runRemoteNormalStream sp c t)"
  using assms collect_started(1)[OF assms] waitStream_agree[of t "sp c" "localExitCode (pr_Wait (sp c))"]
    waitStream_agree[of t "sp c" "sshExitCode (pr_Wait (sp c))"]
  by (simp_all add: runLocalNormal_def runLocalNormalStream_def runRemoteNormal_def runRemoteNormalStream_def
      Let_def exit_codes_agree started_def split: if_splits)

lemma sudo_agree:
  assumes "clean_io (sp (buildSudoCommand c o1))" "started (Some (so_Password o1)) (sp (buildSudoCommand c o1))"
  shows "agree (runLocalSudo sp c o1 t) (runLocalSudoStream sp c o1 t)"
    and "agree (runRemoteSudo sp c o1 t) (runRemoteSudoStream sp c o1 t)"
  using assms collect_started(2)[OF assms]
    waitStream_agree[of t "sp (buildSudoCommand c o1)" "localExitCode (pr_Wait (sp (buildSudoCommand c o1)))"]
    waitStream_agree[of t "sp (buildSudoCommand c o1)" "sshExitCode (pr_Wait (sp (buildSudoCommand c o1)))"]
  by (simp_all add: runLocalSudo_def runLocalSudoStream_def runRemoteSudo_def runRemoteSudoStream_def
      Let_def exit_codes_agree started_def split: if_splits)

section \<open>Properties\<close>

text \<open>
  C13: no shell injection, with or without sudo.  Whatever the command text, sudo user and password
  are, a POSIX shell splits the command line the executor hands it into exactly these words: the
  sudo words (with the user name as one word), then the shell invocation with the whole command
  text as one word; and the line does not depend on the password, which is only ever written to
  the standard input.
\<close>

theorem executor_command_words:
  "sh_words (full_cmd command) = Some [''/bin/bash'', ''-c'', command]
   \<and> sh_words (buildSudoCommand (full_cmd command) opts) =
       Some (sudo_words opts @ [''-S'', ''-p'', '''', ''/bin/bash'', ''-c'', command])
   \<and> buildSudoCommand (full_cmd command) (opts\<lparr>so_Password := pw\<rparr>) = buildSudoCommand (full_cmd command) opts"
  using lex_sudo[OF lex_full_cmd] lex_full_cmd
  by (simp add: sh_words_def buildSudoCommand_def buildSudoPrefix_def)

text \<open>
  A sudo request for a login shell ignores the requested user.  With both options set, the
  words of the command line are the same for every user name, and none of them selects a user: the
  command runs as root.
\<close>

theorem sudo_login_drops_user:
  "sh_words (buildSudoCommand (full_cmd command)
     \<lparr>so_Enabled = True, so_Password = pw, so_User = user, so_Login = True\<rparr>) =
   Some [''sudo'', ''-i'', ''-S'', ''-p'', '''', ''/bin/bash'', ''-c'', command]"
  using lex_sudo[OF lex_full_cmd] by (simp add: sh_words_def sudo_words_def)


definition demo_proc :: proc where
  "demo_proc = \<lparr>pr_StdoutPipe = None, pr_StderrPipe = None, pr_StdinPipe = None, pr_Start = None,
     pr_WriteStdin = (\<lambda>_. None), pr_stdout = (''out'', None), pr_stderr = (''err'', None),
     pr_stderr_first = False, pr_Wait = Some (ExitError 3 ''''), pr_elapsed = 1000000000,
     pr_tie_done = True, pr_drains = True\<rparr>"

lemma demo_proc_ok: "clean_io demo_proc" "started pw demo_proc"
  by (auto simp: clean_io_def started_def demo_proc_def writePassword_def split: option.splits)






text \<open>
  A command runs on the session it names.  \<open>Exec\<close> in a reachable manager state runs on the
  registered session (the default for an empty name), records the command as its last one, changes
  nothing else, and waits at most for that session's client: an unknown session or a client that
  does not come up is an error and nothing is run.
\<close>

theorem Exec_on_named_session:
  assumes "mgr_inv m" "Exec M name command timeout sudo m = (res, m')"
  shows "case sessions m (default_if_empty name m) of
      None \<Rightarrow> m' = m \<and> res = Some (None, Some (Errorf ''session not found'' []))
    | Some r \<Rightarrow> mgr_inv m' \<and> m' = upd_obj r (SetLastCmd command) m \<and> GetName (objs m r) = default_if_empty name m
        \<and> res = (if IsLocalSession (objs m r) then ExecLocal M command timeout sudo
                 else case await_client M r exec_ready_timeout of
                        Inl e \<Rightarrow> Some (None, Some e)
                      | Inr c \<Rightarrow> runRemote (new_session_of M c) command timeout sudo)"
proof (cases "sessions m (default_if_empty name m)")
  case None
  then show ?thesis using assms(2) by (simp add: Exec_def Get_def)
next
  case (Some r)
  then have "mgr_inv (upd_obj r (SetLastCmd command) m)" "GetName (objs m r) = default_if_empty name m"
    using SetLastCmd_ok[OF assms(1)] own_reg[OF mgr_own[OF assms(1)]] by auto
  then show ?thesis
    using assms(2) Some by (auto simp: Exec_def Get_def ExecLocal_def Let_def split: sum.splits if_splits)
qed

definition demo_machine :: machine where
  "demo_machine = \<lparr>local_sh = (\<lambda>_. demo_proc), new_session_of = (\<lambda>_. Inr (\<lambda>_. demo_proc)),
     await_client = (\<lambda>r t. Inr 0)\<rparr>"

theorem Exec_on_named_session_witness:
  "fst (Exec demo_machine '''' ''false'' 0 None demo_up) = Some (Some \<lparr>er_Stdout = ''out'', er_Stderr = ''err'', er_ExitCode = 3\<rparr>, None)"
  using Exec_on_named_session[OF demo_up_inv prod.collapse[symmetric], of demo_machine "''''" "''false''" 0 None]
    same_target_ssh[OF demo_up_sel(6)] collect_started(1)[OF demo_proc_ok]
  by (simp add: default_if_empty_def demo_up_sel demo_machine_def runRemote_def runRemoteNormal_def timed_out_def
      sshExecResult_def demo_proc_def)

end
