(* ===== verification/Reconnect_Monitor.thy ===== *)
theory Reconnect_Monitor
  imports Port_Forward
begin

text \<open>
  \<open>internal/reconnect/monitor.go\<close>: the monitor that probes each watched SSH session and reconnects
  dead ones with exponential backoff.  A watch is a goroutine with its session, its context (the
  cancel channel, identified by a number) and its backoff; durations are in nanoseconds.
\<close>

section \<open>Monitor\<close>

record monitor =
  watched :: "string \<rightharpoonup> nat"
  cancelled :: "nat set"
  nextCtx :: nat

record watch_loop =
  wl_sess :: ref
  wl_ctx :: nat
  wl_backoff :: int

definition monitorInterval :: int where "monitorInterval = 5 * 1000000000"
definition initialBackoff :: int where "initialBackoff = 5 * 1000000000"
definition maxBackoff :: int where "maxBackoff = 5 * 60 * 1000000000"
definition backoffFactor :: int where "backoffFactor = 2"

definition NewMonitor :: monitor where
  "NewMonitor = \<lparr>watched = Map.empty, cancelled = {}, nextCtx = 0\<rparr>"

text \<open>\<open>Watch\<close> of the session object \<open>r\<close>: the goroutine it starts, if any.\<close>

definition Watch :: "manager \<Rightarrow> ref \<Rightarrow> monitor \<Rightarrow> watch_loop option \<times> monitor" where
  "Watch m r M =
     (let name = GetName (objs m r) in
      case watched M name of
        Some _ \<Rightarrow> (None, M)
      | None \<Rightarrow> (Some \<lparr>wl_sess = r, wl_ctx = nextCtx M, wl_backoff = initialBackoff\<rparr>,
                 M\<lparr>watched := (watched M)(name \<mapsto> nextCtx M), nextCtx := Suc (nextCtx M)\<rparr>))"

definition StopWatch :: "string \<Rightarrow> monitor \<Rightarrow> monitor" where
  "StopWatch name M =
     (case watched M name of
        None \<Rightarrow> M
      | Some ctx \<Rightarrow> M\<lparr>watched := (watched M)(name := None), cancelled := insert ctx (cancelled M)\<rparr>)"

record mon_state =
  ms_mon :: monitor
  ms_mgr :: manager
  ms_fwd :: service

text \<open>One check; \<open>p\<close> is what the keepalive probe does, \<open>ks\<close> the order \<open>RestartAll\<close> visits.\<close>

definition checkAndReconnect ::
  "net \<Rightarrow> fnet \<Rightarrow> string list \<Rightarrow> probe \<Rightarrow> watch_loop \<Rightarrow> mon_state \<Rightarrow> int \<times> watch_loop \<times> mon_state" where
  "checkAndReconnect N FN ks p w S =
     (let m = ms_mgr S; r = wl_sess w; name = GetName (objs m r); status = GetStatus (objs m r) in
      if status = StatusDisconnected
      then (monitorInterval, w, S\<lparr>ms_mon := StopWatch name (ms_mon S)\<rparr>)
      else if status = StatusConnecting \<or> status = StatusReconnecting then (monitorInterval, w, S)
      else
        let (alive, m1) = (case GetClient (objs m r) of
                             None \<Rightarrow> (False, m) | Some c \<Rightarrow> probe_client c p m)
        in if alive then (monitorInterval, w\<lparr>wl_backoff := initialBackoff\<rparr>, S\<lparr>ms_mgr := m1\<rparr>)
           else (case Reconnect N name m1 of
                   (Inl e, m2) \<Rightarrow>
                     (wl_backoff w, w\<lparr>wl_backoff := min (wl_backoff w * backoffFactor) maxBackoff\<rparr>, S\<lparr>ms_mgr := m2\<rparr>)
                 | (Inr r2, m2) \<Rightarrow>
                     (monitorInterval, w\<lparr>wl_backoff := initialBackoff\<rparr>,
                      S\<lparr>ms_mgr := m2, ms_fwd := RestartAll FN ks name (GetSSHClient m2 r) (ms_fwd S)\<rparr>)))"

text \<open>One turn of \<open>monitorLoop\<close>: when the context is cancelled and the timer has fired too, \<open>select\<close>
  takes either (\<open>timer_first\<close>).  \<open>None\<close> as the next delay: the goroutine returns.\<close>

definition monitorLoop_turn ::
  "net \<Rightarrow> fnet \<Rightarrow> string list \<Rightarrow> probe \<Rightarrow> bool \<Rightarrow> watch_loop \<Rightarrow> mon_state \<Rightarrow> int option \<times> watch_loop \<times> mon_state" where
  "monitorLoop_turn N FN ks p timer_first w S =
     (if wl_ctx w \<in> cancelled (ms_mon S) \<and> \<not> timer_first then (None, w, S)
      else case checkAndReconnect N FN ks p w S of (d, w', S') \<Rightarrow> (Some d, w', S'))"

text \<open>The delays of a run of failed reconnections.\<close>

fun failed_checks :: "nat \<Rightarrow> int \<Rightarrow> int list" where
  "failed_checks 0 b = []"
| "failed_checks (Suc n) b = b # failed_checks n (min (b * backoffFactor) maxBackoff)"

section \<open>Lemmas\<close>

lemma backoff_after:
  "min (min (5 * 2 ^ k * 1000000000) maxBackoff * backoffFactor) maxBackoff = min (5 * 2 ^ Suc k * 1000000000) maxBackoff"
  by (auto simp: maxBackoff_def backoffFactor_def)

lemma failed_checks_nth:
  "i < n \<Longrightarrow> failed_checks n (min (5 * 2 ^ k * 1000000000) maxBackoff) ! i = min (5 * 2 ^ (k + i) * 1000000000) maxBackoff"
proof (induction n arbitrary: i k)
  case 0
  then show ?case by simp
next
  case (Suc n)
  then show ?case
    using Suc.IH[of "i - 1" "Suc k"] backoff_after[of k] by (cases i) simp_all
qed

lemma probe_reconnect:
  fixes p :: probe
  assumes I: "mgr_inv m" and reg: "sessions m (GetName (objs m r)) = Some r" and ssh: "\<not> IsLocalSession (objs m r)"
  defines "q \<equiv> (case GetClient (objs m r) of None \<Rightarrow> (False, m) | Some c \<Rightarrow> probe_client c p m)"
  shows "mgr_inv (snd q)" "objs (snd q) = objs m" "sessions (snd q) = sessions m" "defaultName (snd q) = defaultName m"
    "nextClient (snd q) = nextClient m"
  using probe_client_ok[OF I] own_holder[OF mgr_own[OF I], of r] I
  by (auto simp: q_def split: option.splits)

text \<open>What \<open>Reconnect\<close> leaves of a registered SSH session: connected on a new client, or offline.\<close>

lemma reconnect_registered:
  assumes I: "mgr_inv m" and reg: "sessions m n = Some r" and ssh: "\<not> IsLocalSession (objs m r)"
    and R: "Reconnect N n m = (res, m2)"
  shows "mgr_inv m2" "sessions m2 = sessions m" "defaultName m2 = defaultName m" "\<And>r'. r' \<noteq> r \<Longrightarrow> objs m2 r' = objs m r'"
    and "(\<exists>e. res = Inl e) \<and> GetStatus (objs m2 r) = StatusOffline
       \<or> res = Inr r \<and> GetStatus (objs m2 r) = StatusConnected \<and> GetSSHClient m2 r = Some (nextClient m)
         \<and> nextClient m \<in> netOpen m2"
proof -
  obtain e where R1: "reconnectSSH N r m = (e, m2)" and res: "res = (case e of None \<Rightarrow> Inr r | Some x \<Rightarrow> Inl x)"
    using R reg ssh by (auto simp: Reconnect_def split: option.splits prod.splits)
  note K = reconnectSSH_ok[OF I reg ssh R1]
  show "mgr_inv m2" "sessions m2 = sessions m" "defaultName m2 = defaultName m" "\<And>r'. r' \<noteq> r \<Longrightarrow> objs m2 r' = objs m r'"
    by (fact K(1-3,5))+
  show "(\<exists>e. res = Inl e) \<and> GetStatus (objs m2 r) = StatusOffline
       \<or> res = Inr r \<and> GetStatus (objs m2 r) = StatusConnected \<and> GetSSHClient m2 r = Some (nextClient m)
         \<and> nextClient m \<in> netOpen m2"
  proof (cases e)
    case None
    then have "GetClient (objs m2 r) = Some (nextClient m)" "nextClient m \<in> netOpen m2" using K(6,7) by auto
    then show ?thesis using K(9) own_go[OF mgr_own[OF K(1)]] own_open_less[OF mgr_own[OF K(1)]] None res
      by (auto simp: GetSSHClient_def)
  qed (use K(9) res in simp)
qed

section \<open>Properties\<close>


definition demo_mon :: mon_state where
  "demo_mon = \<lparr>ms_mon = NewMonitor, ms_mgr = demo_up, ms_fwd = demo_svc\<rparr>"

definition demo_watch :: watch_loop where
  "demo_watch = \<lparr>wl_sess = 0, wl_ctx = 0, wl_backoff = initialBackoff\<rparr>"


text \<open>
  Exponential backoff.  The delays between consecutive failed reconnections, starting from the
  initial backoff, are 5 s doubling each time and capped at 5 minutes; every delay a failed check
  returns is therefore between 5 s and 5 minutes.
\<close>

theorem backoff_schedule:
  assumes "i < n"
  shows "failed_checks n initialBackoff ! i = min (5 * 2 ^ i * 1000000000) maxBackoff
     \<and> 5 * 1000000000 \<le> failed_checks n initialBackoff ! i \<and> failed_checks n initialBackoff ! i \<le> 300 * 1000000000"
proof -
  have "initialBackoff = min (5 * 2 ^ 0 * 1000000000) maxBackoff" by (simp add: initialBackoff_def maxBackoff_def)
  then have e: "failed_checks n initialBackoff ! i = min (5 * 2 ^ i * 1000000000) maxBackoff"
    using failed_checks_nth[OF assms, of 0] by simp
  have "(1::int) \<le> 2 ^ i" by simp
  then show ?thesis unfolding e by (simp add: maxBackoff_def)
qed

theorem backoff_schedule_witness:
  "failed_checks 8 initialBackoff ! 7 = 300 * 1000000000 \<and> failed_checks 8 initialBackoff ! 1 = 10 * 1000000000"
  using backoff_schedule[of 7 8] backoff_schedule[of 1 8] by (simp add: maxBackoff_def)

text \<open>The contexts of the watched names are distinct and not cancelled.\<close>

definition mon_inv :: "monitor \<Rightarrow> bool" where
  "mon_inv M \<longleftrightarrow> (\<forall>n c. watched M n = Some c \<longrightarrow> c < nextCtx M \<and> c \<notin> cancelled M)
     \<and> (\<forall>n n' c. watched M n = Some c \<longrightarrow> watched M n' = Some c \<longrightarrow> n = n')
     \<and> (\<forall>c\<in>cancelled M. c < nextCtx M)"

lemma Watch_inv:
  assumes "mon_inv M" "Watch m r M = (lp, M')"
  shows "mon_inv M'"
proof -
  have "watched M n \<noteq> Some (nextCtx M)" for n using assms(1) by (auto simp: mon_inv_def)
  then show ?thesis
    using assms unfolding mon_inv_def Watch_def Let_def
    by (auto simp: less_Suc_eq split: option.splits if_splits)
qed

lemma StopWatch_inv: "mon_inv M \<Longrightarrow> mon_inv (StopWatch n M)"
  unfolding mon_inv_def StopWatch_def by (auto split: option.splits if_splits)

text \<open>
  At most one watch per session name.  Watching a name that is watched already starts nothing
  and changes nothing; otherwise exactly one loop is started for that session object, with the
  initial backoff and a context that is not cancelled.  Stopping the watch of a name forgets it
  and cancels exactly its context.  Both keep the watched contexts distinct and not cancelled.
\<close>

theorem watch_once:
  assumes "mon_inv M" "Watch m r M = (lp, M')"
  shows "mon_inv M' \<and> mon_inv (StopWatch n M)
    \<and> (if watched M (GetName (objs m r)) \<noteq> None then lp = None \<and> M' = M
       else \<exists>w. lp = Some w \<and> wl_sess w = r \<and> wl_backoff w = initialBackoff
             \<and> watched M' = (watched M)(GetName (objs m r) \<mapsto> wl_ctx w) \<and> wl_ctx w \<notin> cancelled M')
    \<and> watched (StopWatch n M) n = None
    \<and> cancelled (StopWatch n M) = cancelled M \<union> set_option (watched M n)"
proof -
  note Watch_inv[OF assms] StopWatch_inv[OF assms(1), of n]
  moreover have "nextCtx M \<notin> cancelled M" using assms(1) by (auto simp: mon_inv_def)
  ultimately show ?thesis
    using assms(2) by (auto simp: Watch_def StopWatch_def Let_def split: option.splits)
qed

theorem watch_once_witness:
  "mon_inv NewMonitor \<and> fst (Watch demo_up 0 (snd (Watch demo_up 0 NewMonitor))) = None"
proof -
  have i: "mon_inv NewMonitor" by (simp add: mon_inv_def NewMonitor_def)
  have w: "mon_inv (snd (Watch demo_up 0 NewMonitor))" "watched (snd (Watch demo_up 0 NewMonitor)) (GetName (objs demo_up 0)) \<noteq> None"
    using watch_once[OF i prod.collapse[symmetric], of demo_up 0 "''''"] by (auto simp: NewMonitor_def)
  then show ?thesis
    using i watch_once[OF w(1) prod.collapse[symmetric], of demo_up 0 "''''"] by simp
qed

end
