(* ===== verification/Socket_Path.thy ===== *)
theory Socket_Path
  imports Gopath
begin

text \<open>
  \<open>internal/socketpath\<close>: where the daemon's socket lives, and the checks before it is used or
  removed.  The file system is seen through the calls the code makes (\<open>sock_env\<close>).
\<close>

unbundle bit_operations_syntax

record file_info =
  fi_socket :: bool
  fi_dir :: bool
  fi_perm :: "32 word"
  fi_uid :: "int option"

text \<open>
  The platforms the build constraints tell apart; \<open>Windows\<close> also stands for the others that are
  not Unix.
\<close>

datatype goos = Linux | Darwin | OtherUnix | Windows

text \<open>The mask \<open>0077\<close> is \<open>0x3F\<close>.  \<open>fi_uid\<close> is \<open>None\<close> when the stat structure is not the expected one (\<open>fileOwnerUID\<close> fails).\<close>

record sock_env =
  sk_GOOS :: goos
  XDG_RUNTIME_DIR :: string
  sk_UserHomeDir :: "string res"
  TempDir :: string
  Getuid :: int
  Geteuid :: int
  sk_Stat :: "string \<Rightarrow> file_info res"
  sk_Lstat :: "string \<Rightarrow> file_info res"
  sk_MkdirAll :: "string \<Rightarrow> go_err option"
  sk_Remove :: "string \<Rightarrow> go_err option"

definition Default :: "sock_env \<Rightarrow> string" where
  "Default env =
     (if XDG_RUNTIME_DIR env \<noteq> '''' then path_join [XDG_RUNTIME_DIR env, ''gssh'', ''gssh.sock'']
      else case sk_UserHomeDir env of
             Inr h \<Rightarrow> if h \<noteq> '''' then path_join [h, ''.gssh'', ''run'', ''gssh.sock'']
                      else path_join [TempDir env, ''gssh-'' @ Itoa (Getuid env) @ ''.sock'']
           | Inl _ \<Rightarrow> path_join [TempDir env, ''gssh-'' @ Itoa (Getuid env) @ ''.sock''])"

definition EnsureParentDir :: "sock_env \<Rightarrow> string \<Rightarrow> go_err option" where
  "EnsureParentDir env socketPath =
     (let dir = Dir socketPath in
      case sk_Stat env dir of
        Inr info \<Rightarrow> if \<not> fi_dir info
                    then Some (Errorf ''socket parent path is not a directory: %s'' [AStr dir]) else None
      | Inl e \<Rightarrow> if \<not> err_is ENOENT e then Some e else sk_MkdirAll env dir)"

definition fileOwnerUID_unix :: "file_info \<Rightarrow> int res" where
  "fileOwnerUID_unix info = (case fi_uid info of None \<Rightarrow> Inl (Errorf ''unsupported file stat type'' []) | Some u \<Rightarrow> Inr u)"

definition currentUID_windows :: int where "currentUID_windows = 0"

definition fileOwnerUID_windows :: "file_info \<Rightarrow> int res" where
  "fileOwnerUID_windows _ = Inr currentUID_windows"

definition currentUID :: "sock_env \<Rightarrow> int" where
  "currentUID env = (if sk_GOOS env = Windows then currentUID_windows else Geteuid env)"

definition fileOwnerUID :: "sock_env \<Rightarrow> file_info \<Rightarrow> int res" where
  "fileOwnerUID env = (if sk_GOOS env = Windows then fileOwnerUID_windows else fileOwnerUID_unix)"

text \<open>Who may use and remove a socket: its owner, where the platform has owners.\<close>

definition own_file :: "sock_env \<Rightarrow> file_info \<Rightarrow> bool" where
  "own_file env info \<longleftrightarrow> sk_GOOS env = Windows \<or> fi_uid info = Some (Geteuid env)"

lemma fileOwnerUID_own [simp]:
  "fileOwnerUID env info = Inr u \<Longrightarrow> u = currentUID env \<longleftrightarrow> own_file env info"
  "fileOwnerUID env info = Inl e \<Longrightarrow> \<not> own_file env info"
  by (auto simp: fileOwnerUID_def currentUID_def own_file_def fileOwnerUID_unix_def fileOwnerUID_windows_def
      split: if_splits option.splits)

definition Validate :: "sock_env \<Rightarrow> string \<Rightarrow> go_err option" where
  "Validate env socketPath =
     (case sk_Lstat env socketPath of
        Inl e \<Rightarrow> Some e
      | Inr info \<Rightarrow>
          if \<not> fi_socket info then Some (Errorf ''refusing to use %s: not a unix socket'' [AStr socketPath])
          else if fi_perm info AND 0x3F \<noteq> 0
          then Some (Errorf ''refusing to use %s: permissions are too broad (%#o)''
                       [AStr socketPath, AInt (uint (fi_perm info))])
          else (case fileOwnerUID env info of
                  Inl e \<Rightarrow> Some (Errorf ''failed to inspect owner for %s: %w'' [AStr socketPath, AErr e])
                | Inr uid \<Rightarrow>
                    if uid \<noteq> currentUID env
                    then Some (Errorf ''refusing to use %s: owned by uid %d, expected %d''
                                 [AStr socketPath, AInt uid, AInt (currentUID env)])
                    else None))"

text \<open>The error returned, and the path removed if any.\<close>

definition RemoveIfOwnedSocket :: "sock_env \<Rightarrow> string \<Rightarrow> go_err option \<times> string option" where
  "RemoveIfOwnedSocket env socketPath =
     (case sk_Lstat env socketPath of
        Inl e \<Rightarrow> if err_is ENOENT e then (None, None) else (Some e, None)
      | Inr info \<Rightarrow>
          if \<not> fi_socket info
          then (Some (Errorf ''refusing to remove %s: existing path is not a unix socket'' [AStr socketPath]), None)
          else (case fileOwnerUID env info of
                  Inl e \<Rightarrow> (Some (Errorf ''failed to inspect owner for %s: %w'' [AStr socketPath, AErr e]), None)
                | Inr uid \<Rightarrow>
                    if uid \<noteq> currentUID env
                    then (Some (Errorf ''refusing to remove %s: owned by uid %d, expected %d''
                                  [AStr socketPath, AInt uid, AInt (currentUID env)]), None)
                    else (sk_Remove env socketPath, Some socketPath)))"

section \<open>Properties\<close>

text \<open>
  C32: the socket checks admit exactly the user's own private socket.  A socket path is accepted for
  use if and only if it is itself a socket (not through a link), none of the group and other
  permission bits is set, and its owner is the effective user (on Windows, where a file has no such
  owner, whoever made it); and a path is removed only if it is a socket with that owner.
\<close>

theorem socket_checks_exact:
  "(Validate env path = None \<longleftrightarrow>
      (\<exists>info. sk_Lstat env path = Inr info \<and> fi_socket info \<and> own_file env info
         \<and> (\<forall>i. \<not> (i < 6 \<and> bit (fi_perm info) i))))
   \<and> (snd (RemoveIfOwnedSocket env path) =
        (if \<exists>info. sk_Lstat env path = Inr info \<and> fi_socket info \<and> own_file env info
         then Some path else None))"
proof -
  have m: "(p AND 0x3F = 0) \<longleftrightarrow> (\<forall>i. \<not> (i < 6 \<and> bit p i))" for p :: "32 word"
  proof -
    have b: "bit (0x3F :: 32 word) i \<longleftrightarrow> i < 6" for i
    proof -
      have "(0x3F :: 32 word) = mask 6" by (simp add: mask_eq_exp_minus_1)
      then have "bit (0x3F :: 32 word) i \<longleftrightarrow> bit (mask 6 :: 32 word) i" by (simp only:)
      also have "\<dots> \<longleftrightarrow> i < 6" by (auto simp only: bit_mask_iff) (simp_all add: possible_bit_def)
      finally show ?thesis .
    qed
    have "p AND 0x3F = 0 \<longleftrightarrow> (\<forall>i. \<not> bit (p AND 0x3F) i)" by (auto intro!: bit_eqI)
    then show ?thesis by (simp only: bit_and_iff b) blast
  qed
  show ?thesis
    by (auto simp: Validate_def RemoveIfOwnedSocket_def m split: sum.splits option.splits)
qed

end
