(* ===== verification/Peer_Cred.thy ===== *)
theory Peer_Cred
  imports Socket_Path
begin

text \<open>
  \<open>cmd/gssh/peercred_*.go\<close> and \<open>spawn_*.go\<close>: who listens at the daemon's socket, and how a daemon is
  detached from the terminal.  The answers of the connection and of the socket options are fields of
  \<open>peer_env\<close>; the uid in the kernel's credentials is an unsigned 32-bit word.
\<close>

section \<open>The peer of a connection\<close>

text \<open>
  \<open>pv_unix\<close>: the connection is a \<open>*net.UnixConn\<close>.  When \<open>Control\<close> returns no error it has called
  its argument, which leaves a pointer to credentials (here the uid in them) and an error.
\<close>

record peer_env =
  pv_GOOS :: goos
  pv_unix :: bool
  pv_SyscallConn :: "go_err option"
  pv_Control :: "go_err option"
  pv_GetsockoptUcred :: "32 word option \<times> go_err option"
  pv_GetsockoptXucred :: "32 word option \<times> go_err option"

definition inspect_failed :: "go_err \<Rightarrow> go_err" where
  "inspect_failed e = Errorf ''failed to inspect daemon peer credentials: %w'' [AErr e]"

definition verifyDaemonPeer_linux :: "int \<Rightarrow> peer_env \<Rightarrow> go_err option" where
  "verifyDaemonPeer_linux euid P =
     (if \<not> pv_unix P then Some (Errorf ''refusing daemon connection: not a unix socket'' [])
      else case pv_SyscallConn P of Some e \<Rightarrow> Some (inspect_failed e)
      | None \<Rightarrow>
          (case pv_Control P of Some e \<Rightarrow> Some (inspect_failed e)
           | None \<Rightarrow>
               (case pv_GetsockoptUcred P of
                  (_, Some credErr) \<Rightarrow> Some (inspect_failed credErr)
                | (None, None) \<Rightarrow> Some (Errorf ''failed to inspect daemon peer credentials: empty credentials'' [])
                | (Some uid, None) \<Rightarrow>
                    if uint uid \<noteq> euid
                    then Some (Errorf ''refusing daemon connection: peer uid %d, expected %d'' [AInt (uint uid), AInt euid])
                    else None)))"

definition verifyDaemonPeer_darwin :: "int \<Rightarrow> peer_env \<Rightarrow> go_err option" where
  "verifyDaemonPeer_darwin euid P =
     (if \<not> pv_unix P then Some (Errorf ''refusing daemon connection: not a unix socket'' [])
      else case pv_SyscallConn P of Some e \<Rightarrow> Some (inspect_failed e)
      | None \<Rightarrow>
          (case pv_Control P of Some e \<Rightarrow> Some (inspect_failed e)
           | None \<Rightarrow>
               (case pv_GetsockoptXucred P of
                  (_, Some credErr) \<Rightarrow> Some (inspect_failed credErr)
                | (None, None) \<Rightarrow> Some (Errorf ''failed to inspect daemon peer credentials: empty credentials'' [])
                | (Some uid, None) \<Rightarrow>
                    if uint uid \<noteq> euid
                    then Some (Errorf ''refusing daemon connection: peer uid %d, expected %d'' [AInt (uint uid), AInt euid])
                    else None)))"

definition verifyDaemonPeer_other :: "peer_env \<Rightarrow> go_err option" where
  "verifyDaemonPeer_other _ = None"

definition verifyDaemonPeer :: "int \<Rightarrow> peer_env \<Rightarrow> go_err option" where
  "verifyDaemonPeer euid P =
     (case pv_GOOS P of
        Linux \<Rightarrow> verifyDaemonPeer_linux euid P
      | Darwin \<Rightarrow> verifyDaemonPeer_darwin euid P
      | _ \<Rightarrow> verifyDaemonPeer_other P)"

text \<open>What the kernel says of the peer, where it is asked.\<close>

definition peer_uid :: "peer_env \<Rightarrow> int option" where
  "peer_uid P =
     (case (if pv_GOOS P = Darwin then pv_GetsockoptXucred P else pv_GetsockoptUcred P) of
        (Some uid, None) \<Rightarrow> Some (uint uid)
      | _ \<Rightarrow> None)"

lemma verifyDaemonPeer_exact:
  "verifyDaemonPeer euid P = None \<longleftrightarrow>
     (pv_GOOS P = OtherUnix \<or> pv_GOOS P = Windows
      \<or> (pv_unix P \<and> pv_SyscallConn P = None \<and> pv_Control P = None \<and> peer_uid P = Some euid))"
  by (auto simp: verifyDaemonPeer_def verifyDaemonPeer_linux_def verifyDaemonPeer_darwin_def
      verifyDaemonPeer_other_def peer_uid_def split: goos.splits option.splits prod.splits)

section \<open>Detaching the daemon\<close>

record go_cmd =
  cm_Args :: "string list"
  cm_Setsid :: bool

definition setDetachAttrs_unix :: "go_cmd \<Rightarrow> go_cmd" where
  "setDetachAttrs_unix cmd = cmd\<lparr>cm_Setsid := True\<rparr>"

definition setDetachAttrs_other :: "go_cmd \<Rightarrow> go_cmd" where
  "setDetachAttrs_other cmd = cmd"

definition setDetachAttrs :: "goos \<Rightarrow> go_cmd \<Rightarrow> go_cmd" where
  "setDetachAttrs os = (if os = Windows then setDetachAttrs_other else setDetachAttrs_unix)"

lemmas detach_defs = setDetachAttrs_def setDetachAttrs_unix_def setDetachAttrs_other_def

end
