(* ===== verification/Audit_Log.thy ===== *)
theory Audit_Log
  imports Gopath
begin

text \<open>
  \<open>internal/audit/log.go\<close>: the audit log, one JSON object per line.  The text of an entry is the
  standard library's encoding of it, a parameter \<open>marshal\<close>.
\<close>

record entry =
  e_Session :: string
  e_Action :: string
  e_Command :: string
  e_Result :: string
  e_Detail :: string

text \<open>\<open>Logger\<close>: \<open>None\<close> is a nil file, \<open>Some s\<close> an open one whose appended text so far is \<open>s\<close>.\<close>

type_synonym logger = "string option"

definition NewLoggerAt :: "(string \<Rightarrow> go_err option) \<Rightarrow> (string \<Rightarrow> string res) \<Rightarrow> string \<Rightarrow> logger res" where
  "NewLoggerAt MkdirAll OpenAppend path =
     (case MkdirAll (Dir path) of
        Some e \<Rightarrow> Inl (Errorf ''failed to create audit log directory: %w'' [AErr e])
      | None \<Rightarrow> (case OpenAppend path of
                   Inl e \<Rightarrow> Inl (Errorf ''failed to open audit log file: %w'' [AErr e])
                 | Inr content \<Rightarrow> Inr (Some content)))"

definition NewLogger ::
  "string res \<Rightarrow> (string \<Rightarrow> go_err option) \<Rightarrow> (string \<Rightarrow> string res) \<Rightarrow> logger" where
  "NewLogger home MkdirAll OpenAppend =
     (case home of
        Inl _ \<Rightarrow> None
      | Inr h \<Rightarrow> (case NewLoggerAt MkdirAll OpenAppend (path_join [h, ''.gssh'', ''audit.log'']) of
                    Inl _ \<Rightarrow> None | Inr l \<Rightarrow> l))"

text \<open>\<open>now\<close> is the timestamp the entry gets; \<open>w\<close> what the write of the line returns (on an error
  nothing is appended).\<close>

definition Log ::
  "(int \<Rightarrow> entry \<Rightarrow> string res) \<Rightarrow> int \<Rightarrow> (string \<Rightarrow> go_err option) \<Rightarrow> entry \<Rightarrow> logger \<Rightarrow> go_err option \<times> logger" where
  "Log marshal now w e l =
     (case l of
        None \<Rightarrow> (None, None)
      | Some s \<Rightarrow>
          (case marshal now e of
             Inl err \<Rightarrow> (Some err, l)
           | Inr data \<Rightarrow>
               (case w (data @ [CHR 0x0A]) of
                  Some err \<Rightarrow> (Some err, l)
                | None \<Rightarrow> (None, Some (s @ data @ [CHR 0x0A])))))"

definition Logger_Close :: "go_err option \<Rightarrow> logger \<Rightarrow> go_err option \<times> logger" where
  "Logger_Close e l = (case l of None \<Rightarrow> (None, None) | Some _ \<Rightarrow> (e, None))"

fun log_all :: "(int \<Rightarrow> entry \<Rightarrow> string res) \<Rightarrow> (int \<times> entry) list \<Rightarrow> logger \<Rightarrow> logger" where
  "log_all marshal [] l = l"
| "log_all marshal ((t, e) # es) l = log_all marshal es (snd (Log marshal t (\<lambda>_. None) e l))"

section \<open>Properties\<close>

lemma log_all_text:
  assumes "\<And>t e. (t, e) \<in> set es \<Longrightarrow> marshal t e = Inr (f t e)"
  shows "log_all marshal es (Some s) = Some (s @ concat (map (\<lambda>(t, e). f t e @ [CHR 0x0A]) es))"
  using assms
proof (induction es arbitrary: s)
  case Nil
  then show ?case by simp
next
  case (Cons x es)
  obtain t e where x: "x = (t, e)" by fastforce
  have "marshal t e = Inr (f t e)" using Cons.prems[of t e] x by simp
  then show ?case using Cons.IH[of "s @ f t e @ [CHR 0x0A]"] Cons.prems x by (simp add: Log_def)
qed

lemma split_lines:
  assumes "\<And>x. x \<in> set ls \<Longrightarrow> CHR 0x0A \<notin> set x"
  shows "SplitAt (CHR 0x0A) (concat (map (\<lambda>x. x @ [CHR 0x0A]) ls)) = ls @ [[]]"
  using assms by (induction ls) (simp_all add: SplitAt_append)

text \<open>
  The audit log is one line per entry.  When every entry encodes to text without a newline
  (which \<open>encoding/json\<close> guarantees), logging a sequence of entries to an open log appends exactly
  their encodings in order, one per line, after what was there; and once the logger is closed, or
  could not be opened, logging is a no-op that reports no error.
\<close>

theorem audit_lines:
  assumes "\<And>t e. (t, e) \<in> set es \<Longrightarrow> marshal t e = Inr (f t e) \<and> CHR 0x0A \<notin> set (f t e)"
  shows "\<exists>text. log_all marshal es (Some s) = Some (s @ text)
      \<and> SplitAt (CHR 0x0A) text = map (\<lambda>(t, e). f t e) es @ ['''']
      \<and> log_all marshal es (snd (Logger_Close err (log_all marshal es (Some s)))) = None
      \<and> fst (Log marshal t (\<lambda>_. w) e None) = None"
proof -
  let ?text = "concat (map (\<lambda>(t, e). f t e @ [CHR 0x0A]) es)"
  have t: "log_all marshal es (Some s) = Some (s @ ?text)" using log_all_text[of es marshal f s] assms by blast
  have c: "?text = concat (map (\<lambda>x. x @ [CHR 0x0A]) (map (\<lambda>(t, e). f t e) es))"
    by (simp add: comp_def case_prod_unfold)
  have "SplitAt (CHR 0x0A) ?text = map (\<lambda>(t, e). f t e) es @ [[]]"
    unfolding c by (rule split_lines) (use assms in auto)
  moreover have "log_all marshal es None = None" by (induction es) (auto simp: Log_def)
  ultimately show ?thesis using t by (intro exI[of _ ?text]) (simp add: Logger_Close_def Log_def)
qed

theorem audit_lines_witness:
  "\<exists>text. log_all (\<lambda>t e. Inr (Itoa t)) [(1, \<lparr>e_Session = '''', e_Action = ''kill'', e_Command = '''', e_Result = ''success'', e_Detail = ''''\<rparr>)]
       (Some '''') = Some text \<and> SplitAt (CHR 0x0A) text = [''1'', '''']"
proof -
  have d: "Itoa 1 = ''1''" by code_simp
  show ?thesis
    using audit_lines[of "[(1, \<lparr>e_Session = '''', e_Action = ''kill'', e_Command = '''', e_Result = ''success'', e_Detail = ''''\<rparr>)]"
        "\<lambda>t e. Inr (Itoa t)" "\<lambda>t e. Itoa t" "''''" None 0 None undefined] by (auto simp: d)
qed

end
