(* ===== verification/Persist_Store.thy ===== *)
theory Persist_Store
  imports Session_Manager Protocol
begin

text \<open>
  \<open>internal/persist/store.go\<close>, and \<open>restoreState\<close> of \<open>internal/server/server.go\<close>: what the daemon
  writes to \<open>state.json\<close> when it stops and makes of it when it starts.  The file is its content
  (\<open>None\<close> when absent); the JSON text of a value and back are the standard library's, the
  parameters \<open>marshal\<close> and \<open>parse\<close>.
\<close>

section \<open>State\<close>

record SessionState =
  ss_Name :: string
  ss_Type :: string
  ss_Host :: string
  ss_User :: string
  ss_Port :: int
  ss_KeyPath :: string
  ss_Status :: string
  ss_CreatedAt :: int
  ss_AutoReconnect :: bool

definition SessionToState :: "session \<Rightarrow> SessionState" where
  "SessionToState sess =
     (let state = \<lparr>ss_Name = GetName sess, ss_Type = GetType sess, ss_Host = GetHost sess, ss_User = GetUser sess,
                   ss_Port = 0, ss_KeyPath = '''', ss_Status = status_string (GetStatus sess),
                   ss_CreatedAt = unix_seconds (GetCreatedAt sess), ss_AutoReconnect = False\<rparr>
      in case sess of
           SSH s \<Rightarrow> state\<lparr>ss_Port := s_Port s, ss_KeyPath := s_KeyPath s,
                         ss_AutoReconnect := (s_KeyPath s \<noteq> '''' \<or> s_Password s = '''')\<rparr>
         | Local _ \<Rightarrow> state)"

definition CollectState :: "session list \<Rightarrow> SessionState list" where
  "CollectState ss = map SessionToState ss"

definition enc_SessionState :: "SessionState \<Rightarrow> json" where
  "enc_SessionState s = JObj ([(''name'', JStr (ss_Name s)), (''type'', JStr (ss_Type s)),
     (''host'', JStr (ss_Host s)), (''user'', JStr (ss_User s))] @ oint ''port'' (ss_Port s)
     @ ostr ''key_path'' (ss_KeyPath s) @ [(''status'', JStr (ss_Status s)), (''created_at'', JNum (ss_CreatedAt s))]
     @ obool ''auto_reconnect'' (ss_AutoReconnect s))"

fun dec_SessionState :: "json \<Rightarrow> SessionState option" where
  "dec_SessionState (JObj ms) =
     bind_opt (fstr ''name'' ms) (\<lambda>n. bind_opt (fstr ''type'' ms) (\<lambda>t. bind_opt (fstr ''host'' ms) (\<lambda>h.
     bind_opt (fstr ''user'' ms) (\<lambda>u. bind_opt (fint ''port'' ms) (\<lambda>p. bind_opt (fstr ''key_path'' ms) (\<lambda>k.
     bind_opt (fstr ''status'' ms) (\<lambda>s. bind_opt (fint ''created_at'' ms) (\<lambda>c. bind_opt (fbool ''auto_reconnect'' ms) (\<lambda>a.
       Some \<lparr>ss_Name = n, ss_Type = t, ss_Host = h, ss_User = u, ss_Port = p, ss_KeyPath = k,
             ss_Status = s, ss_CreatedAt = c, ss_AutoReconnect = a\<rparr>)))))))))"
| "dec_SessionState JNull = Some \<lparr>ss_Name = '''', ss_Type = '''', ss_Host = '''', ss_User = '''', ss_Port = 0,
     ss_KeyPath = '''', ss_Status = '''', ss_CreatedAt = 0, ss_AutoReconnect = False\<rparr>"
| "dec_SessionState _ = None"

fun dec_states :: "json list \<Rightarrow> SessionState list option" where
  "dec_states [] = Some []"
| "dec_states (j # js) = bind_opt (dec_SessionState j) (\<lambda>s. bind_opt (dec_states js) (\<lambda>ss. Some (s # ss)))"

fun dec_state_array :: "json \<Rightarrow> SessionState list option" where
  "dec_state_array (JArr js) = dec_states js"
| "dec_state_array JNull = Some []"
| "dec_state_array _ = None"

section \<open>Save and load\<close>

text \<open>\<open>Save\<close>: the error and the file afterwards; a failing write (\<open>w\<close>) may leave anything behind.\<close>

definition Save :: "(json \<Rightarrow> string res) \<Rightarrow> (string \<Rightarrow> go_err option \<times> string option) \<Rightarrow> SessionState list \<Rightarrow>
  string option \<Rightarrow> go_err option \<times> string option" where
  "Save marshal w states file =
     (case marshal (JArr (map enc_SessionState states)) of
        Inl e \<Rightarrow> (Some (Errorf ''failed to marshal state: %w'' [AErr e]), file)
      | Inr data \<Rightarrow> w data)"

definition Load :: "(string \<Rightarrow> json res) \<Rightarrow> (string res) \<Rightarrow> SessionState list res" where
  "Load parse rd =
     (case rd of
        Inl e \<Rightarrow> if err_is ENOENT e then Inr [] else Inl (Errorf ''failed to read state: %w'' [AErr e])
      | Inr data \<Rightarrow>
          (case parse data of
             Inl e \<Rightarrow> Inl (Errorf ''failed to unmarshal state: %w'' [AErr e])
           | Inr j \<Rightarrow> (case dec_state_array j of
                         None \<Rightarrow> Inl (Errorf ''failed to unmarshal state: %w'' [AErr (ExtErr ''json: cannot unmarshal'')])
                       | Some ss \<Rightarrow> Inr ss)))"

definition read_file :: "string option \<Rightarrow> string res" where
  "read_file file = (case file of None \<Rightarrow> Inl (SysErr ENOENT) | Some s \<Rightarrow> Inr s)"

section \<open>Restoring\<close>

text \<open>
  \<open>restoreState\<close>: the manager afterwards and the names it starts to reconnect in the background.
  \<open>u\<close> is the current OS user and \<open>now\<close> the clock, for local sessions.
\<close>

fun restore :: "string res \<Rightarrow> int \<Rightarrow> SessionState list \<Rightarrow> manager \<Rightarrow> manager \<times> string list" where
  "restore u now [] m = (m, [])"
| "restore u now (s # ss) m =
     (if ss_Type s = ''local'' then restore u now ss (snd (ConnectLocal u now (ss_Name s) m))
      else
        let m1 = RegisterOfflineSession (ss_Name s) (ss_User s) (ss_Host s) (ss_Port s) (ss_KeyPath s)
                   (ss_CreatedAt s * 1000000000) m;
            (m2, ns) = restore u now ss m1
        in (m2, (if ss_AutoReconnect s \<or> ss_KeyPath s \<noteq> '''' then [ss_Name s] else []) @ ns))"

definition restoreState :: "string res \<Rightarrow> int \<Rightarrow> SessionState list res \<Rightarrow> manager \<Rightarrow> manager \<times> string list" where
  "restoreState u now loaded m = (case loaded of Inl _ \<Rightarrow> (m, []) | Inr ss \<Rightarrow> if ss = [] then (m, []) else restore u now ss m)"

section \<open>Lemmas\<close>

lemma SessionToState_sel [simp]:
  "ss_Name (SessionToState s) = GetName s" "ss_Type (SessionToState s) = GetType s"
  "ss_KeyPath (SessionToState s) = GetKeyPath s"
  "ss_AutoReconnect (SessionToState s) \<longleftrightarrow> \<not> IsLocalSession s \<and> (GetKeyPath s \<noteq> '''' \<or> GetPassword s = '''')"
  by (cases s; simp add: SessionToState_def Let_def)+

lemma rt_SessionState:
  "int_ok (ss_Port s) \<Longrightarrow> int_ok (ss_CreatedAt s) \<Longrightarrow> dec_SessionState (enc_SessionState s) = Some s"
  by (simp add: enc_SessionState_def field_rules)

lemma rt_states:
  "(\<And>s. s \<in> set ss \<Longrightarrow> int_ok (ss_Port s) \<and> int_ok (ss_CreatedAt s)) \<Longrightarrow> dec_states (map enc_SessionState ss) = Some ss"
  by (induction ss) (simp_all add: rt_SessionState)

text \<open>What a restored session must look like, given the session that was saved.\<close>

definition restored_as :: "session \<Rightarrow> session \<Rightarrow> bool" where
  "restored_as old new =
     (case old of
        SSH s \<Rightarrow> new = SSH \<lparr>s_Name = s_Name s, s_Host = s_Host s, s_User = s_User s, s_Port = s_Port s,
           s_Password = '''', s_KeyPath = s_KeyPath s, s_Status = StatusOffline, s_Client = None,
           s_CreatedAt = unix_seconds (s_CreatedAt s) * 1000000000, s_LastCmd = ''''\<rparr>
      | Local l \<Rightarrow> IsLocalSession new \<and> GetName new = l_Name l \<and> GetStatus new = StatusConnected)"

lemma restore_step_ssh:
  assumes "sessions m (s_Name s) = None" "mgr_inv m"
  defines "st \<equiv> SessionToState (SSH s)"
  defines "m1 \<equiv> RegisterOfflineSession (ss_Name st) (ss_User st) (ss_Host st) (ss_Port st) (ss_KeyPath st) (ss_CreatedAt st * 1000000000) m"
  shows "mgr_inv m1" "sessions m1 = (sessions m)(s_Name s \<mapsto> nextRef m)" "restored_as (SSH s) (objs m1 (nextRef m))"
    "nextRef m1 = Suc (nextRef m)" "\<And>r. r < nextRef m \<Longrightarrow> objs m1 r = objs m r" "netOpen m1 = netOpen m"
proof -
  show "mgr_inv m1" unfolding m1_def by (rule RegisterOfflineSession_ok) (use assms in \<open>auto simp: SessionToState_def Let_def\<close>)
qed (auto simp: m1_def RegisterOfflineSession_def Let_def st_def SessionToState_def alloc_def restored_as_def)

lemma restore_step_local:
  fixes u :: "string res" and now :: int
  assumes "sessions m (l_Name l) = None" "mgr_inv m" "l_Name l \<noteq> ''''"
  defines "m1 \<equiv> snd (ConnectLocal u now (l_Name l) m)"
  shows "mgr_inv m1" "sessions m1 = (sessions m)(l_Name l \<mapsto> nextRef m)" "restored_as (Local l) (objs m1 (nextRef m))"
    "nextRef m1 = Suc (nextRef m)" "\<And>r. r < nextRef m \<Longrightarrow> objs m1 r = objs m r" "netOpen m1 = netOpen m"
proof -
  show "mgr_inv m1" unfolding m1_def by (rule ConnectLocal_ok[OF assms(2) prod.collapse[symmetric]])
qed (use assms in \<open>auto simp: m1_def ConnectLocal_def Let_def alloc_def restored_as_def\<close>)

text \<open>Restoring the saved sessions \<open>olds\<close>, whose names are distinct and not registered yet.\<close>

lemma restore_all:
  assumes "distinct (map GetName olds)" "\<And>s. s \<in> set olds \<Longrightarrow> sessions m (GetName s) = None"
    "\<And>s. s \<in> set olds \<Longrightarrow> GetName s \<noteq> ''''" "mgr_inv m" "restore u now (map SessionToState olds) m = (m', ns)"
  shows "mgr_inv m' \<and> netOpen m' = netOpen m \<and> dom (sessions m') = dom (sessions m) \<union> GetName ` set olds
    \<and> (\<forall>n r. sessions m n = Some r \<longrightarrow> sessions m' n = Some r \<and> objs m' r = objs m r)
    \<and> (\<forall>s\<in>set olds. \<exists>r. sessions m' (GetName s) = Some r \<and> restored_as s (objs m' r))
    \<and> ns = map GetName (filter (\<lambda>s. \<not> IsLocalSession s \<and> (GetKeyPath s \<noteq> '''' \<or> GetPassword s = '''')) olds)"
  using assms
proof (induction olds arbitrary: m ns)
  case Nil
  then show ?case by auto
next
  case (Cons s olds)
  define m1 where "m1 = (case s of
      SSH x \<Rightarrow> RegisterOfflineSession (ss_Name (SessionToState s)) (ss_User (SessionToState s)) (ss_Host (SessionToState s))
         (ss_Port (SessionToState s)) (ss_KeyPath (SessionToState s)) (ss_CreatedAt (SessionToState s) * 1000000000) m
    | Local l \<Rightarrow> snd (ConnectLocal u now (l_Name l) m))"
  have new: "sessions m (GetName s) = None" "GetName s \<noteq> ''''" using Cons.prems by auto
  have S: "mgr_inv m1" "sessions m1 = (sessions m)(GetName s \<mapsto> nextRef m)" "restored_as s (objs m1 (nextRef m))"
    "nextRef m1 = Suc (nextRef m)" "\<And>r. r < nextRef m \<Longrightarrow> objs m1 r = objs m r" "netOpen m1 = netOpen m"
    using restore_step_ssh[of m, OF _ Cons.prems(4)] restore_step_local[of m, OF _ Cons.prems(4)] new
    by (cases s; simp add: m1_def)+
  obtain ns1 where R: "restore u now (map SessionToState olds) m1 = (m', ns1)"
    "ns = (if \<not> IsLocalSession s \<and> (GetKeyPath s \<noteq> '''' \<or> GetPassword s = '''') then [GetName s] else []) @ ns1"
    using Cons.prems(5) by (cases s) (auto simp: m1_def Let_def split: prod.splits if_splits)
  have pre: "distinct (map GetName olds)" "\<And>x. x \<in> set olds \<Longrightarrow> sessions m1 (GetName x) = None"
    "\<And>x. x \<in> set olds \<Longrightarrow> GetName x \<noteq> ''''"
    using Cons.prems(1-3) S(2) by (auto simp: image_iff)
  note IH = Cons.IH[OF pre S(1) R(1)]
  have keep: "sessions m' n = Some r \<and> objs m' r = objs m1 r" if "sessions m1 n = Some r" for n r
    using IH that by blast
  have old: "sessions m' n = Some r \<and> objs m' r = objs m r" if "sessions m n = Some r" for n r
  proof -
    have "n \<noteq> GetName s" using that new by auto
    then have "sessions m1 n = Some r" using that S(2) by simp
    then show ?thesis using keep[of n r] S(5)[of r] own_reg[OF mgr_own[OF Cons.prems(4)] that] by simp
  qed
  have here: "\<exists>r. sessions m' (GetName s) = Some r \<and> restored_as s (objs m' r)"
    using keep[of "GetName s" "nextRef m"] S(2,3) by auto
  show ?case using IH old here S(2,6) R(2) by auto
qed

section \<open>Properties\<close>

text \<open>The sessions that \<open>List\<close> returns are the registered ones, each under its own name.\<close>

lemma listed_names:
  assumes "mgr_inv m" "range_order (sessions m) ks"
  shows "map GetName (map (objs m) (List ks m)) = ks"
proof -
  have "GetName (objs m (the (sessions m k))) = k" if "k \<in> set ks" for k
    using that assms(2) own_reg[OF mgr_own[OF assms(1)], of k "the (sessions m k)"] by (auto simp: range_order_def)
  then show ?thesis by (auto simp: List_def intro: map_idI)
qed

lemma listed_sessions:
  assumes "range_order (sessions m) ks"
  shows "s \<in> set (map (objs m) (List ks m)) \<longleftrightarrow> (\<exists>k r. sessions m k = Some r \<and> s = objs m r)"
proof -
  have "set (map (objs m) (List ks m)) = (\<lambda>k. objs m (the (sessions m k))) ` dom (sessions m)"
    using assms by (simp add: List_def range_order_def image_image)
  then have "s \<in> set (map (objs m) (List ks m)) \<longleftrightarrow> (\<exists>k. sessions m k \<noteq> None \<and> s = objs m (the (sessions m k)))"
    by (auto simp only: image_iff dom_def)
  then show ?thesis by (metis option.sel option.exhaust option.distinct(1))
qed

lemma listed_named:
  assumes "mgr_inv m" "range_order (sessions m) ks"
  shows "(\<exists>s\<in>set (map (objs m) (List ks m)). GetName s = k \<and> Q s) \<longleftrightarrow> (\<exists>r. sessions m k = Some r \<and> Q (objs m r))"
  using listed_sessions[OF assms(2)] own_reg[OF mgr_own[OF assms(1)]] by metis

lemma states_listed: "set (CollectState xs) = SessionToState ` set xs"
  by (simp add: CollectState_def)

lemma needs_no_password:
  "\<not> IsLocalSession x \<and> (GetKeyPath x \<noteq> '''' \<or> GetPassword x = '''') \<longleftrightarrow>
   (\<exists>s. x = SSH s \<and> (s_KeyPath s \<noteq> '''' \<or> s_Password s = ''''))"
  by (cases x) auto

text \<open>
  C24: a restart restores the sessions and no secret.  Saving the sessions of a settled manager and
  restoring the file into a fresh one registers the same names; every SSH session comes back
  offline with its user, host, port, key path and creation time (in whole seconds) and without a
  password, every local session as a connected local one; no connection is open, and exactly the
  SSH sessions that can authenticate without a password are reconnected in the background.
\<close>

theorem restart_restores:
  assumes "mgr_inv m" "range_order (sessions m) ks" "'''' \<notin> set ks"
    "\<forall>k r. sessions m k = Some r \<longrightarrow> int_ok (ss_Port (SessionToState (objs m r))) \<and> int_ok (ss_CreatedAt (SessionToState (objs m r)))"
    "marshal (JArr (map enc_SessionState (CollectState (map (objs m) (List ks m))))) = Inr data"
    "parse data = Inr (JArr (map enc_SessionState (CollectState (map (objs m) (List ks m)))))"
    "Save marshal (\<lambda>d. (None, Some d)) (CollectState (map (objs m) (List ks m))) old = (e, stored)"
    "restoreState u now (Load parse (read_file stored)) NewManager = (m', ns)"
  shows "e = None \<and> mgr_inv m' \<and> netOpen m' = {} \<and> dom (sessions m') = dom (sessions m)
    \<and> (\<forall>k r. sessions m k = Some r \<longrightarrow> (\<exists>r'. sessions m' k = Some r' \<and> restored_as (objs m r) (objs m' r')))
    \<and> set ns = {k. \<exists>r s. sessions m k = Some r \<and> objs m r = SSH s \<and> (s_KeyPath s \<noteq> '''' \<or> s_Password s = '''')}"
proof -
  let ?olds = "map (objs m) (List ks m)"
  note names = listed_names[OF assms(1,2)] and mem = listed_sessions[OF assms(2)]
  have "int_ok (ss_Port s) \<and> int_ok (ss_CreatedAt s)" if "s \<in> set (CollectState ?olds)" for s
    using that mem assms(4) unfolding states_listed by (metis imageE)
  moreover have f: "e = None" "stored = Some data" using assms(5,7) by (auto simp: Save_def)
  ultimately have "Load parse (read_file stored) = Inr (CollectState ?olds)"
    using assms(6) rt_states[of "CollectState ?olds"] by (simp add: Load_def read_file_def)
  then have R: "restore u now (map SessionToState ?olds) NewManager = (m', ns)"
    using assms(8) by (auto simp: restoreState_def CollectState_def split: if_splits)
  have d: "distinct (map GetName ?olds)" using names assms(2) by (simp add: range_order_def)
  have z: "GetName s \<noteq> ''''" if "s \<in> set ?olds" for s using that names assms(3) by (metis imageI image_set)
  have n: "sessions NewManager (GetName s) = None" for s by (simp add: NewManager_def)
  note A = restore_all[OF d n z mgr_inv_init R]
  have "k \<in> set ns \<longleftrightarrow> (\<exists>s \<in> set ?olds. GetName s = k \<and> \<not> IsLocalSession s \<and> (GetKeyPath s \<noteq> '''' \<or> GetPassword s = ''''))" for k
    using A by auto
  then have "set ns = {k. \<exists>r s. sessions m k = Some r \<and> objs m r = SSH s \<and> (s_KeyPath s \<noteq> '''' \<or> s_Password s = '''')}"
    unfolding listed_named[OF assms(1,2)] needs_no_password by blast
  moreover have "dom (sessions m') = GetName ` set ?olds" using A by (simp add: NewManager_def)
  then have "dom (sessions m') = dom (sessions m)"
    using names assms(2) by (metis image_set range_order_def)
  moreover have "\<exists>r'. sessions m' k = Some r' \<and> restored_as (objs m r) (objs m' r')" if "sessions m k = Some r" for k r
    using A mem[of "objs m r"] that own_reg[OF mgr_own[OF assms(1)] that] by blast
  ultimately show ?thesis using A f by (simp add: NewManager_def)
qed


definition demo_states :: "SessionState list" where
  "demo_states = CollectState (map (objs demo_up) (List [''u@h''] demo_up))"

theorem restart_restores_witness:
  "let m' = fst (restoreState (Inr ''me'') 9 (Load (\<lambda>_. Inr (JArr (map enc_SessionState demo_states))) (Inr ''X'')) NewManager)
   in netOpen m' = {} \<and> (\<exists>r. sessions m' ''u@h'' = Some r \<and> restored_as (objs demo_up 0) (objs m' r))
      \<and> snd (restoreState (Inr ''me'') 9 (Load (\<lambda>_. Inr (JArr (map enc_SessionState demo_states))) (Inr ''X'')) NewManager) = []"
proof -
  let ?marshal = "\<lambda>_ :: json. Inr ''X'' :: string res"
  let ?parse = "\<lambda>_ :: string. Inr (JArr (map enc_SessionState demo_states)) :: json res"
  let ?R = "restoreState (Inr ''me'') 9 (Load ?parse (read_file (Some ''X''))) NewManager"
  have o: "objs demo_up 0 = SSH \<lparr>s_Name = ''u@h'', s_Host = ''h'', s_User = ''u'', s_Port = 22, s_Password = ''pw'',
      s_KeyPath = '''', s_Status = StatusConnected, s_Client = Some 0, s_CreatedAt = 7, s_LastCmd = ''''\<rparr>"
    by (simp add: demo_up_def demo_net_def ConnectSSH_def ConnectSSH_lookup_def ssh_name_def
      NewManager_def alloc_def connect_def connect_adopt_def Let_def)
  have ro: "range_order (sessions demo_up) [''u@h'']" by (simp add: range_order_def demo_up_sel)
  have ok: "\<forall>k r. sessions demo_up k = Some r \<longrightarrow>
      int_ok (ss_Port (SessionToState (objs demo_up r))) \<and> int_ok (ss_CreatedAt (SessionToState (objs demo_up r)))"
    by (auto simp: demo_up_sel o SessionToState_def int_ok_def unix_seconds_def split: if_splits)
  have sv: "Save ?marshal (\<lambda>d. (None, Some d)) demo_states None = (None, Some ''X'')" by (simp add: Save_def)
  have z: "'''' \<notin> set [''u@h'']" by simp
  note R = restart_restores[where m = demo_up and ks = "[''u@h'']" and marshal = ?marshal and parse = ?parse
      and data = "''X''" and old = None and u = "Inr ''me''" and now = 9, folded demo_states_def,
      OF demo_up_inv ro z ok refl refl sv prod.collapse[symmetric]]
  have none: "{k. \<exists>r s. sessions demo_up k = Some r \<and> objs demo_up r = SSH s \<and> (s_KeyPath s \<noteq> '''' \<or> s_Password s = '''')} = {}"
    by (auto simp: demo_up_sel o split: if_splits)
  have up: "sessions demo_up ''u@h'' = Some 0" by (simp add: demo_up_sel)
  have a: "netOpen (fst ?R) = {}" using R by (elim conjE)
  have b: "snd ?R = []" using R[unfolded none set_empty] by (elim conjE)
  have c: "\<exists>r. sessions (fst ?R) ''u@h'' = Some r \<and> restored_as (objs demo_up 0) (objs (fst ?R) r)"
    using R up by blast
  from a b c show ?thesis by (simp add: read_file_def Let_def)
qed

end
