(* ===== verification/Safe_Root.thy ===== *)
theory Safe_Root
  imports Gopath
begin

text \<open>
  \<open>internal/transfer/safefile_unix.go\<close> and \<open>cleanRelPath\<close> of \<open>internal/transfer/sftp.go\<close>: creating
  files and directories below an open directory descriptor without following symbolic links.

  The operating system is a parameter, and an adversarial one: each system call is answered by a
  function of the whole history of calls, so that anything another process does to the tree
  between two calls is covered.  A run is the list of the calls made with their answers, and the
  properties are about that list: which directory and which name each call is given, and which
  descriptors are open.
\<close>

section \<open>System calls\<close>

type_synonym fd = int
type_synonym mode = "32 word"

text \<open>
  Calls by path on the local side and calls of the SFTP client, as the file transfer makes them
  (\<open>Sftp_Transfer\<close>).
\<close>

datatype local_call =
  LStat string | LLstat string | LEvalSymlinks string | LMkdirAll string mode | LOpen string | LCloseFile string

datatype remote_call =
  RStat string | RMkdirAll string | RCreate string | RCopyTo string | RChmod string mode
  | RChtimes string int | ROpen string | RCloseFile string | RReadDir string | RMkdir string
  | RRemove string | RCloseClient

datatype event =
    EMkdirat fd string mode "go_err option"
  | EOpenatDir fd string "fd res"
  | EOpenatCreate fd string mode "fd res"
  | EOpenRoot string "fd res"
  | EClose fd
  | EWrite fd
  | EFchmod fd mode
  | EFutimes fd int
  | ELocal local_call
  | ERemote remote_call

text \<open>
  The flags of the two opens are fixed by the code: \<open>EOpenatDir\<close> is
  \<open>O_RDONLY|O_CLOEXEC|O_DIRECTORY|O_NOFOLLOW\<close>, \<open>EOpenatCreate\<close> is
  \<open>O_CREAT|O_WRONLY|O_TRUNC|O_CLOEXEC|O_NOFOLLOW\<close>, \<open>EOpenRoot\<close> is \<open>EOpenatDir\<close> on a path.
\<close>

record kernel =
  k_mkdirat :: "event list \<Rightarrow> fd \<Rightarrow> string \<Rightarrow> mode \<Rightarrow> go_err option"
  k_openat_dir :: "event list \<Rightarrow> fd \<Rightarrow> string \<Rightarrow> fd res"
  k_openat_create :: "event list \<Rightarrow> fd \<Rightarrow> string \<Rightarrow> mode \<Rightarrow> fd res"
  k_open_root :: "event list \<Rightarrow> string \<Rightarrow> fd res"

definition mkdirat :: "kernel \<Rightarrow> fd \<Rightarrow> string \<Rightarrow> mode \<Rightarrow> event list \<Rightarrow> go_err option \<times> event list" where
  "mkdirat K d n md t = (let r = k_mkdirat K t d n md in (r, t @ [EMkdirat d n md r]))"

definition openat_dir :: "kernel \<Rightarrow> fd \<Rightarrow> string \<Rightarrow> event list \<Rightarrow> fd res \<times> event list" where
  "openat_dir K d n t = (let r = k_openat_dir K t d n in (r, t @ [EOpenatDir d n r]))"

definition openat_create :: "kernel \<Rightarrow> fd \<Rightarrow> string \<Rightarrow> mode \<Rightarrow> event list \<Rightarrow> fd res \<times> event list" where
  "openat_create K d n md t = (let r = k_openat_create K t d n md in (r, t @ [EOpenatCreate d n md r]))"

text \<open>\<open>if currentFD != r.fd { unix.Close(currentFD) }\<close>\<close>

definition close_unless :: "fd \<Rightarrow> fd \<Rightarrow> event list \<Rightarrow> event list" where
  "close_unless root f t = (if f \<noteq> root then t @ [EClose f] else t)"

section \<open>The root\<close>

text \<open>A \<open>safeRoot\<close> is its descriptor.\<close>

definition openSafeRoot :: "kernel \<Rightarrow> string \<Rightarrow> event list \<Rightarrow> fd res \<times> event list" where
  "openSafeRoot K path t =
     (let r = k_open_root K t path; t1 = t @ [EOpenRoot path r] in
      case r of Inl e \<Rightarrow> (Inl (Errorf ''failed to open destination root safely: %w'' [AErr e]), t1)
      | Inr f \<Rightarrow> (Inr f, t1))"

definition safeRoot_Close :: "fd \<Rightarrow> event list \<Rightarrow> event list" where
  "safeRoot_Close root t = t @ [EClose root]"

definition cleanRelPath :: "string \<Rightarrow> string res" where
  "cleanRelPath relPath =
     (let clean = Clean relPath in
      if clean = ''.'' \<or> clean = '''' then Inr ''''
      else if clean = ''..'' \<or> HasPrefix clean ''../''
      then Inl (Errorf ''invalid destination relative path: %s'' [AStr relPath])
      else Inr clean)"

unbundle bit_operations_syntax

text \<open>\<open>os.FileMode.Perm\<close>: the low nine bits (\<open>0777\<close> is \<open>0x1FF\<close>); \<open>0755\<close> is \<open>0x1ED\<close>.\<close>

definition Perm :: "mode \<Rightarrow> mode" where "Perm m = m AND 0x1FF"

fun ensureDir_loop :: "kernel \<Rightarrow> fd \<Rightarrow> mode \<Rightarrow> string list \<Rightarrow> fd \<Rightarrow> event list \<Rightarrow> go_err option \<times> event list" where
  "ensureDir_loop K root md [] cur t = (None, close_unless root cur t)"
| "ensureDir_loop K root md (part # parts) cur t =
     (if part = '''' \<or> part = ''.'' then ensureDir_loop K root md parts cur t
      else
        let createMode = (if parts = [] then Perm md else 0x1ED);
            (err, t1) = mkdirat K cur part createMode t in
        if err \<noteq> None \<and> \<not> err_is EEXIST (the err)
        then (Some (Errorf ''failed to create destination directory: %w'' [AErr (the err)]), close_unless root cur t1)
        else
          (case openat_dir K cur part t1 of
             (Inl e, t2) \<Rightarrow> (Some (Errorf ''failed to open destination directory safely: %w'' [AErr e]),
                             close_unless root cur t2)
           | (Inr next, t2) \<Rightarrow> ensureDir_loop K root md parts next (close_unless root cur t2)))"

definition ensureDir :: "kernel \<Rightarrow> fd \<Rightarrow> string \<Rightarrow> mode \<Rightarrow> event list \<Rightarrow> go_err option \<times> event list" where
  "ensureDir K root relPath md t =
     (case cleanRelPath relPath of
        Inl e \<Rightarrow> (Some e, t)
      | Inr cleanRel \<Rightarrow>
          if cleanRel = '''' then (None, t)
          else ensureDir_loop K root md (SplitAt slash cleanRel) root t)"

fun openDir_loop :: "kernel \<Rightarrow> fd \<Rightarrow> string list \<Rightarrow> fd \<Rightarrow> event list \<Rightarrow> fd res \<times> event list" where
  "openDir_loop K root [] cur t = (Inr cur, t)"
| "openDir_loop K root (part # parts) cur t =
     (if part = '''' \<or> part = ''.'' then openDir_loop K root parts cur t
      else (case openat_dir K cur part t of
              (Inl e, t1) \<Rightarrow> (Inl (Errorf ''failed to open destination directory safely: %w'' [AErr e]),
                              close_unless root cur t1)
            | (Inr next, t1) \<Rightarrow> openDir_loop K root parts next (close_unless root cur t1)))"

definition openDir :: "kernel \<Rightarrow> fd \<Rightarrow> string \<Rightarrow> event list \<Rightarrow> fd res \<times> event list" where
  "openDir K root relPath t =
     (case cleanRelPath relPath of
        Inl e \<Rightarrow> (Inl e, t)
      | Inr cleanRel \<Rightarrow>
          if cleanRel = '''' then (Inr root, t)
          else openDir_loop K root (SplitAt slash cleanRel) root t)"

text \<open>
  \<open>openFile\<close>: the deferred close of the parent runs after the file is opened.  \<open>os.NewFile\<close> is nil
  only for a negative descriptor.
\<close>

definition openFile_at :: "kernel \<Rightarrow> fd \<Rightarrow> fd \<Rightarrow> string \<Rightarrow> mode \<Rightarrow> event list \<Rightarrow> fd res \<times> event list" where
  "openFile_at K root parentFD name perm t =
     (case openat_create K parentFD name (Perm perm) t of
        (Inl e, t1) \<Rightarrow> (Inl (Errorf ''failed to open destination file safely: %w'' [AErr e]), close_unless root parentFD t1)
      | (Inr fileFD, t1) \<Rightarrow>
          if fileFD < 0
          then (Inl (Errorf ''failed to wrap destination file descriptor'' []),
                close_unless root parentFD (t1 @ [EClose fileFD]))
          else (Inr fileFD, close_unless root parentFD t1))"

definition openFile :: "kernel \<Rightarrow> fd \<Rightarrow> string \<Rightarrow> mode \<Rightarrow> event list \<Rightarrow> fd res \<times> event list" where
  "openFile K root relPath perm t =
     (case cleanRelPath relPath of
        Inl e \<Rightarrow> (Inl e, t)
      | Inr cleanRel \<Rightarrow>
          if cleanRel = [] then (Inl (Errorf ''invalid destination relative path: %s'' [AStr relPath]), t)
          else
            (case ensureDir K root (Dir cleanRel) 0x1ED t of
               (Some e, t1) \<Rightarrow> (Inl e, t1)
             | (None, t1) \<Rightarrow>
                 (case openDir K root (Dir cleanRel) t1 of
                    (Inl e, t2) \<Rightarrow> (Inl e, t2)
                  | (Inr parentFD, t2) \<Rightarrow> openFile_at K root parentFD (Base cleanRel) perm t2)))"


section \<open>Confinement and open descriptors of a run\<close>

text \<open>
  \<open>dirs_after D t\<close>: the descriptors of directories and files below the root that are open after the
  calls \<open>t\<close> when \<open>D\<close> were before.  \<open>confined D t\<close>: every call that creates or opens something names
  a single component, no dot, dot-dot or slash, relative to one of them, and every call that
  changes an open file changes one of them.
\<close>

fun dirs_step :: "event \<Rightarrow> fd set \<Rightarrow> fd set" where
  "dirs_step (EOpenatDir d n (Inr f)) D = (if d \<in> D then insert f D else D)"
| "dirs_step (EOpenatCreate d n md (Inr f)) D = (if d \<in> D then insert f D else D)"
| "dirs_step (EOpenRoot p (Inr f)) D = insert f D"
| "dirs_step (EClose f) D = D - {f}"
| "dirs_step _ D = D"

fun dirs_after :: "fd set \<Rightarrow> event list \<Rightarrow> fd set" where
  "dirs_after D [] = D"
| "dirs_after D (e # t) = dirs_after (dirs_step e D) t"

fun confined_call :: "fd set \<Rightarrow> event \<Rightarrow> bool" where
  "confined_call D (EMkdirat d n md r) = (d \<in> D \<and> name_comp n)"
| "confined_call D (EOpenatDir d n r) = (d \<in> D \<and> name_comp n)"
| "confined_call D (EOpenatCreate d n md r) = (d \<in> D \<and> name_comp n)"
| "confined_call D (EWrite f) = (f \<in> D)"
| "confined_call D (EFchmod f md) = (f \<in> D)"
| "confined_call D (EFutimes f mt) = (f \<in> D)"
| "confined_call D _ = True"

text \<open>The calls on descriptors.\<close>

fun fd_event :: "event \<Rightarrow> bool" where
  "fd_event (EOpenRoot p r) = False"
| "fd_event (ELocal c) = False"
| "fd_event (ERemote c) = False"
| "fd_event _ = True"

fun confined :: "fd set \<Rightarrow> event list \<Rightarrow> bool" where
  "confined D [] = True"
| "confined D (e # t) = (confined_call D e \<and> confined (dirs_step e D) t)"

text \<open>The open descriptors.\<close>

fun open_step :: "event \<Rightarrow> fd set \<Rightarrow> fd set" where
  "open_step (EOpenatDir d n (Inr f)) F = insert f F"
| "open_step (EOpenatCreate d n md (Inr f)) F = insert f F"
| "open_step (EOpenRoot p (Inr f)) F = insert f F"
| "open_step (EClose f) F = F - {f}"
| "open_step _ F = F"

fun open_after :: "fd set \<Rightarrow> event list \<Rightarrow> fd set" where
  "open_after F [] = F"
| "open_after F (e # t) = open_after (open_step e F) t"

text \<open>
  What POSIX promises of descriptors: a successful open returns one that is not in use (\<open>F\<close> are
  those open at the start of the run).
\<close>

definition fresh_fds :: "kernel \<Rightarrow> fd set \<Rightarrow> bool" where
  "fresh_fds K F \<longleftrightarrow>
     (\<forall>t d n f. k_openat_dir K t d n = Inr f \<longrightarrow> f \<notin> open_after F t)
     \<and> (\<forall>t d n md f. k_openat_create K t d n md = Inr f \<longrightarrow> f \<notin> open_after F t)
     \<and> (\<forall>t p f. k_open_root K t p = Inr f \<longrightarrow> f \<notin> open_after F t)"

section \<open>Lemmas: runs\<close>

lemma dirs_after_append [simp]: "dirs_after D (t @ u) = dirs_after (dirs_after D t) u"
  by (induction t arbitrary: D) auto

lemma open_after_append [simp]: "open_after F (t @ u) = open_after (open_after F t) u"
  by (induction t arbitrary: F) auto

lemma confined_append [simp]: "confined D (t @ u) \<longleftrightarrow> confined D t \<and> confined (dirs_after D t) u"
  by (induction t arbitrary: D) auto

lemma dirs_mono_step: "D \<subseteq> D' \<Longrightarrow> dirs_step e D \<subseteq> dirs_step e D'"
  by (cases "(e, D)" rule: dirs_step.cases) auto

lemma confined_mono: "confined D t \<Longrightarrow> D \<subseteq> D' \<Longrightarrow> confined D' t"
proof (induction t arbitrary: D D')
  case Nil
  then show ?case by simp
next
  case (Cons e t)
  have "confined_call D' e" using Cons.prems by (cases e) auto
  then show ?case using Cons dirs_mono_step[OF Cons.prems(2)] by auto
qed


lemma fresh_dir: "fresh_fds K F \<Longrightarrow> k_openat_dir K t d n = Inr f \<Longrightarrow> f \<notin> open_after F t"
  by (auto simp: fresh_fds_def)

lemma fresh_create: "fresh_fds K F \<Longrightarrow> k_openat_create K t d n md = Inr f \<Longrightarrow> f \<notin> open_after F t"
  by (auto simp: fresh_fds_def)

lemma fresh_root: "fresh_fds K F \<Longrightarrow> k_open_root K t p = Inr f \<Longrightarrow> f \<notin> open_after F t"
  by (auto simp: fresh_fds_def)

definition part_ok :: "string \<Rightarrow> bool" where
  "part_ok p \<longleftrightarrow> p = '''' \<or> name_comp p"

lemma close_unless_run:
  "close_unless root cur t = t @ (if cur \<noteq> root then [EClose cur] else [])"
  by (simp add: close_unless_def)

text \<open>
  The loops keep at most the root and the current directory open, and close the current one on
  every exit but the successful one of \<open>openDir\<close>.
\<close>

lemma ensureDir_loop_step:
  assumes "\<not> (part = '''' \<or> part = ''.'')" "ensureDir_loop K root md (part # parts) cur t = (r, t')"
  shows "let cm = if parts = [] then Perm md else 0x1ED; x = k_mkdirat K t cur part cm; t1 = t @ [EMkdirat cur part cm x] in
      (if x \<noteq> None \<and> \<not> err_is EEXIST (the x)
       then (Some (Errorf ''failed to create destination directory: %w'' [AErr (the x)]), close_unless root cur t1)
       else (case openat_dir K cur part t1 of
               (Inl e, t2) \<Rightarrow> (Some (Errorf ''failed to open destination directory safely: %w'' [AErr e]), close_unless root cur t2)
             | (Inr next, t2) \<Rightarrow> ensureDir_loop K root md parts next (close_unless root cur t2))) = (r, t')"
  using assms by (simp add: mkdirat_def Let_def del: not_None_eq)

text \<open>The descriptor opened in one round is closed by the rest of the loop, and the previous one at the end of the round.\<close>

lemma ensureDir_loop_next:
  assumes nc: "name_comp part" and R: "root \<in> open_after F t" "cur \<in> open_after F t" and ff: "f \<notin> open_after F t"
    and v: "v = [EMkdirat cur part cm x, EOpenatDir cur part (Inr f)] @ (if cur \<noteq> root then [EClose cur] else [])"
  shows "open_after F (t @ v) = insert f (open_after F t - ({cur} - {root}))"
    and "dirs_after {root, cur} v = {root, f}" and "list_all fd_event v \<and> confined {root, cur} v"
  using assms by (auto simp: v)

lemma ensureDir_loop_run:
  assumes "fresh_fds K F" "root \<in> open_after F t" "cur \<in> open_after F t" "list_all part_ok parts"
    "ensureDir_loop K root md parts cur t = (r, t')"
  shows "\<exists>u. t' = t @ u \<and> list_all fd_event u \<and> confined {root, cur} u \<and> dirs_after {root, cur} u = {root}
           \<and> open_after F t' = open_after F t - ({cur} - {root})"
  using assms
proof (induction parts arbitrary: cur t)
  case Nil
  then show ?case by (auto simp: close_unless_run)
next
  case (Cons part parts)
  show ?case
  proof (cases "part = '''' \<or> part = ''.''")
    case True
    then show ?thesis using Cons by auto
  next
    case False
    with Cons.prems(4) have nc: "name_comp part" by (simp add: part_ok_def)
    define cm where "cm = (if parts = [] then Perm md else 0x1ED)"
    let ?r = "k_mkdirat K t cur part cm"
    let ?t1 = "t @ [EMkdirat cur part cm ?r]"
    let ?o = "k_openat_dir K ?t1 cur part"
    note run = ensureDir_loop_step[OF False Cons.prems(5), unfolded Let_def, folded cm_def]
    show ?thesis
    proof (cases "?r \<noteq> None \<and> \<not> err_is EEXIST (the ?r)")
      case True
      then show ?thesis using run Cons.prems(2,3) nc by (auto simp: close_unless_run)
    next
      case noerr: False
      show ?thesis
      proof (cases ?o)
        case (Inl e)
        then show ?thesis using run Cons.prems(2,3) nc noerr by (auto simp: openat_dir_def Let_def close_unless_run)
      next
        case (Inr f)
        have ff: "f \<notin> open_after F t" using fresh_dir[OF Cons.prems(1) Inr] by simp
        define v where "v = [EMkdirat cur part cm ?r, EOpenatDir cur part (Inr f)] @ (if cur \<noteq> root then [EClose cur] else [])"
        note n = ensureDir_loop_next[OF nc Cons.prems(2,3) ff v_def]
        have "ensureDir_loop K root md parts f (t @ v) = (r, t')"
          using run noerr Inr by (auto simp: openat_dir_def Let_def close_unless_run v_def)
        then obtain u where u: "t' = (t @ v) @ u" "list_all fd_event u \<and> confined {root, f} u" "dirs_after {root, f} u = {root}"
          "open_after F t' = open_after F (t @ v) - ({f} - {root})"
          using Cons.IH[OF Cons.prems(1), of "t @ v" f] Cons.prems(2-4) ff n(1) by auto
        moreover have "open_after F t' = open_after F t - ({cur} - {root})"
          using u(4) n(1) ff Cons.prems(2) by auto
        ultimately show ?thesis using n(2,3) by (intro exI[of _ "v @ u"]) simp
      qed
    qed
  qed
qed

lemma openDir_loop_run:
  assumes "fresh_fds K F" "root \<in> open_after F t" "cur \<in> open_after F t" "list_all part_ok parts"
    "openDir_loop K root parts cur t = (r, t')"
  shows "\<exists>u. t' = t @ u \<and> list_all fd_event u \<and> confined {root, cur} u
           \<and> (case r of Inl _ \<Rightarrow> dirs_after {root, cur} u = {root} \<and> open_after F t' = open_after F t - ({cur} - {root})
              | Inr d \<Rightarrow> dirs_after {root, cur} u = {root, d} \<and> (d = cur \<or> d \<notin> open_after F t)
                         \<and> open_after F t' = insert d (open_after F t - ({cur} - {root})))"
  using assms
proof (induction parts arbitrary: cur t)
  case Nil
  then show ?case by (auto split: sum.split)
next
  case (Cons part parts)
  show ?case
  proof (cases "part = '''' \<or> part = ''.''")
    case True
    then show ?thesis using Cons by auto
  next
    case False
    with Cons.prems(4) have nc: "name_comp part" by (simp add: part_ok_def)
    show ?thesis
    proof (cases "k_openat_dir K t cur part")
      case (Inl e)
      then show ?thesis using Cons.prems nc False
        by (auto simp: openat_dir_def Let_def close_unless_run)
    next
      case (Inr f)
      have ff: "f \<notin> open_after F t" using fresh_dir[OF Cons.prems(1) Inr] .
      let ?t2 = "close_unless root cur (t @ [EOpenatDir cur part (Inr f)])"
      have "openDir_loop K root parts f ?t2 = (r, t')"
        using Cons.prems(5) False Inr by (simp add: openat_dir_def Let_def)
      moreover have o2: "open_after F ?t2 = insert f (open_after F t - ({cur} - {root}))"
        using ff Cons.prems(2,3) by (auto simp: close_unless_run)
      ultimately obtain u where u: "t' = ?t2 @ u" "list_all fd_event u \<and> confined {root, f} u"
        "case r of Inl _ \<Rightarrow> dirs_after {root, f} u = {root} \<and> open_after F t' = open_after F ?t2 - ({f} - {root})
         | Inr d \<Rightarrow> dirs_after {root, f} u = {root, d} \<and> (d = f \<or> d \<notin> open_after F ?t2)
                    \<and> open_after F t' = insert d (open_after F ?t2 - ({f} - {root}))"
        using Cons.IH[OF Cons.prems(1), of ?t2 f] Cons.prems(2-4) ff by auto
      define v where "v = [EOpenatDir cur part (Inr f)] @ (if cur \<noteq> root then [EClose cur] else [])"
      have d: "dirs_after {root, cur} v = {root, f}" and c: "list_all fd_event v \<and> confined {root, cur} v"
        using ff nc Cons.prems(2,3) by (auto simp: v_def)
      have "t' = t @ (v @ u)" using u(1) by (simp add: v_def close_unless_run)
      then show ?thesis using u(2,3) d c ff o2 Cons.prems(2,3)
        by (intro exI[of _ "v @ u"]) (auto split: sum.splits)
    qed
  qed
qed


section \<open>Lemmas: relative paths\<close>

lemma cleanRelPath_ok:
  assumes "cleanRelPath r = Inr c" "c \<noteq> ''''"
  shows "c = render (IsAbs r) (comps r) \<and> list_all name_comp (comps r) \<and> (\<not> IsAbs r \<longrightarrow> comps r \<noteq> [])"
proof -
  have c: "c = Clean r" "c \<noteq> ''.''" "\<not> (c = ''..'' \<or> HasPrefix c ''../'')"
    using assms by (auto simp: cleanRelPath_def Let_def split: if_splits)
  then have r: "r \<noteq> ''''" by (auto simp: Clean_def)
  then have cr: "c = render (IsAbs r) (comps r)" using c(1) by (simp add: Clean_def)
  show ?thesis
  proof (cases "IsAbs r")
    case True
    then show ?thesis using cr comps_abs by auto
  next
    case False
    then have ne: "comps r \<noteq> []" and J: "c = Join ''/'' (comps r)"
      using cr c(2) by (auto simp: render_def split: if_splits)
    obtain n ns where n: "comps r = replicate n ''..'' @ ns" "list_all name_comp ns"
      using comps_clean[of r] False by (auto simp: clean_list_def)
    have "n = 0" using Join_dotdot[OF n(2), of n] c(3) J n(1) by (simp add: Let_def)
    then show ?thesis using cr n ne False by simp
  qed
qed

lemma names_no_slash: "list_all name_comp cs \<Longrightarrow> list_all (\<lambda>c. slash \<notin> set c) cs"
  by (auto simp: list_all_iff name_comp_def)

lemma cleanRelPath_parts:
  assumes "cleanRelPath r = Inr c" "c \<noteq> ''''"
  shows "list_all part_ok (SplitAt slash c)"
proof -
  note ok = cleanRelPath_ok[OF assms]
  show ?thesis
  proof (cases "comps r = []")
    case True
    then show ?thesis using ok by (auto simp: render_def part_ok_def)
  next
    case False
    then have "SplitAt slash (Join ''/'' (comps r)) = comps r"
      using ok SplitAt_Join names_no_slash by blast
    then show ?thesis using ok by (auto simp: render_def part_ok_def list_all_iff)
  qed
qed

lemma Join_last:
  "cs \<noteq> [] \<Longrightarrow> list_all name_comp cs \<Longrightarrow> Join ''/'' cs \<noteq> '''' \<and> last (Join ''/'' cs) \<noteq> slash"
proof (induction cs rule: induct_list012)
  case (2 x)
  then show ?case by (auto simp: name_comp_def dest: last_in_set)
next
  case (3 x y zs)
  then show ?case by (cases "Join ''/'' (y # zs)") auto
qed simp

lemma Base_render:
  assumes "cs \<noteq> []" "list_all name_comp cs"
  shows "Base (render b cs) = last cs"
proof -
  let ?j = "Join ''/'' cs"
  have j: "?j \<noteq> ''''" "last ?j \<noteq> slash" using Join_last[OF assms] by auto
  have p: "render b cs = (if b then slash # ?j else ?j)" using assms by (simp add: render_def)
  have "last (render b cs) \<noteq> slash" "render b cs \<noteq> ''''" using p j by auto
  then have "dropWhile (\<lambda>c. c = slash) (rev (render b cs)) = rev (render b cs)"
    by (cases "rev (render b cs)") (auto simp: hd_rev[symmetric])
  moreover have "SplitAt slash ?j = cs" using SplitAt_Join assms names_no_slash by blast
  ultimately show ?thesis using p j assms by (auto simp: Base_def Let_def)
qed

lemma cleanRelPath_base:
  assumes "cleanRelPath r = Inr c" "c \<noteq> ''''" "Clean r \<noteq> ''/''"
  shows "name_comp (Base c)"
proof -
  note ok = cleanRelPath_ok[OF assms(1,2)]
  have "c = Clean r" using assms(1,2) by (auto simp: cleanRelPath_def Let_def split: if_splits)
  then have "comps r \<noteq> []" using ok assms(3) by (auto simp: render_def)
  then show ?thesis using ok Base_render[of "comps r"] by (auto simp: list_all_iff)
qed

section \<open>Lemmas: the operations\<close>

lemma ensureDir_run:
  assumes "fresh_fds K F" "root \<in> open_after F t" "ensureDir K root relPath md t = (r, t')"
  shows "\<exists>u. t' = t @ u \<and> list_all fd_event u \<and> confined {root} u \<and> dirs_after {root} u = {root} \<and> open_after F t' = open_after F t"
proof (cases "cleanRelPath relPath")
  case (Inl e)
  then show ?thesis using assms by (auto simp: ensureDir_def)
next
  case (Inr c)
  show ?thesis
  proof (cases "c = ''''")
    case True
    then show ?thesis using assms Inr by (auto simp: ensureDir_def)
  next
    case False
    then show ?thesis
      using ensureDir_loop_run[OF assms(1,2,2) cleanRelPath_parts[OF Inr False]] assms(3) Inr
      by (simp add: ensureDir_def)
  qed
qed

lemma openDir_run:
  assumes "fresh_fds K F" "root \<in> open_after F t" "openDir K root relPath t = (r, t')"
  shows "\<exists>u. t' = t @ u \<and> list_all fd_event u \<and> confined {root} u
           \<and> (case r of Inl _ \<Rightarrow> dirs_after {root} u = {root} \<and> open_after F t' = open_after F t
              | Inr d \<Rightarrow> dirs_after {root} u = {root, d} \<and> (d = root \<or> d \<notin> open_after F t)
                         \<and> open_after F t' = insert d (open_after F t))"
proof (cases "cleanRelPath relPath")
  case (Inl e)
  then show ?thesis using assms by (auto simp: openDir_def)
next
  case (Inr c)
  show ?thesis
  proof (cases "c = ''''")
    case True
    then show ?thesis using assms Inr by (auto simp: openDir_def)
  next
    case False
    then show ?thesis
      using openDir_loop_run[OF assms(1,2,2) cleanRelPath_parts[OF Inr False]] assms(3) Inr
      by (cases r) (simp_all add: openDir_def)
  qed
qed

text \<open>The last step, when \<open>d\<close> is the parent's descriptor and \<open>t0\<close> what was called before it was opened.\<close>

lemma openFile_at_run:
  assumes K: "fresh_fds K F" and R: "root \<in> open_after F t0" and d: "d = root \<or> d \<notin> open_after F t0"
    and o: "open_after F t = insert d (open_after F t0)" and n: "name_comp name"
    and run: "openFile_at K root d name perm t = (r, t')"
  shows "\<exists>v. t' = t @ v \<and> list_all fd_event v \<and> confined {root, d} v
           \<and> (case r of Inl _ \<Rightarrow> dirs_after {root, d} v = {root} \<and> open_after F t' = open_after F t0
              | Inr f \<Rightarrow> dirs_after {root, d} v = {root, f} \<and> f \<notin> open_after F t0 \<and> open_after F t' = insert f (open_after F t0))"
proof -
  define c where "c = k_openat_create K t d name (Perm perm)"
  define cl where "cl = (if d \<noteq> root then [EClose d] else [])"
  note defs = openFile_at_def openat_create_def Let_def c_def[symmetric] close_unless_run cl_def[symmetric]
  have cl: "dirs_after D cl = D - ({d} - {root})" "list_all fd_event cl \<and> confined D cl" "open_after F' cl = F' - ({d} - {root})" for D F'
    by (auto simp: cl_def)
  show ?thesis
  proof (cases c)
    case (Inl e)
    then have "t' = t @ (EOpenatCreate d name (Perm perm) c # cl)" "\<exists>e. r = Inl e" using run by (auto simp: defs)
    then show ?thesis using cl d o n R Inl by (intro exI[of _ "EOpenatCreate d name (Perm perm) c # cl"]) auto
  next
    case f: (Inr f)
    then have ff: "f \<notin> open_after F t" using fresh_create[OF K] by (simp add: c_def)
    show ?thesis
    proof (cases "f < 0")
      case True
      then have "t' = t @ (EOpenatCreate d name (Perm perm) c # EClose f # cl)" "\<exists>e. r = Inl e" using run f by (auto simp: defs)
      moreover have "{root, d} - {f} = {root, d}" "f \<noteq> d" using ff o R by auto
      ultimately show ?thesis using cl d o n R ff f
        by (intro exI[of _ "EOpenatCreate d name (Perm perm) c # EClose f # cl"]) auto
    next
      case False
      then have "t' = t @ (EOpenatCreate d name (Perm perm) c # cl)" "r = Inr f" using run f by (auto simp: defs)
      then show ?thesis using cl d o n R ff f by (intro exI[of _ "EOpenatCreate d name (Perm perm) c # cl"]) auto
    qed
  qed
qed

lemma openFile_run:
  assumes K: "fresh_fds K F" and R: "root \<in> open_after F t" and rel: "Clean relPath \<noteq> ''/''"
    and run: "openFile K root relPath perm t = (r, t')"
  shows "\<exists>u. t' = t @ u \<and> list_all fd_event u \<and> confined {root} u
           \<and> (case r of Inl _ \<Rightarrow> dirs_after {root} u = {root} \<and> open_after F t' = open_after F t
              | Inr f \<Rightarrow> dirs_after {root} u = {root, f} \<and> f \<notin> open_after F t \<and> open_after F t' = insert f (open_after F t))"
proof (cases "\<exists>e. cleanRelPath relPath = Inl e \<or> cleanRelPath relPath = Inr []")
  case True
  then show ?thesis using run by (auto simp: openFile_def)
next
  case False
  then obtain c where c: "cleanRelPath relPath = Inr c" "c \<noteq> []" by (cases "cleanRelPath relPath") auto
  note base = cleanRelPath_base[OF c rel]
  obtain r1 t1 where E: "ensureDir K root (Dir c) 0x1ED t = (r1, t1)" by fastforce
  from ensureDir_run[OF K R E] obtain u1 where u1: "t1 = t @ u1" "list_all fd_event u1 \<and> confined {root} u1"
    "dirs_after {root} u1 = {root}" "open_after F t1 = open_after F t" by blast
  show ?thesis
  proof (cases r1)
    case (Some e)
    then show ?thesis using run c E u1 by (auto simp: openFile_def)
  next
    case None
    obtain r2 t2 where D: "openDir K root (Dir c) t1 = (r2, t2)" by fastforce
    from openDir_run[OF K _ D] R u1(4) obtain u2 where u2: "t2 = t1 @ u2" "list_all fd_event u2 \<and> confined {root} u2"
      "case r2 of Inl _ \<Rightarrow> dirs_after {root} u2 = {root} \<and> open_after F t2 = open_after F t1
        | Inr d \<Rightarrow> dirs_after {root} u2 = {root, d} \<and> (d = root \<or> d \<notin> open_after F t1)
                   \<and> open_after F t2 = insert d (open_after F t1)" by auto
    show ?thesis
    proof (cases r2)
      case (Inl e)
      then show ?thesis using run c E None D u1 u2 by (auto simp: openFile_def)
    next
      case (Inr d)
      then have d: "dirs_after {root} u2 = {root, d}" "d = root \<or> d \<notin> open_after F t" "open_after F t2 = insert d (open_after F t)"
        using u2(3) u1(4) by auto
      have "openFile_at K root d (Base c) perm t2 = (r, t')" using run c E None D Inr by (simp add: openFile_def)
      from openFile_at_run[OF K R d(2,3) base this] obtain v where v: "t' = t2 @ v" "list_all fd_event v \<and> confined {root, d} v"
        "case r of Inl _ \<Rightarrow> dirs_after {root, d} v = {root} \<and> open_after F t' = open_after F t
          | Inr f \<Rightarrow> dirs_after {root, d} v = {root, f} \<and> f \<notin> open_after F t \<and> open_after F t' = insert f (open_after F t)" by auto
      then show ?thesis using u1 u2(1,2) d(1) by (intro exI[of _ "u1 @ u2 @ v"]) (auto split: sum.splits)
    qed
  qed
qed

end
