(* ===== verification/Safe_Root_Fallback.thy ===== *)
theory Safe_Root_Fallback
  imports Safe_Root
begin

text \<open>
  \<open>internal/transfer/safefile_other.go\<close>: creating files below a root where there is no \<open>openat\<close>.  The
  root is a path, and every call is made by path.  The platforms are those with slash-separated
  paths (\<open>path/filepath\<close> is the one of \<open>Gopath\<close>); on Windows the source is the same and \<open>filepath\<close>
  is not.
\<close>

section \<open>System calls\<close>

datatype path_call = PStat string | PMkdirAll string mode | POpenFile string mode | PChtimes string int

text \<open>The answers to the calls, each a function of the calls before; \<open>True\<close> is a directory.\<close>

record path_kernel =
  pk_stat :: "path_call list \<Rightarrow> string \<Rightarrow> bool res"
  pk_mkdir :: "path_call list \<Rightarrow> string \<Rightarrow> mode \<Rightarrow> go_err option"
  pk_open :: "path_call list \<Rightarrow> string \<Rightarrow> mode \<Rightarrow> string res"
  pk_chtimes :: "path_call list \<Rightarrow> string \<Rightarrow> int \<Rightarrow> go_err option"

section \<open>Operations\<close>

definition fb_openSafeRoot :: "path_kernel \<Rightarrow> string \<Rightarrow> path_call list \<Rightarrow> string res \<times> path_call list" where
  "fb_openSafeRoot K path t =
     (case pk_stat K t path of
        Inl e \<Rightarrow> (Inl (Errorf ''failed to open destination root: %w'' [AErr e]), t @ [PStat path])
      | Inr isDir \<Rightarrow>
          if \<not> isDir then (Inl (Errorf ''destination root is not a directory: %s'' [AStr path]), t @ [PStat path])
          else (Inr path, t @ [PStat path]))"

definition fb_Close :: "string \<Rightarrow> path_call list \<Rightarrow> path_call list" where
  "fb_Close root t = t"

text \<open>A file is its name, which \<open>setFileTimes\<close> asks for.\<close>

definition fb_openFile :: "path_kernel \<Rightarrow> string \<Rightarrow> string \<Rightarrow> mode \<Rightarrow> path_call list \<Rightarrow> string res \<times> path_call list" where
  "fb_openFile K root relPath perm t =
     (case cleanRelPath relPath of
        Inl e \<Rightarrow> (Inl e, t)
      | Inr cleanRel \<Rightarrow>
          if cleanRel = '''' then (Inl (Errorf ''invalid destination relative path: %s'' [AStr relPath]), t)
          else
            let full = path_join [root, cleanRel]; t1 = t @ [PMkdirAll (Dir full) 0x1ED] in
            (case pk_mkdir K t (Dir full) 0x1ED of
               Some e \<Rightarrow> (Inl (Errorf ''failed to create destination directory: %w'' [AErr e]), t1)
             | None \<Rightarrow> (pk_open K t1 full (Perm perm), t1 @ [POpenFile full (Perm perm)])))"

definition fb_ensureDir :: "path_kernel \<Rightarrow> string \<Rightarrow> string \<Rightarrow> mode \<Rightarrow> path_call list \<Rightarrow> go_err option \<times> path_call list" where
  "fb_ensureDir K root relPath md t =
     (case cleanRelPath relPath of
        Inl e \<Rightarrow> (Some e, t)
      | Inr cleanRel \<Rightarrow>
          if cleanRel = '''' then (None, t)
          else
            let full = path_join [root, cleanRel]
            in (pk_mkdir K t full (Perm md), t @ [PMkdirAll full (Perm md)]))"

definition fb_setFileTimes :: "path_kernel \<Rightarrow> string \<Rightarrow> int \<Rightarrow> path_call list \<Rightarrow> go_err option \<times> path_call list" where
  "fb_setFileTimes K name modTime t = (pk_chtimes K t name modTime, t @ [PChtimes name modTime])"

section \<open>Lemmas: joining below a root\<close>

lemma clean_comps_append: "clean_comps r acc (cs @ ds) = clean_comps r (rev (clean_comps r acc cs)) ds"
  by (induction r acc cs rule: clean_comps.induct) (auto split: list.split)

lemma SplitAt_slash: "SplitAt c (s @ c # t) = SplitAt c s @ SplitAt c t"
  by (induction s) (auto split: list.splits dest: sym[of "[]"])

lemma Join_snoc: "Join sep (xs @ [x]) = (if xs = [] then x else Join sep xs @ sep @ x)"
  by (induction xs rule: induct_list012) auto

lemma comps_below:
  assumes "IsAbs root" "c \<noteq> []"
  shows "IsAbs (path_join [root, c])" "comps (path_join [root, c]) = clean_comps True (rev (comps root)) (SplitAt slash c)"
proof -
  have r: "root \<noteq> []" using assms(1) by auto
  have p: "path_join [root, c] = Clean (root @ slash # c)" using r assms(2) by simp
  have a: "IsAbs (root @ slash # c)" using assms(1) by (cases root) auto
  show "IsAbs (path_join [root, c])" unfolding p IsAbs_Clean by (rule a)
  show "comps (path_join [root, c]) = clean_comps True (rev (comps root)) (SplitAt slash c)"
    unfolding p comps_Clean comps_def[of "root @ slash # c"] comps_def[of root] SplitAt_slash
    using assms(1) a by (simp add: clean_comps_append)
qed

text \<open>The relative path that passed the check is appended to the root.\<close>

lemma join_below:
  assumes R: "IsAbs root" and c: "cleanRelPath r = Inr c" "c \<noteq> []"
  shows "IsAbs (path_join [root, c]) \<and> comps (path_join [root, c]) = comps root @ comps r"
proof -
  note ok = cleanRelPath_ok[OF c]
  have cl: "clean_list True (comps root @ comps r)" using ok comps_abs[OF R] by (simp add: clean_list_rooted)
  have "clean_comps True (rev (comps root)) (SplitAt slash c) = comps root @ comps r"
  proof (cases "comps r = []")
    case True
    then have "c = [slash]" using ok c by (auto simp: render_def)
    then show ?thesis using True by simp
  next
    case False
    have "SplitAt slash c = (if IsAbs r then [[]] else []) @ comps r"
      using SplitAt_Join[OF False clean_list_no_slash[OF comps_clean]] ok False by (auto simp: render_def)
    then show ?thesis using clean_comps_id[of True "rev (comps root)" "comps r"] cl by simp
  qed
  then show ?thesis using comps_below[OF R c(2)] by simp
qed

lemma Dir_comps:
  assumes "IsAbs p" "Clean p = p" "comps p \<noteq> []"
  shows "IsAbs (Dir p) \<and> comps (Dir p) = butlast (comps p)"
proof -
  obtain xs x where cs: "comps p = xs @ [x]" using assms(3) by (metis append_butlast_last_id)
  then have n: "name_comp x" "list_all name_comp xs" using comps_abs[OF assms(1)] by auto
  define q where "q = (if xs = [] then [] else slash # Join ''/'' xs)"
  have "p = render True (comps p)" using assms(1,2) by (auto simp: Clean_def split: if_splits)
  then have p: "p = q @ slash # x" by (simp add: render_def cs Join_snoc q_def)
  have "LastIndex p slash = Some (length q)" unfolding p by (rule LastIndex_append) (use n in \<open>simp add: name_comp_def\<close>)
  then have d: "Dir p = Clean (q @ [slash])" by (simp add: Dir_def p)
  have a: "IsAbs (q @ [slash])" using assms(1) p by (cases q) auto
  have "comps (q @ [slash]) = clean_comps True [] (SplitAt slash q)"
    using a by (simp add: comps_def SplitAt_snoc clean_comps_snoc_empty)
  moreover have "comps p = clean_comps True (rev (clean_comps True [] (SplitAt slash q))) [x]"
    using assms(1) n SplitAt_no_sep[of slash x]
    unfolding comps_def p SplitAt_slash by (simp add: clean_comps_append name_comp_def)
  ultimately show ?thesis using n a by (simp add: d name_comp_def)
qed

section \<open>Properties\<close>

text \<open>The path of a call is below the root, and not only by its letters: after cleaning.\<close>

fun call_inside :: "string \<Rightarrow> path_call \<Rightarrow> bool" where
  "call_inside R (PMkdirAll p md) = (IsAbs p \<and> prefix (comps R) (comps p))"
| "call_inside R (POpenFile p md) = (IsAbs p \<and> prefix (comps R) (comps p))"
| "call_inside R _ = True"

text \<open>
  Whatever relative path is given, the fallback makes no directory and opens no file outside the
  root's path, a path that names the root itself excepted: then the file opened is the root and the
  directory made is its parent.  There is no protection against symbolic links on the way.
\<close>

theorem fallback_inside:
  assumes "IsAbs root"
  shows "(comps rel \<noteq> [] \<longrightarrow> (\<exists>u. snd (fb_openFile K root rel perm t) = t @ u \<and> list_all (call_inside root) u))
    \<and> (\<exists>u. snd (fb_ensureDir K root rel md t) = t @ u \<and> list_all (call_inside root) u)"
proof (cases "cleanRelPath rel")
  case (Inl e)
  then show ?thesis by (simp add: fb_openFile_def fb_ensureDir_def)
next
  case (Inr c)
  show ?thesis
  proof (cases "c = []")
    case True
    then show ?thesis using Inr by (simp add: fb_openFile_def fb_ensureDir_def)
  next
    case False
    note J = join_below[OF assms Inr False]
    have "Clean (path_join [root, c]) = path_join [root, c]" using assms False by (cases root) auto
    then have "IsAbs (Dir (path_join [root, c])) \<and> prefix (comps root) (comps (Dir (path_join [root, c])))"
      if "comps rel \<noteq> []" using Dir_comps[of "path_join [root, c]"] J that by (simp add: butlast_append)
    then show ?thesis using Inr False J by (auto simp: fb_openFile_def fb_ensureDir_def Let_def split: option.split)
  qed
qed

end
