(* ===== verification/Sftp_Transfer.thy ===== *)
theory Sftp_Transfer
  imports Safe_Root Session_Manager Protocol
begin

text \<open>
  \<open>internal/transfer/sftp.go\<close>: uploads and downloads over SFTP, and the path checks that keep a
  download inside its destination.  As in \<open>Safe_Root\<close>, the operating system and the SFTP client
  answer each call as a function of the history of calls (record \<open>host\<close>), and a run is the list of
  calls.  A directory walk is the list of entries the walker yields.
\<close>

section \<open>The host\<close>

record node =
  n_isdir :: bool
  n_symlink :: bool
  n_size :: int
  n_mode :: mode
  n_mtime :: int

text \<open>
  \<open>h_copy_up\<close> and \<open>h_copy_down\<close> are the two \<open>io.Copy\<close> calls, \<open>h_text\<close> is \<open>Error()\<close> of an error,
  \<open>h_now\<close> the clock in nanoseconds.
\<close>

record host =
  kern :: kernel
  h_cwd :: "string res"
  h_text :: "go_err \<Rightarrow> string"
  h_now :: "event list \<Rightarrow> int"
  h_stat :: "event list \<Rightarrow> string \<Rightarrow> node res"
  h_lstat :: "event list \<Rightarrow> string \<Rightarrow> node res"
  h_eval :: "event list \<Rightarrow> string \<Rightarrow> string res"
  h_mkdirall :: "event list \<Rightarrow> string \<Rightarrow> mode \<Rightarrow> go_err option"
  h_open :: "event list \<Rightarrow> string \<Rightarrow> go_err option"
  h_fstat :: "event list \<Rightarrow> string \<Rightarrow> node res"
  h_copy_up :: "event list \<Rightarrow> string \<Rightarrow> string \<Rightarrow> int res"
  h_copy_down :: "event list \<Rightarrow> string \<Rightarrow> fd \<Rightarrow> int res"
  h_fchmod :: "event list \<Rightarrow> fd \<Rightarrow> mode \<Rightarrow> go_err option"
  h_futimes :: "event list \<Rightarrow> fd \<Rightarrow> int \<Rightarrow> go_err option"
  r_stat :: "event list \<Rightarrow> string \<Rightarrow> node res"
  r_mkdirall :: "event list \<Rightarrow> string \<Rightarrow> go_err option"
  r_create :: "event list \<Rightarrow> string \<Rightarrow> go_err option"
  r_chmod :: "event list \<Rightarrow> string \<Rightarrow> mode \<Rightarrow> go_err option"
  r_chtimes :: "event list \<Rightarrow> string \<Rightarrow> int \<Rightarrow> go_err option"
  r_open :: "event list \<Rightarrow> string \<Rightarrow> go_err option"
  r_readdir :: "event list \<Rightarrow> string \<Rightarrow> string list res"
  r_mkdir :: "event list \<Rightarrow> string \<Rightarrow> go_err option"
  r_remove :: "event list \<Rightarrow> string \<Rightarrow> go_err option"
  r_walk :: "event list \<Rightarrow> string \<Rightarrow> (go_err option \<times> string \<times> node) list"
  h_walk :: "event list \<Rightarrow> string \<Rightarrow> (string \<times> node \<times> go_err option) list"

section \<open>Path checks\<close>

definition checkPathTraversal :: "string \<Rightarrow> go_err option" where
  "checkPathTraversal relPath =
     (if \<not> IsLocal relPath then Some (Errorf ''path traversal detected: %s escapes destination'' [AStr relPath])
      else None)"

definition pathEscapesRoot :: "string \<Rightarrow> string \<Rightarrow> bool" where
  "pathEscapesRoot root target =
     (case Rel root target of Inl _ \<Rightarrow> True | Inr rel \<Rightarrow> rel = ''..'' \<or> HasPrefix rel ''../'')"

function (sequential) resolveExistingParent :: "host \<Rightarrow> string \<Rightarrow> event list \<Rightarrow> string res \<times> event list" where
  "resolveExistingParent H current t =
     (let t1 = t @ [ELocal (LEvalSymlinks current)] in
      case h_eval H t current of
        Inr resolved \<Rightarrow> (Inr resolved, t1)
      | Inl err \<Rightarrow>
          if \<not> err_is ENOENT err then (Inl err, t1)
          else if Dir current = current then (Inl err, t1)
          else resolveExistingParent H (Dir current) t1)"
  by pat_completeness auto

termination
  by (relation "measure (\<lambda>(H, p, t). up_measure p)") (auto intro: Dir_measure)

declare resolveExistingParent.simps [simp del]

definition ensureSafeLocalDir :: "host \<Rightarrow> string \<Rightarrow> mode \<Rightarrow> event list \<Rightarrow> go_err option \<times> event list" where
  "ensureSafeLocalDir H path md t =
     (let t1 = t @ [ELocal (LLstat path)] in
      case h_lstat H t path of
        Inr info \<Rightarrow>
          (if n_symlink info then Some (Errorf ''destination path is a symlink: %s'' [AStr path])
           else if \<not> n_isdir info then Some (Errorf ''destination path is not a directory: %s'' [AStr path])
           else None, t1)
      | Inl err \<Rightarrow>
          if \<not> err_is ENOENT err
          then (Some (Errorf ''failed to inspect destination path %s: %w'' [AStr path, AErr err]), t1)
          else
            let t2 = t1 @ [ELocal (LMkdirAll path md)] in
            (case h_mkdirall H t1 path md of
               Some e \<Rightarrow> (Some (Errorf ''failed to create destination directory %s: %w'' [AStr path, AErr e]), t2)
             | None \<Rightarrow>
                 let t3 = t2 @ [ELocal (LLstat path)] in
                 (case h_lstat H t2 path of
                    Inl e \<Rightarrow> (Some (Errorf ''failed to inspect destination path %s: %w'' [AStr path, AErr e]), t3)
                  | Inr info \<Rightarrow>
                      (if n_symlink info then Some (Errorf ''destination path is a symlink: %s'' [AStr path])
                       else if \<not> n_isdir info then Some (Errorf ''destination path is not a directory: %s'' [AStr path])
                       else None, t3))))"

definition prepareDownloadRoot :: "host \<Rightarrow> string \<Rightarrow> event list \<Rightarrow> (string \<times> string) res \<times> event list" where
  "prepareDownloadRoot H localPath t =
     (case Abs_path (h_cwd H) localPath of
        Inl e \<Rightarrow> (Inl (Errorf ''failed to resolve destination path: %w'' [AErr e]), t)
      | Inr rootAbs \<Rightarrow>
          (case ensureSafeLocalDir H rootAbs 0x1ED t of
             (Some e, t1) \<Rightarrow> (Inl e, t1)
           | (None, t1) \<Rightarrow>
               let t2 = t1 @ [ELocal (LEvalSymlinks rootAbs)] in
               (case h_eval H t1 rootAbs of
                  Inl e \<Rightarrow> (Inl (Errorf ''failed to resolve destination path: %w'' [AErr e]), t2)
                | Inr rootResolved \<Rightarrow> (Inr (rootAbs, rootResolved), t2))))"

definition prepareSingleFileDownloadTarget ::
  "host \<Rightarrow> string \<Rightarrow> event list \<Rightarrow> (string \<times> string \<times> string) res \<times> event list" where
  "prepareSingleFileDownloadTarget H localPath t =
     (case Abs_path (h_cwd H) localPath of
        Inl e \<Rightarrow> (Inl (Errorf ''failed to resolve destination path: %w'' [AErr e]), t)
      | Inr targetAbs \<Rightarrow>
          let rootAbs = Dir targetAbs in
          (case ensureSafeLocalDir H rootAbs 0x1ED t of
             (Some e, t1) \<Rightarrow> (Inl e, t1)
           | (None, t1) \<Rightarrow>
               let t2 = t1 @ [ELocal (LEvalSymlinks rootAbs)] in
               (case h_eval H t1 rootAbs of
                  Inl e \<Rightarrow> (Inl (Errorf ''failed to resolve destination path: %w'' [AErr e]), t2)
                | Inr rootResolved \<Rightarrow> (Inr (targetAbs, rootAbs, rootResolved), t2))))"

definition safeLocalDownloadPath :: "host \<Rightarrow> string \<Rightarrow> string \<Rightarrow> string \<Rightarrow> event list \<Rightarrow> string res \<times> event list" where
  "safeLocalDownloadPath H rootAbs rootResolved targetPath t =
     (case Abs_path (h_cwd H) targetPath of
        Inl e \<Rightarrow> (Inl (Errorf ''failed to resolve destination path: %w'' [AErr e]), t)
      | Inr targetAbs \<Rightarrow>
          if pathEscapesRoot rootAbs targetAbs
          then (Inl (Errorf ''path traversal detected: %s escapes destination'' [AStr targetAbs]), t)
          else
            (case resolveExistingParent H (Dir targetAbs) t of
               (Inl e, t1) \<Rightarrow> (Inl (Errorf ''failed to resolve destination parent: %w'' [AErr e]), t1)
             | (Inr resolvedParent, t1) \<Rightarrow>
                 if pathEscapesRoot rootResolved resolvedParent
                 then (Inl (Errorf ''symlink traversal detected: %s escapes destination'' [AStr targetAbs]), t1)
                 else
                   let t2 = t1 @ [ELocal (LLstat targetAbs)] in
                   (case h_lstat H t1 targetAbs of
                      Inr info \<Rightarrow>
                        if n_symlink info
                        then (Inl (Errorf ''symlink traversal detected: %s is a symlink'' [AStr targetAbs]), t2)
                        else (Inr targetAbs, t2)
                    | Inl e \<Rightarrow>
                        if \<not> err_is ENOENT e
                        then (Inl (Errorf ''failed to inspect destination path: %w'' [AErr e]), t2)
                        else (Inr targetAbs, t2))))"


definition ensureLocalParentDir :: "host \<Rightarrow> string \<Rightarrow> event list \<Rightarrow> go_err option \<times> event list" where
  "ensureLocalParentDir H localPath t =
     (let parent = Dir localPath in
      if parent = ''.'' then (None, t)
      else (case h_mkdirall H t parent 0x1ED of
              Some e \<Rightarrow> (Some (Errorf ''failed to create local parent directory %s: %w'' [AStr parent, AErr e]),
                         t @ [ELocal (LMkdirAll parent 0x1ED)])
            | None \<Rightarrow> (None, t @ [ELocal (LMkdirAll parent 0x1ED)])))"

section \<open>Upload\<close>

definition resolveUploadFileTarget :: "host \<Rightarrow> string \<Rightarrow> string \<Rightarrow> event list \<Rightarrow> string res \<times> event list" where
  "resolveUploadFileTarget H localPath remotePath t =
     (let base = Base localPath in
      if remotePath = '''' \<or> remotePath = ''.'' then (Inr base, t)
      else if HasSuffix remotePath ''/'' then
        let rp = TrimSuffix remotePath ''/''; t1 = t @ [ERemote (RStat rp)] in
        (case r_stat H t rp of
           Inr info \<Rightarrow> if \<not> n_isdir info
                       then (Inl (Errorf ''remote destination %s is not a directory'' [AStr rp]), t1)
                       else (Inr (rp @ ''/'' @ base), t1)
         | Inl _ \<Rightarrow> (Inl (Errorf ''remote destination %s is not a directory'' [AStr rp]), t1))
      else
        let t1 = t @ [ERemote (RStat remotePath)] in
        (case r_stat H t remotePath of
           Inr info \<Rightarrow> if n_isdir info then (Inr (remotePath @ ''/'' @ base), t1) else (Inr remotePath, t1)
         | Inl _ \<Rightarrow> (Inr remotePath, t1)))"

text \<open>
  \<open>uploadFile\<close>, in three parts along its deferred closes: with the remote file open, with the local
  file open, and as a whole.  The first component of the result is the number of bytes reported.
\<close>

definition upload_copy :: "host \<Rightarrow> string \<Rightarrow> string \<Rightarrow> mode \<Rightarrow> event list \<Rightarrow> (int \<times> go_err option) \<times> event list" where
  "upload_copy H localPath remotePath md t =
     (let t1 = t @ [ERemote (RCopyTo remotePath)] in
      case h_copy_up H t localPath remotePath of
        Inl e \<Rightarrow> ((0, Some (Errorf ''failed to upload file: %w'' [AErr e])), t1)
      | Inr written \<Rightarrow>
          let t2 = t1 @ [ERemote (RChmod remotePath md)] in
          (case r_chmod H t1 remotePath md of
             Some e \<Rightarrow> ((0, Some (Errorf ''failed to preserve remote mode: %w'' [AErr e])), t2)
           | None \<Rightarrow> ((written, None), t2)))"

definition upload_open :: "host \<Rightarrow> string \<Rightarrow> string \<Rightarrow> event list \<Rightarrow> (int \<times> go_err option) \<times> event list" where
  "upload_open H localPath remotePath t =
     (case h_fstat H t localPath of
        Inl e \<Rightarrow> ((0, Some (Errorf ''failed to stat local file: %w'' [AErr e])), t)
      | Inr localInfo \<Rightarrow>
          let parent = Dir remotePath; t1 = t @ [ERemote (RMkdirAll parent)] in
          (case r_mkdirall H t parent of
             Some e \<Rightarrow> ((0, Some (Errorf ''failed to create remote parent directory: %w'' [AErr e])), t1)
           | None \<Rightarrow>
               let t2 = t1 @ [ERemote (RCreate remotePath)] in
               (case r_create H t1 remotePath of
                  Some e \<Rightarrow> ((0, Some (Errorf ''failed to create remote file: %w'' [AErr e])), t2)
                | None \<Rightarrow>
                    let (r, t3) = upload_copy H localPath remotePath (n_mode localInfo) t2
                    in (r, t3 @ [ERemote (RCloseFile remotePath)]))))"

definition uploadFile :: "host \<Rightarrow> string \<Rightarrow> string \<Rightarrow> event list \<Rightarrow> (int \<times> go_err option) \<times> event list" where
  "uploadFile H localPath remotePath t =
     (let t1 = t @ [ELocal (LOpen localPath)] in
      case h_open H t localPath of
        Some e \<Rightarrow> ((0, Some (Errorf ''failed to open local file: %w'' [AErr e])), t1)
      | None \<Rightarrow>
          let (r, t2) = upload_open H localPath remotePath t1
          in (r, t2 @ [ELocal (LCloseFile localPath)]))"

definition same_file :: "node res \<Rightarrow> node \<Rightarrow> bool" where
  "same_file there here =
     (case there of Inl _ \<Rightarrow> False
      | Inr i \<Rightarrow> n_size i = n_size here \<and> unix_seconds (n_mtime i) = unix_seconds (n_mtime here))"

text \<open>The function passed to \<open>filepath.Walk\<close>: the error it returns and the bytes written so far.\<close>

definition upload_visit ::
  "host \<Rightarrow> string \<Rightarrow> string \<Rightarrow> string \<times> node \<times> go_err option \<Rightarrow> int \<Rightarrow> event list \<Rightarrow> (int \<times> go_err option) \<times> event list" where
  "upload_visit H localPath remotePath entry totalWritten t =
     (case entry of (path, info, err) \<Rightarrow>
        (case err of Some e \<Rightarrow> ((totalWritten, Some e), t)
         | None \<Rightarrow>
        (case Rel localPath path of Inl e \<Rightarrow> ((totalWritten, Some e), t)
         | Inr relPath \<Rightarrow>
             let targetPath = path_join [remotePath, relPath] in
             if n_isdir info then
               let t1 = t @ [ERemote (RMkdirAll targetPath)] in
               (case r_mkdirall H t targetPath of
                  Some e \<Rightarrow> ((totalWritten, Some (Errorf ''failed to create remote directory %s: %w'' [AStr targetPath, AErr e])), t1)
                | None \<Rightarrow> ((totalWritten, None), t1))
             else
               let t1 = t @ [ERemote (RStat targetPath)] in
               if same_file (r_stat H t targetPath) info then ((totalWritten, None), t1)
               else
                 (case uploadFile H path targetPath t1 of
                    ((written, Some e), t2) \<Rightarrow> ((totalWritten, Some e), t2)
                  | ((written, None), t2) \<Rightarrow>
                      let t3 = t2 @ [ERemote (RChtimes targetPath (n_mtime info))] in
                      (case r_chtimes H t2 targetPath (n_mtime info) of
                         Some e \<Rightarrow> ((totalWritten + written,
                                     Some (Errorf ''failed to preserve remote timestamps for %s: %w'' [AStr targetPath, AErr e])), t3)
                       | None \<Rightarrow> ((totalWritten + written, None), t3))))))"

text \<open>\<open>filepath.Walk\<close> stops at the first error its function returns.\<close>

fun upload_walk ::
  "host \<Rightarrow> string \<Rightarrow> string \<Rightarrow> (string \<times> node \<times> go_err option) list \<Rightarrow> int \<Rightarrow> event list \<Rightarrow> (int \<times> go_err option) \<times> event list" where
  "upload_walk H localPath remotePath [] totalWritten t = ((totalWritten, None), t)"
| "upload_walk H localPath remotePath (e # es) totalWritten t =
     (case upload_visit H localPath remotePath e totalWritten t of
        ((total1, Some err), t1) \<Rightarrow> ((total1, Some err), t1)
      | ((total1, None), t1) \<Rightarrow> upload_walk H localPath remotePath es total1 t1)"

definition sftp_Upload :: "host \<Rightarrow> string \<Rightarrow> string \<Rightarrow> event list \<Rightarrow> (int \<times> go_err option) \<times> event list" where
  "sftp_Upload H localPath remotePath t =
     (let t1 = t @ [ELocal (LStat localPath)] in
      case h_stat H t localPath of
        Inl e \<Rightarrow> ((0, Some (Errorf ''failed to stat local path: %w'' [AErr e])), t1)
      | Inr localInfo \<Rightarrow>
          if \<not> n_isdir localInfo
          then (case resolveUploadFileTarget H localPath remotePath t1 of
                  (Inl e, t2) \<Rightarrow> ((0, Some e), t2)
                | (Inr target, t2) \<Rightarrow> uploadFile H localPath target t2)
          else upload_walk H localPath remotePath (h_walk H t1 localPath) 0 t1)"

section \<open>Download\<close>

definition resolveDownloadFileTarget :: "host \<Rightarrow> string \<Rightarrow> string \<Rightarrow> event list \<Rightarrow> string \<times> event list" where
  "resolveDownloadFileTarget H localPath remotePath t =
     (let base = Base (TrimSuffix remotePath ''/'') in
      if HasSuffix localPath ''/'' then (path_join [localPath, base], t)
      else
        let t1 = t @ [ELocal (LStat localPath)] in
        (case h_stat H t localPath of
           Inr info \<Rightarrow> if n_isdir info then (path_join [localPath, base], t1) else (localPath, t1)
         | Inl _ \<Rightarrow> (localPath, t1)))"

text \<open>\<open>downloadFile\<close>: with the local file open, and as a whole.\<close>

definition download_copy :: "host \<Rightarrow> string \<Rightarrow> fd \<Rightarrow> int \<Rightarrow> event list \<Rightarrow> (int \<times> go_err option) \<times> event list" where
  "download_copy H remotePath f modTime t =
     (let t1 = t @ [EWrite f] in
      case h_copy_down H t remotePath f of
        Inl e \<Rightarrow> ((0, Some (Errorf ''failed to download file: %w'' [AErr e])), t1)
      | Inr written \<Rightarrow>
          let t2 = t1 @ [ERemote (RStat remotePath)];
              (chmodErr, t3) = (case r_stat H t1 remotePath of
                                  Inr info \<Rightarrow> (h_fchmod H t2 f (n_mode info), t2 @ [EFchmod f (n_mode info)])
                                | Inl _ \<Rightarrow> (None, t2)) in
          (case chmodErr of
             Some e \<Rightarrow> ((0, Some (Errorf ''failed to preserve local mode: %w'' [AErr e])), t3)
           | None \<Rightarrow>
               let t4 = t3 @ [EFutimes f modTime] in
               (case h_futimes H t3 f modTime of
                  Some e \<Rightarrow> ((0, Some (Errorf ''failed to preserve local timestamps: %w'' [AErr e])), t4)
                | None \<Rightarrow> ((written, None), t4))))"

definition downloadFile :: "host \<Rightarrow> string \<Rightarrow> fd \<Rightarrow> string \<Rightarrow> int \<Rightarrow> event list \<Rightarrow> (int \<times> go_err option) \<times> event list" where
  "downloadFile H remotePath root relPath modTime t =
     (let t1 = t @ [ERemote (ROpen remotePath)] in
      case r_open H t remotePath of
        Some e \<Rightarrow> ((0, Some (Errorf ''failed to open remote file: %w'' [AErr e])), t1)
      | None \<Rightarrow>
          (case openFile (kern H) root relPath 0x180 t1 of
             (Inl e, t2) \<Rightarrow> ((0, Some (Errorf ''failed to create local file: %w'' [AErr e])),
                             t2 @ [ERemote (RCloseFile remotePath)])
           | (Inr f, t2) \<Rightarrow>
               let (r, t3) = download_copy H remotePath f modTime t2
               in (r, t3 @ [EClose f, ERemote (RCloseFile remotePath)])))"

text \<open>One entry of the remote walk: \<open>Inl\<close> ends the download with an error, \<open>Inr\<close> goes on.\<close>

text \<open>One entry of the remote tree whose local path \<open>safeTarget\<close> has passed the checks.\<close>

definition download_entry ::
  "host \<Rightarrow> fd \<Rightarrow> string \<Rightarrow> string \<Rightarrow> string \<Rightarrow> node \<Rightarrow> int \<Rightarrow> event list \<Rightarrow> (int \<times> go_err option) \<times> event list" where
  "download_entry H root path relPath safeTarget info totalWritten t1 =
     (if n_isdir info then
        (case ensureDir (kern H) root relPath (n_mode info) t1 of
           (Some e, t2) \<Rightarrow> ((totalWritten, Some (Errorf ''failed to create local directory %s: %w'' [AStr safeTarget, AErr e])), t2)
         | (None, t2) \<Rightarrow>
             (case ensureSafeLocalDir H safeTarget (n_mode info) t2 of
                (Some e, t3) \<Rightarrow> ((totalWritten, Some (Errorf ''failed to create local directory %s: %w'' [AStr safeTarget, AErr e])), t3)
              | (None, t3) \<Rightarrow> ((totalWritten, None), t3)))
      else
        let t2 = t1 @ [ELocal (LStat safeTarget)] in
        if same_file (h_stat H t1 safeTarget) info then ((totalWritten, None), t2)
        else
          (case downloadFile H path root relPath (n_mtime info) t2 of
             ((written, Some e), t3) \<Rightarrow> ((totalWritten, Some e), t3)
           | ((written, None), t3) \<Rightarrow> ((totalWritten + written, None), t3)))"

definition download_step ::
  "host \<Rightarrow> fd \<Rightarrow> string \<Rightarrow> string \<Rightarrow> string \<Rightarrow> go_err option \<times> string \<times> node \<Rightarrow> int \<Rightarrow> event list \<Rightarrow> (int \<times> go_err option) \<times> event list" where
  "download_step H root rootAbs rootResolved remotePath entry totalWritten t =
     (case entry of (err, path, info) \<Rightarrow>
        (case err of Some e \<Rightarrow> ((totalWritten, Some e), t)
         | None \<Rightarrow>
        (case Rel remotePath path of Inl e \<Rightarrow> ((totalWritten, Some e), t)
         | Inr relPath \<Rightarrow>
        (case checkPathTraversal relPath of Some e \<Rightarrow> ((totalWritten, Some e), t)
         | None \<Rightarrow>
             if relPath = ''.'' then ((totalWritten, None), t)
             else
               (case safeLocalDownloadPath H rootAbs rootResolved (path_join [rootAbs, relPath]) t of
                  (Inl e, t1) \<Rightarrow> ((totalWritten, Some e), t1)
                | (Inr safeTarget, t1) \<Rightarrow> download_entry H root path relPath safeTarget info totalWritten t1)))))"

fun download_walk ::
  "host \<Rightarrow> fd \<Rightarrow> string \<Rightarrow> string \<Rightarrow> string \<Rightarrow> (go_err option \<times> string \<times> node) list \<Rightarrow> int \<Rightarrow> event list \<Rightarrow> (int \<times> go_err option) \<times> event list" where
  "download_walk H root rootAbs rootResolved remotePath [] totalWritten t = ((totalWritten, None), t)"
| "download_walk H root rootAbs rootResolved remotePath (e # es) totalWritten t =
     (case download_step H root rootAbs rootResolved remotePath e totalWritten t of
        ((total1, Some err), t1) \<Rightarrow> ((total1, Some err), t1)
      | ((total1, None), t1) \<Rightarrow> download_walk H root rootAbs rootResolved remotePath es total1 t1)"

text \<open>\<open>Download\<close>, for a single file and for a directory.\<close>

definition download_single :: "host \<Rightarrow> string \<Rightarrow> string \<Rightarrow> node \<Rightarrow> event list \<Rightarrow> (int \<times> go_err option) \<times> event list" where
  "download_single H remotePath localPath0 remoteInfo t =
     (case resolveDownloadFileTarget H localPath0 remotePath t of
        (localPath, t1) \<Rightarrow>
     (case prepareSingleFileDownloadTarget H localPath t1 of
        (Inl e, t2) \<Rightarrow> ((0, Some e), t2)
      | (Inr (targetPath, rootAbs, rootResolved), t2) \<Rightarrow>
     (case safeLocalDownloadPath H rootAbs rootResolved targetPath t2 of
        (Inl e, t3) \<Rightarrow> ((0, Some e), t3)
      | (Inr safeTarget, t3) \<Rightarrow>
     (case openSafeRoot (kern H) rootAbs t3 of
        (Inl e, t4) \<Rightarrow> ((0, Some e), t4)
      | (Inr root, t4) \<Rightarrow>
          let (r, t5) = downloadFile H remotePath root (Base safeTarget) (n_mtime remoteInfo) t4
          in (r, safeRoot_Close root t5)))))"

definition download_tree :: "host \<Rightarrow> string \<Rightarrow> string \<Rightarrow> event list \<Rightarrow> (int \<times> go_err option) \<times> event list" where
  "download_tree H remotePath localPath t =
     (case prepareDownloadRoot H localPath t of
        (Inl e, t1) \<Rightarrow> ((0, Some e), t1)
      | (Inr (rootAbs, rootResolved), t1) \<Rightarrow>
     (case openSafeRoot (kern H) rootAbs t1 of
        (Inl e, t2) \<Rightarrow> ((0, Some e), t2)
      | (Inr root, t2) \<Rightarrow>
          let (r, t3) = download_walk H root rootAbs rootResolved remotePath (r_walk H t2 remotePath) 0 t2
          in (r, safeRoot_Close root t3)))"

definition sftp_Download :: "host \<Rightarrow> string \<Rightarrow> string \<Rightarrow> event list \<Rightarrow> (int \<times> go_err option) \<times> event list" where
  "sftp_Download H remotePath localPath t =
     (let t1 = t @ [ERemote (RStat remotePath)] in
      case r_stat H t remotePath of
        Inl e \<Rightarrow> ((0, Some (Errorf ''failed to stat remote path: %w'' [AErr e])), t1)
      | Inr remoteInfo \<Rightarrow>
          if \<not> n_isdir remoteInfo then download_single H remotePath localPath remoteInfo t1
          else download_tree H remotePath localPath t1)"

definition sftp_List :: "host \<Rightarrow> string \<Rightarrow> event list \<Rightarrow> string list res \<times> event list" where
  "sftp_List H path t =
     (let t1 = t @ [ERemote (RReadDir path)] in
      case r_readdir H t path of
        Inl e \<Rightarrow> (Inl (Errorf ''failed to read directory: %w'' [AErr e]), t1)
      | Inr names \<Rightarrow> (Inr names, t1))"

definition sftp_Mkdir :: "host \<Rightarrow> string \<Rightarrow> event list \<Rightarrow> go_err option \<times> event list" where
  "sftp_Mkdir H path t = (r_mkdir H t path, t @ [ERemote (RMkdir path)])"

definition sftp_Remove :: "host \<Rightarrow> string \<Rightarrow> event list \<Rightarrow> go_err option \<times> event list" where
  "sftp_Remove H path t = (r_remove H t path, t @ [ERemote (RRemove path)])"

section \<open>The service\<close>

text \<open>
  \<open>await\<close> is \<open>AwaitClient\<close> with its timeout in milliseconds, \<open>newClient\<close> is \<open>sftp.NewClient\<close> on an
  SSH client, which gives the host to work on.
\<close>

record sftp_env =
  tx_await :: "ref \<Rightarrow> nat \<Rightarrow> cid res"
  tx_newClient :: "cid \<Rightarrow> host res"

definition transfer_ready_timeout :: nat where "transfer_ready_timeout = 20000"

definition getSFTPSession :: "sftp_env \<Rightarrow> manager \<Rightarrow> string \<Rightarrow> host res" where
  "getSFTPSession X m sessionName =
     (case Get sessionName m of
        Inl e \<Rightarrow> Inl e
      | Inr r \<Rightarrow>
          if IsLocalSession (objs m r) then Inl (Errorf ''SFTP not available for local sessions'' [])
          else (case tx_await X r transfer_ready_timeout of
                  Inl e \<Rightarrow> Inl e
                | Inr c \<Rightarrow> (case tx_newClient X c of
                              Inl e \<Rightarrow> Inl (Errorf ''failed to create SFTP client: %w'' [AErr e])
                            | Inr H \<Rightarrow> Inr H)))"

definition sftp_Close :: "event list \<Rightarrow> event list" where
  "sftp_Close t = t @ [ERemote RCloseClient]"

definition transfer_result :: "host \<Rightarrow> event list \<Rightarrow> (int \<times> go_err option) \<times> event list \<Rightarrow> TransferResult" where
  "transfer_result H t run =
     (case run of ((bytes, err), t1) \<Rightarrow>
        let duration = (h_now H t1 - h_now H t) div 1000000 in
        (case err of
           Some e \<Rightarrow> \<lparr>tr_Success = False, tr_Message = h_text H e, tr_Bytes = bytes, tr_Duration = duration\<rparr>
         | None \<Rightarrow> \<lparr>tr_Success = True,
                    tr_Message = ''Transferred '' @ Itoa bytes @ '' bytes in '' @ Itoa duration @ ''ms'',
                    tr_Bytes = bytes, tr_Duration = duration\<rparr>))"

definition Upload :: "sftp_env \<Rightarrow> manager \<Rightarrow> string \<Rightarrow> string \<Rightarrow> string \<Rightarrow> event list \<Rightarrow> TransferResult res \<times> event list" where
  "Upload X m sessionName localPath remotePath t =
     (case getSFTPSession X m sessionName of
        Inl e \<Rightarrow> (Inl e, t)
      | Inr H \<Rightarrow> let run = sftp_Upload H localPath remotePath t
                in (Inr (transfer_result H t run), sftp_Close (snd run)))"

definition Download :: "sftp_env \<Rightarrow> manager \<Rightarrow> string \<Rightarrow> string \<Rightarrow> string \<Rightarrow> event list \<Rightarrow> TransferResult res \<times> event list" where
  "Download X m sessionName remotePath localPath t =
     (case getSFTPSession X m sessionName of
        Inl e \<Rightarrow> (Inl e, t)
      | Inr H \<Rightarrow> let run = sftp_Download H remotePath localPath t
                in (Inr (transfer_result H t run), sftp_Close (snd run)))"

definition ListDir :: "sftp_env \<Rightarrow> manager \<Rightarrow> string \<Rightarrow> string \<Rightarrow> event list \<Rightarrow> string list res \<times> event list" where
  "ListDir X m sessionName path t =
     (case getSFTPSession X m sessionName of
        Inl e \<Rightarrow> (Inl e, t)
      | Inr H \<Rightarrow> let (r, t1) = sftp_List H path t in (r, sftp_Close t1))"

definition Mkdir :: "sftp_env \<Rightarrow> manager \<Rightarrow> string \<Rightarrow> string \<Rightarrow> event list \<Rightarrow> go_err option \<times> event list" where
  "Mkdir X m sessionName path t =
     (case getSFTPSession X m sessionName of
        Inl e \<Rightarrow> (Some e, t)
      | Inr H \<Rightarrow> let (r, t1) = sftp_Mkdir H path t in (r, sftp_Close t1))"

definition transfer_Remove :: "sftp_env \<Rightarrow> manager \<Rightarrow> string \<Rightarrow> string \<Rightarrow> event list \<Rightarrow> go_err option \<times> event list" where
  "transfer_Remove X m sessionName path t =
     (case getSFTPSession X m sessionName of
        Inl e \<Rightarrow> (Some e, t)
      | Inr H \<Rightarrow> let (r, t1) = sftp_Remove H path t in (r, sftp_Close t1))"


section \<open>Specification: what a download may touch\<close>

text \<open>\<open>inside root p\<close>: the absolute path \<open>p\<close> is lexically at or below \<open>root\<close>.\<close>

definition inside :: "string \<Rightarrow> string \<Rightarrow> bool" where
  "inside root p \<longleftrightarrow> IsAbs p \<and> prefix (comps root) (comps p)"

text \<open>The calls by path that create something on the local side, or open the root, stay inside.\<close>

fun path_ok :: "string \<Rightarrow> event \<Rightarrow> bool" where
  "path_ok R (ELocal (LMkdirAll p md)) = inside R p"
| "path_ok R (EOpenRoot p r) = (p = R)"
| "path_ok R _ = True"

fun quiet :: "event \<Rightarrow> bool" where
  "quiet (ELocal c) = True"
| "quiet (ERemote c) = True"
| "quiet _ = False"

text \<open>
  \<open>runs R D D' t t'\<close>: from \<open>t\<close> the code made more calls to reach \<open>t'\<close>, all inside the root \<open>R\<close>; the
  descriptors below the root were \<open>D\<close> and are now \<open>D'\<close>.  \<open>qrun R t t'\<close>: it made calls by path and
  SFTP calls only.
\<close>

definition runs :: "string \<Rightarrow> fd set \<Rightarrow> fd set \<Rightarrow> event list \<Rightarrow> event list \<Rightarrow> bool" where
  "runs R D D' t t' \<longleftrightarrow> (\<exists>u. t' = t @ u \<and> list_all (path_ok R) u \<and> confined D u \<and> dirs_after D u = D')"

definition qrun :: "string \<Rightarrow> event list \<Rightarrow> event list \<Rightarrow> bool" where
  "qrun R t t' \<longleftrightarrow> (\<exists>u. t' = t @ u \<and> list_all (path_ok R) u \<and> list_all quiet u)"

section \<open>Lemmas: runs\<close>

lemma quiet_effect:
  "list_all quiet u \<Longrightarrow> confined D u \<and> dirs_after D u = D \<and> open_after F u = F"
proof (induction u arbitrary: D F)
  case (Cons e u)
  then show ?case by (cases e) auto
qed simp

lemma qrun_refl [simp]: "qrun R t t"
  by (auto simp: qrun_def)

lemma qrun_trans: "qrun R t t1 \<Longrightarrow> qrun R t1 t2 \<Longrightarrow> qrun R t t2"
  by (auto simp: qrun_def)

lemma qrun_same [simp]: "qrun R t (t @ u) \<longleftrightarrow> list_all (path_ok R) u \<and> list_all quiet u"
  by (auto simp: qrun_def)

lemma qrun_app [intro]: "qrun R t t1 \<Longrightarrow> list_all (path_ok R) u \<Longrightarrow> list_all quiet u \<Longrightarrow> qrun R t (t1 @ u)"
  by (auto simp: qrun_def)

lemma qrun_open: "qrun R t t' \<Longrightarrow> open_after F t' = open_after F t"
  using quiet_effect by (auto simp: qrun_def)

lemma qrun_runs: "qrun R t t' \<Longrightarrow> runs R D D t t'"
  using quiet_effect by (fastforce simp: qrun_def runs_def)

lemma runs_refl [simp]: "runs R D D t t"
  by (auto simp: runs_def)

lemma runs_trans: "runs R D1 D2 t t1 \<Longrightarrow> runs R D2 D3 t1 t2 \<Longrightarrow> runs R D1 D3 t t2"
  unfolding runs_def by (elim exE conjE) (rule exI, auto)

lemma runs_qrun: "runs R D D' t t1 \<Longrightarrow> qrun R t1 t2 \<Longrightarrow> runs R D D' t t2"
  using runs_trans qrun_runs by blast

lemma fd_event_path_ok: "list_all fd_event u \<Longrightarrow> list_all (path_ok R) u"
  unfolding list_all_iff by (metis fd_event.simps(1,2,3) path_ok.elims(3))

lemma runs_fd:
  "t' = t @ u \<Longrightarrow> list_all fd_event u \<Longrightarrow> confined D u \<Longrightarrow> dirs_after D u = D' \<Longrightarrow> runs R D D' t t'"
  using fd_event_path_ok by (auto simp: runs_def)

section \<open>Lemmas: path checks\<close>

lemma pathEscapesRoot_iff:
  assumes "IsAbs root" "IsAbs target"
  shows "pathEscapesRoot root target \<longleftrightarrow> \<not> prefix (comps root) (comps target)"
proof -
  obtain bs ts where S: "strip_common (comps root) (comps target) = (bs, ts)" by fastforce
  obtain p where p: "comps root = p @ bs" "comps target = p @ ts" using strip_common_spec[OF S] by blast
  have ts: "list_all name_comp ts" using comps_abs[OF assms(2)] p(2) by simp
  have "bs = [] \<longleftrightarrow> prefix (comps root) (comps target)" using strip_common_prefix[of "comps root" "comps target"] S by simp
  moreover have "\<not> prefix (comps root) (comps target) \<Longrightarrow> comps root \<noteq> comps target" by auto
  moreover have "(let r = Join ''/'' (replicate (length bs) ''..'' @ ts) in r = ''..'' \<or> HasPrefix r ''../'') \<longleftrightarrow> bs \<noteq> []"
    using Join_dotdot[OF ts, of "length bs"] by simp
  ultimately show ?thesis
    using S by (auto simp: pathEscapesRoot_def Rel_abs[OF assms] Let_def HasPrefix_def)
qed

lemma Abs_path_abs:
  assumes "Abs_path cwd p = Inr q" "\<And>wd. cwd = Inr wd \<Longrightarrow> IsAbs wd"
  shows "IsAbs q \<and> Clean q = q"
proof (cases "IsAbs p")
  case True
  then show ?thesis using assms by (auto simp: Abs_path_def)
next
  case False
  then obtain wd where wd: "cwd = Inr wd" "q = path_join [wd, p]" using assms(1) by (auto simp: Abs_path_def split: sum.splits)
  then have "IsAbs wd" using assms(2) by blast
  then obtain w where w: "wd = slash # w" by (cases wd) auto
  have "IsAbs (Join ''/'' [wd, p])" by (simp add: w)
  then show ?thesis using wd w by auto
qed

lemma resolveExistingParent_qrun: "resolveExistingParent H p t = (r, t') \<Longrightarrow> qrun R t t'"
proof (induction H p t arbitrary: r t' rule: resolveExistingParent.induct)
  case (1 H p t)
  let ?t1 = "t @ [ELocal (LEvalSymlinks p)]"
  have one: "qrun R t ?t1" by simp
  have eq: "resolveExistingParent H p t = (case h_eval H t p of
        Inr resolved \<Rightarrow> (Inr resolved, ?t1)
      | Inl err \<Rightarrow>
          if \<not> err_is ENOENT err then (Inl err, ?t1)
          else if Dir p = p then (Inl err, ?t1)
          else resolveExistingParent H (Dir p) ?t1)"
    by (subst resolveExistingParent.simps) (simp add: Let_def)
  show ?case
  proof (cases "h_eval H t p")
    case (Inr q)
    then show ?thesis using 1(2) one by (auto simp: eq)
  next
    case (Inl e)
    then show ?thesis using 1(2) one 1(1)[OF refl Inl] qrun_trans[OF one]
      by (auto simp: eq split: if_splits)
  qed
qed

lemma ensureSafeLocalDir_qrun:
  "ensureSafeLocalDir H p md t = (r, t') \<Longrightarrow> inside R p \<Longrightarrow> qrun R t t'"
  by (auto simp: ensureSafeLocalDir_def Let_def split: sum.splits if_splits option.splits)

lemma safeLocalDownloadPath_run:
  assumes "safeLocalDownloadPath H R rR p t = (r, t')" "IsAbs R" "\<And>wd. h_cwd H = Inr wd \<Longrightarrow> IsAbs wd"
  shows "qrun R t t' \<and> (\<forall>q. r = Inr q \<longrightarrow> Abs_path (h_cwd H) p = Inr q \<and> inside R q)"
proof (cases "Abs_path (h_cwd H) p")
  case (Inl e)
  then show ?thesis using assms(1) by (auto simp: safeLocalDownloadPath_def)
next
  case (Inr q)
  note q = Abs_path_abs[OF Inr assms(3)]
  show ?thesis
  proof (cases "pathEscapesRoot R q")
    case True
    then show ?thesis using assms(1) Inr by (auto simp: safeLocalDownloadPath_def)
  next
    case False
    then have ins: "inside R q" using pathEscapesRoot_iff[OF assms(2)] q by (simp add: inside_def)
    obtain r1 t1 where E: "resolveExistingParent H (Dir q) t = (r1, t1)" by fastforce
    have q1: "qrun R t t1" by (rule resolveExistingParent_qrun[OF E])
    show ?thesis using assms(1) Inr False E q1 ins
      by (auto simp: safeLocalDownloadPath_def Let_def split: sum.splits if_splits)
  qed
qed


lemma IsAbs_Dir: "IsAbs p \<Longrightarrow> IsAbs (Dir p)"
proof -
  assume "IsAbs p"
  then obtain q where p: "p = slash # q" by (cases p) auto
  then have "LastIndex p slash \<noteq> None" by (simp add: LastIndex_None)
  then obtain i where "LastIndex p slash = Some i" by blast
  then show ?thesis by (simp add: Dir_def p)
qed

lemma inside_refl [simp]: "inside R R \<longleftrightarrow> IsAbs R"
  by (simp add: inside_def)

lemma IsLocal_not_slash: "IsLocal p \<Longrightarrow> Clean p \<noteq> ''/''"
proof
  assume "IsLocal p" "Clean p = ''/''"
  then have "IsAbs (Clean p)" "\<not> IsAbs p" by (auto simp: IsLocal_def split: if_splits)
  then show False by simp
qed

lemma Base_not_slash:
  assumes "IsAbs p" "Clean p = p" "p \<noteq> ''/''"
  shows "Clean (Base p) \<noteq> ''/''"
proof -
  have ne: "p \<noteq> ''''" using assms(1) by auto
  have r: "p = render True (comps p)" using assms ne by (simp add: Clean_def)
  then have c: "comps p \<noteq> []" using assms(3) by (auto simp: render_def)
  then have "Base p = last (comps p)" "name_comp (last (comps p))"
    using Base_render[of "comps p" True] r comps_abs[OF assms(1)] by (auto simp: list_all_iff)
  then have "name_comp (Base p)" by simp
  then have "\<not> IsAbs (Base p)" by (cases "Base p") (auto simp: name_comp_def)
  then show ?thesis using IsAbs_Clean[of "Base p"] by (auto simp del: IsAbs_Clean)
qed

section \<open>Lemmas: downloads\<close>

lemma download_copy_run:
  "download_copy H remotePath f modTime t = (r, t') \<Longrightarrow> f \<in> D \<Longrightarrow>
   runs R D D t t' \<and> open_after F t' = open_after F t"
  unfolding runs_def
  by (auto simp: download_copy_def Let_def split: sum.splits option.splits prod.splits)

lemma downloadFile_run:
  assumes K: "fresh_fds (kern H) F" and root: "root \<in> open_after F t" and rel: "Clean relPath \<noteq> ''/''"
    and run: "downloadFile H remotePath root relPath modTime t = (r, t')"
  shows "runs R {root} {root} t t' \<and> open_after F t' = open_after F t"
proof (cases "r_open H t remotePath")
  case (Some e)
  then show ?thesis using run by (auto simp: downloadFile_def Let_def intro: qrun_runs)
next
  case None
  let ?t1 = "t @ [ERemote (ROpen remotePath)]"
  have q: "runs R {root} {root} t ?t1" by (rule qrun_runs) simp
  obtain r2 t2 where O: "openFile (kern H) root relPath 0x180 ?t1 = (r2, t2)" by fastforce
  have "root \<in> open_after F ?t1" using root by simp
  from openFile_run[OF K this rel O] obtain u where u: "t2 = ?t1 @ u" "list_all fd_event u" "confined {root} u"
    "case r2 of Inl _ \<Rightarrow> dirs_after {root} u = {root} \<and> open_after F t2 = open_after F ?t1
     | Inr f \<Rightarrow> dirs_after {root} u = {root, f} \<and> f \<notin> open_after F ?t1 \<and> open_after F t2 = insert f (open_after F ?t1)"
    by blast
  have o: "runs R {root} (dirs_after {root} u) ?t1 t2" by (rule runs_fd[OF u(1-3) refl])
  show ?thesis
  proof (cases r2)
    case (Inl e)
    then have t': "t' = t2 @ [ERemote (RCloseFile remotePath)]" using run None O by (auto simp: downloadFile_def Let_def)
    have "qrun R t2 t'" by (simp add: t')
    then show ?thesis using runs_trans[OF q o] u(4) Inl t' by (auto intro: runs_qrun)
  next
    case (Inr f)
    obtain r3 t3 where C: "download_copy H remotePath f modTime t2 = (r3, t3)" by fastforce
    then have t': "t' = t3 @ [EClose f, ERemote (RCloseFile remotePath)]"
      using run None O Inr by (auto simp: downloadFile_def Let_def)
    note D = download_copy_run[OF C, of "{root, f}" R F]
    have ne: "f \<noteq> root" using u(4) Inr root by auto
    have "runs R {root, f} {root} t3 t'"
      unfolding runs_def t' using ne by (intro exI[of _ "[EClose f, ERemote (RCloseFile remotePath)]"]) auto
    then have "runs R {root} {root} t t'"
      using runs_trans[OF runs_trans[OF q o], of "{root, f}" t3] runs_trans D u(4) Inr by fastforce
    moreover have "open_after F t' = open_after F t" using D u(4) Inr t' by simp
    ultimately show ?thesis by simp
  qed
qed


lemma download_entry_run:
  assumes K: "fresh_fds (kern H) F" and root: "root \<in> open_after F t" and q: "inside R q" and slash: "Clean rel \<noteq> ''/''"
    and run: "download_entry H root path rel q info tot t = (r, t')"
  shows "runs R {root} {root} t t' \<and> open_after F t' = open_after F t"
proof (cases "n_isdir info")
  case True
  obtain r2 t2 where E: "ensureDir (kern H) root rel (n_mode info) t = (r2, t2)" by fastforce
  from ensureDir_run[OF K root E] have run2: "runs R {root} {root} t t2" and o2: "open_after F t2 = open_after F t"
    using runs_fd by blast+
  obtain r3 t3 where L: "ensureSafeLocalDir H q (n_mode info) t2 = (r3, t3)" by fastforce
  have q3: "qrun R t2 t3" by (rule ensureSafeLocalDir_qrun[OF L q])
  have "t' = (if r2 = None then t3 else t2)"
    using run True E L by (auto simp: download_entry_def split: option.splits)
  moreover have "runs R {root} {root} t t3" by (rule runs_qrun[OF run2 q3])
  ultimately show ?thesis using run2 o2 qrun_open[OF q3] by simp
next
  case False
  let ?t2 = "t @ [ELocal (LStat q)]"
  have r2: "runs R {root} {root} t ?t2" by (rule qrun_runs) simp
  show ?thesis
  proof (cases "same_file (h_stat H t q) info")
    case True
    then have "t' = ?t2" using run False by (auto simp: download_entry_def Let_def)
    then show ?thesis using r2 by simp
  next
    case diff: False
    obtain r3 t3 where D: "downloadFile H path root rel (n_mtime info) ?t2 = (r3, t3)" by fastforce
    have "t' = t3" using run False diff D
      by (auto simp: download_entry_def Let_def split: prod.splits option.splits)
    moreover have "root \<in> open_after F ?t2" using root by simp
    ultimately show ?thesis using downloadFile_run[OF K _ slash D, of R] runs_trans[OF r2, of "{root}" t3] by simp
  qed
qed

lemma download_step_run:
  assumes K: "fresh_fds (kern H) F" and root: "root \<in> open_after F t" and R: "IsAbs R"
    and cwd: "\<And>wd. h_cwd H = Inr wd \<Longrightarrow> IsAbs wd"
    and run: "download_step H root R rR remotePath entry tot t = (r, t')"
  shows "runs R {root} {root} t t' \<and> open_after F t' = open_after F t"
proof -
  obtain err path info where e: "entry = (err, path, info)" by (cases entry) auto
  show ?thesis
  proof (cases "err = None \<and> (\<exists>rel. Rel remotePath path = Inr rel \<and> checkPathTraversal rel = None \<and> rel \<noteq> ''.'')")
    case False
    then have "t' = t" using run
      by (auto simp: download_step_def e split: option.splits sum.splits if_splits)
    then show ?thesis by simp
  next
    case True
    then obtain rel where rel: "err = None" "Rel remotePath path = Inr rel" "checkPathTraversal rel = None" "rel \<noteq> ''.''"
      by blast
    then have slash: "Clean rel \<noteq> ''/''" using IsLocal_not_slash by (auto simp: checkPathTraversal_def split: if_splits)
    obtain r1 t1 where S: "safeLocalDownloadPath H R rR (path_join [R, rel]) t = (r1, t1)" by fastforce
    note s = safeLocalDownloadPath_run[OF S R cwd]
    have o1: "open_after F t1 = open_after F t" using s qrun_open by blast
    have run1: "runs R {root} {root} t t1" using s qrun_runs by blast
    show ?thesis
    proof (cases r1)
      case (Inl x)
      then have "t' = t1" using run rel S by (auto simp: download_step_def e)
      then show ?thesis using run1 o1 by simp
    next
      case (Inr q)
      then have ins: "inside R q" using s by blast
      have "download_entry H root path rel q info tot t1 = (r, t')" using run rel S Inr by (simp add: download_step_def e)
      from download_entry_run[OF K _ ins slash this] show ?thesis using root o1 runs_trans[OF run1] by auto
    qed
  qed
qed

lemma download_walk_run:
  assumes K: "fresh_fds (kern H) F" and R: "IsAbs R" and cwd: "\<And>wd. h_cwd H = Inr wd \<Longrightarrow> IsAbs wd"
  shows "root \<in> open_after F t \<Longrightarrow> download_walk H root R rR remotePath es tot t = (r, t') \<Longrightarrow>
    runs R {root} {root} t t' \<and> open_after F t' = open_after F t"
proof (induction es arbitrary: tot t)
  case (Cons e es)
  obtain tot1 err t1 where S: "download_step H root R rR remotePath e tot t = ((tot1, err), t1)" by (metis surj_pair)
  note s = download_step_run[OF K Cons.prems(1) R cwd S]
  show ?case
  proof (cases err)
    case (Some x)
    then show ?thesis using Cons.prems S s by auto
  next
    case None
    then have "download_walk H root R rR remotePath es tot1 t1 = (r, t')" using Cons.prems(2) S by simp
    from Cons.IH[OF _ this] s Cons.prems(1) show ?thesis using runs_trans by auto
  qed
qed simp

text \<open>
  The destination root of a download: the destination itself for a directory, the directory of the
  target file for a file (none when the target has no file name).
\<close>

definition dest_root :: "host \<Rightarrow> string \<Rightarrow> string \<Rightarrow> event list \<Rightarrow> string option" where
  "dest_root H remotePath localPath t =
     (case r_stat H t remotePath of
        Inl _ \<Rightarrow> None
      | Inr info \<Rightarrow>
          if n_isdir info
          then (case Abs_path (h_cwd H) localPath of Inl _ \<Rightarrow> None | Inr p \<Rightarrow> Some p)
          else (case Abs_path (h_cwd H) (fst (resolveDownloadFileTarget H localPath remotePath (t @ [ERemote (RStat remotePath)]))) of
                  Inl _ \<Rightarrow> None
                | Inr p \<Rightarrow> if p = ''/'' then None else Some (Dir p)))"

lemma openSafeRoot_run:
  assumes "fresh_fds K F" "openSafeRoot K R t = (r, t')"
  shows "case r of Inl _ \<Rightarrow> runs R {} {} t t' \<and> open_after F t' = open_after F t
         | Inr root \<Rightarrow> runs R {} {root} t t' \<and> root \<notin> open_after F t \<and> open_after F t' = insert root (open_after F t)"
  using assms fresh_root[OF assms(1), of t R]
  by (auto simp: openSafeRoot_def Let_def runs_def split: sum.splits)

lemma close_root_run:
  "runs R {} {root} t t1 \<Longrightarrow> runs R {root} {root} t1 t2 \<Longrightarrow> runs R {} {} t (safeRoot_Close root t2)"
proof -
  assume "runs R {} {root} t t1" "runs R {root} {root} t1 t2"
  moreover have "runs R {root} {} t2 (safeRoot_Close root t2)" by (auto simp: runs_def safeRoot_Close_def)
  ultimately show ?thesis using runs_trans by blast
qed


lemma download_tree_run:
  assumes K: "fresh_fds (kern H) F" and cwd: "\<And>wd. h_cwd H = Inr wd \<Longrightarrow> IsAbs wd"
    and R: "Abs_path (h_cwd H) localPath = Inr R" and run: "download_tree H remotePath localPath t = (r, t')"
  shows "runs R {} {} t t' \<and> open_after F t' = open_after F t"
proof -
  have abs: "IsAbs R" using Abs_path_abs[OF R cwd] by blast
  obtain e t1 where E: "ensureSafeLocalDir H R 0x1ED t = (e, t1)" by fastforce
  have q1: "qrun R t t1" using ensureSafeLocalDir_qrun[OF E] abs by simp
  let ?t2 = "t1 @ [ELocal (LEvalSymlinks R)]"
  have q2: "qrun R t ?t2" using q1 by auto
  show ?thesis
  proof (cases "e = None \<and> (\<exists>rR. h_eval H t1 R = Inr rR)")
    case False
    then have "t' = t1 \<or> t' = ?t2" using run R E
      by (auto simp: download_tree_def prepareDownloadRoot_def Let_def split: sum.splits option.splits)
    then show ?thesis using q1 q2 qrun_runs qrun_open by blast
  next
    case True
    then obtain rR where rR: "e = None" "h_eval H t1 R = Inr rR" by blast
    obtain o1 t3 where O: "openSafeRoot (kern H) R ?t2 = (o1, t3)" by fastforce
    note o = openSafeRoot_run[OF K O]
    have oo: "open_after F ?t2 = open_after F t" by (rule qrun_open[OF q2])
    show ?thesis
    proof (cases o1)
      case (Inl x)
      then have "t' = t3" using run R E rR O by (auto simp: download_tree_def prepareDownloadRoot_def)
      then show ?thesis using o Inl oo runs_trans[OF qrun_runs[OF q2]] by auto
    next
      case (Inr root)
      obtain r4 t4 where W: "download_walk H root R rR remotePath (r_walk H t3 remotePath) 0 t3 = (r4, t4)" by fastforce
      have t': "t' = safeRoot_Close root t4" using run R E rR O Inr W by (auto simp: download_tree_def prepareDownloadRoot_def)
      have "root \<in> open_after F t3" using o Inr by auto
      note w = download_walk_run[OF K abs cwd this W]
      have "runs R {} {root} t t3" using o Inr runs_trans[OF qrun_runs[OF q2]] by auto
      then have "runs R {} {} t t'" using close_root_run w t' by blast
      moreover have "open_after F t' = open_after F t" using w o Inr oo t' by (auto simp: safeRoot_Close_def)
      ultimately show ?thesis by simp
    qed
  qed
qed

lemma resolveDownloadFileTarget_qrun: "resolveDownloadFileTarget H l p t = (q, t') \<Longrightarrow> qrun R t t'"
  by (auto simp: resolveDownloadFileTarget_def Let_def split: sum.splits if_splits)

text \<open>Once the target is checked: open the root, write the one file below it, close the root.\<close>

lemma write_below_root_run:
  assumes K: "fresh_fds (kern H) F" and p: "IsAbs p" "Clean p = p" "p \<noteq> ''/''"
    and run: "(case openSafeRoot (kern H) R t of
        (Inl e, t1) \<Rightarrow> ((0, Some e), t1)
      | (Inr root, t1) \<Rightarrow> let (x, t2) = downloadFile H remotePath root (Base p) mt t1 in (x, safeRoot_Close root t2)) = (r, t')"
  shows "runs R {} {} t t' \<and> open_after F t' = open_after F t"
proof -
  obtain o1 t1 where O: "openSafeRoot (kern H) R t = (o1, t1)" by fastforce
  note o = openSafeRoot_run[OF K O]
  show ?thesis
  proof (cases o1)
    case (Inl x)
    then show ?thesis using run O o by auto
  next
    case root: (Inr root)
    obtain x t2 where D: "downloadFile H remotePath root (Base p) mt t1 = (x, t2)" by fastforce
    have t': "t' = safeRoot_Close root t2" using run O root D by simp
    have "root \<in> open_after F t1" using o root by auto
    note d = downloadFile_run[OF K this Base_not_slash[OF p] D, of R]
    have "runs R {} {root} t t1" using o root by auto
    then have "runs R {} {} t t'" using close_root_run d t' by blast
    then show ?thesis using d o root t' by (auto simp: safeRoot_Close_def)
  qed
qed

lemma download_single_run:
  assumes K: "fresh_fds (kern H) F" and cwd: "\<And>wd. h_cwd H = Inr wd \<Longrightarrow> IsAbs wd"
    and P: "Abs_path (h_cwd H) (fst (resolveDownloadFileTarget H localPath remotePath t)) = Inr p" "p \<noteq> ''/''"
    and run: "download_single H remotePath localPath info t = (r, t')"
  shows "runs (Dir p) {} {} t t' \<and> open_after F t' = open_after F t"
proof -
  obtain l t1 where L: "resolveDownloadFileTarget H localPath remotePath t = (l, t1)" by fastforce
  have p: "IsAbs p" "Clean p = p" using Abs_path_abs[OF P(1) cwd] by auto
  define R where "R = Dir p"
  have abs: "IsAbs R" using IsAbs_Dir[OF p(1)] by (simp add: R_def)
  obtain e t2 where E: "ensureSafeLocalDir H R 0x1ED t1 = (e, t2)" by fastforce
  have q2: "qrun R t t2"
    using qrun_trans[OF resolveDownloadFileTarget_qrun[OF L] ensureSafeLocalDir_qrun[OF E]] abs by simp
  let ?t3 = "t2 @ [ELocal (LEvalSymlinks R)]"
  have q3: "qrun R t ?t3" using q2 by auto
  have prep: "prepareSingleFileDownloadTarget H l t1 = (case e of Some x \<Rightarrow> (Inl x, t2)
      | None \<Rightarrow> (case h_eval H t2 R of Inl x \<Rightarrow> (Inl (Errorf ''failed to resolve destination path: %w'' [AErr x]), ?t3)
                 | Inr rR \<Rightarrow> (Inr (p, R, rR), ?t3)))"
    using P(1) L E by (simp add: prepareSingleFileDownloadTarget_def R_def Let_def split: option.split sum.split)
  have "runs R {} {} t t' \<and> open_after F t' = open_after F t"
  proof (cases "e = None \<and> (\<exists>rR. h_eval H t2 R = Inr rR)")
    case False
    then have "t' = t2 \<or> t' = ?t3" using run L prep by (auto simp: download_single_def split: sum.splits option.splits)
    then show ?thesis using q2 q3 qrun_runs qrun_open by blast
  next
    case True
    then obtain rR where rR: "e = None" "h_eval H t2 R = Inr rR" by blast
    obtain s t4 where S: "safeLocalDownloadPath H R rR p ?t3 = (s, t4)" by fastforce
    note sl = safeLocalDownloadPath_run[OF S abs cwd]
    have q4: "qrun R t t4" using sl q3 qrun_trans by blast
    have o4: "open_after F t4 = open_after F t" by (rule qrun_open[OF q4])
    show ?thesis
    proof (cases s)
      case (Inl x)
      then have "t' = t4" using run L prep rR S by (auto simp: download_single_def)
      then show ?thesis using q4 qrun_runs o4 by blast
    next
      case (Inr q)
      then have q: "q = p" using sl p by (auto simp: Abs_path_def)
      have "(case openSafeRoot (kern H) R t4 of
          (Inl e, t1) \<Rightarrow> ((0, Some e), t1)
        | (Inr root, t1) \<Rightarrow> let (x, t2) = downloadFile H remotePath root (Base p) (n_mtime info) t1
            in (x, safeRoot_Close root t2)) = (r, t')"
        using run L prep rR S Inr q by (simp add: download_single_def)
      from write_below_root_run[OF K p P(2) this] show ?thesis using o4 runs_trans[OF qrun_runs[OF q4]] by auto
    qed
  qed
  then show ?thesis by (simp add: R_def)
qed

section \<open>Properties\<close>



text \<open>A host for the examples: every call succeeds, and each open returns a descriptor above all earlier ones.\<close>

fun event_fd :: "event \<Rightarrow> int" where
  "event_fd (EOpenatDir d n (Inr f)) = f"
| "event_fd (EOpenatCreate d n md (Inr f)) = f"
| "event_fd (EOpenRoot p (Inr f)) = f"
| "event_fd _ = 2"

fun next_fd :: "event list \<Rightarrow> int" where
  "next_fd [] = 3"
| "next_fd (e # t) = max (event_fd e + 1) (next_fd t)"

definition demo_kernel :: kernel where
  "demo_kernel = \<lparr>k_mkdirat = (\<lambda>_ _ _ _. None), k_openat_dir = (\<lambda>t _ _. Inr (next_fd t)),
     k_openat_create = (\<lambda>t _ _ _. Inr (next_fd t)), k_open_root = (\<lambda>t _. Inr (next_fd t))\<rparr>"

lemma next_fd_open: "f \<in> open_after F t \<Longrightarrow> f < next_fd t \<or> f \<in> F"
proof (induction t arbitrary: F)
  case (Cons e t)
  then have "f < next_fd t \<or> f \<in> open_step e F" by simp
  then show ?case by (cases "(e, F)" rule: open_step.cases) auto
qed simp

lemma demo_kernel_fresh: "fresh_fds demo_kernel {}"
  using next_fd_open[of _ "{}"] by (auto simp: fresh_fds_def demo_kernel_def)

definition a_dir :: node where
  "a_dir = \<lparr>n_isdir = True, n_symlink = False, n_size = 0, n_mode = 0x1ED, n_mtime = 0\<rparr>"

definition a_file :: node where
  "a_file = \<lparr>n_isdir = False, n_symlink = False, n_size = 5, n_mode = 0x180, n_mtime = 7\<rparr>"

definition demo_host :: host where
  "demo_host = \<lparr>kern = demo_kernel, h_cwd = Inr ''/w'', h_text = (\<lambda>_. ''e''), h_now = (\<lambda>_. 0),
     h_stat = (\<lambda>_ _. Inl (SysErr ENOENT)), h_lstat = (\<lambda>_ p. if p = ''/d'' \<or> p = ''/d/a'' then Inr a_dir else Inl (SysErr ENOENT)),
     h_eval = (\<lambda>_ p. Inr p), h_mkdirall = (\<lambda>_ _ _. None), h_open = (\<lambda>_ _. None), h_fstat = (\<lambda>_ _. Inr a_file),
     h_copy_up = (\<lambda>_ _ _. Inr 5), h_copy_down = (\<lambda>_ _ _. Inr 5), h_fchmod = (\<lambda>_ _ _. None), h_futimes = (\<lambda>_ _ _. None),
     r_stat = (\<lambda>_ p. Inr (if p = ''r'' then a_dir else a_file)), r_mkdirall = (\<lambda>_ _. None), r_create = (\<lambda>_ _. None),
     r_chmod = (\<lambda>_ _ _. None), r_chtimes = (\<lambda>_ _ _. None), r_open = (\<lambda>_ _. None), r_readdir = (\<lambda>_ _. Inr []),
     r_mkdir = (\<lambda>_ _. None), r_remove = (\<lambda>_ _. None),
     r_walk = (\<lambda>_ _. [(None, ''r'', a_dir), (None, ''r/a'', a_dir), (None, ''r/a/b'', a_file)]),
     h_walk = (\<lambda>_ _. [])\<rparr>"

lemma demo_host_sel [simp]:
  "kern demo_host = demo_kernel" "h_cwd demo_host = Inr ''/w''"
  by (simp_all add: demo_host_def)

lemma demo_dest_root: "dest_root demo_host ''r'' ''/d'' [] = Some ''/d''"
  by code_simp


text \<open>
  C21: the lexical destination check is exact.  Between absolute paths, \<open>pathEscapesRoot\<close> is false
  precisely when the components of the cleaned root are an initial segment of those of the
  cleaned target, so no combination of dots, repeated slashes or sibling names that share a
  prefix passes or is refused wrongly; and a relative path is taken by \<open>cleanRelPath\<close> precisely
  when cleaning leaves no leading dot-dot, and then only names are left.
\<close>

theorem path_checks_exact:
  "(IsAbs root \<and> IsAbs target \<longrightarrow> (pathEscapesRoot root target \<longleftrightarrow> \<not> prefix (comps root) (comps target)))
   \<and> ((\<exists>c. cleanRelPath rel = Inr c) \<longleftrightarrow> list_all name_comp (comps rel))
   \<and> (cleanRelPath rel = Inr '''' \<longleftrightarrow> \<not> IsAbs rel \<and> comps rel = [])"
proof -
  have C: "Clean rel = render (IsAbs rel) (comps rel)"
    by (simp add: Clean_def comps_def render_def)
  obtain n ns where n: "comps rel = replicate n ''..'' @ ns" "list_all name_comp ns" "IsAbs rel \<longrightarrow> n = 0"
    using comps_clean[of rel] by (auto simp: clean_list_def)
  have names: "list_all name_comp (comps rel) \<longleftrightarrow> n = 0" using n by (cases n) (auto simp: name_comp_def)
  have dots: "Clean rel = ''..'' \<or> HasPrefix (Clean rel) ''../'' \<longleftrightarrow> n \<noteq> 0"
  proof (cases "IsAbs rel")
    case True
    then show ?thesis using n(3) C by (auto simp: render_def HasPrefix_def)
  next
    case False
    then show ?thesis using Join_dotdot[OF n(2), of n] C n(1)
      by (cases "comps rel = []") (auto simp: render_def Let_def HasPrefix_def)
  qed
  have dot: "Clean rel = ''.'' \<longleftrightarrow> \<not> IsAbs rel \<and> comps rel = []"
  proof
    assume a: "Clean rel = ''.''"
    then have "\<not> IsAbs rel" using IsAbs_Clean[of rel] by (simp del: IsAbs_Clean)
    moreover have "comps rel = []" using comps_Clean[of rel] a by (simp add: comps_def del: comps_Clean)
    ultimately show "\<not> IsAbs rel \<and> comps rel = []" by simp
  qed (simp add: C render_def)
  have "(\<exists>c. cleanRelPath rel = Inr c) \<longleftrightarrow> n = 0"
    using dots dot names n by (auto simp: cleanRelPath_def Let_def)
  then show ?thesis
    using pathEscapesRoot_iff[of root target] names dot by (auto simp: cleanRelPath_def Let_def)
qed

theorem path_checks_exact_witness:
  "pathEscapesRoot ''/d/x'' ''/d/xy'' \<and> \<not> pathEscapesRoot ''/d'' ''/d/a/../b''"
proof -
  have "comps ''/d/x'' = [''d'', ''x'']" "comps ''/d/xy'' = [''d'', ''xy'']" "comps ''/d'' = [''d'']" "comps ''/d/a/../b'' = [''d'', ''b'']"
    by code_simp+
  then show ?thesis
    using path_checks_exact[of "''/d/x''" "''/d/xy''" "''''"] path_checks_exact[of "''/d''" "''/d/a/../b''" "''''"] by simp
qed


lemma uploadFile_extends: "uploadFile H l p t = (r, t') \<Longrightarrow> \<exists>u. t' = t @ u"
  by (auto simp: uploadFile_def upload_open_def upload_copy_def Let_def split: option.splits sum.splits prod.splits)

lemma upload_visit_extends: "upload_visit H l p e n t = (r, t') \<Longrightarrow> \<exists>u. t' = t @ u"
  by (auto simp: upload_visit_def Let_def dest!: uploadFile_extends
      split: option.splits sum.splits prod.splits if_splits)

lemma upload_walk_extends: "upload_walk H l p es n t = (r, t') \<Longrightarrow> \<exists>u. t' = t @ u"
proof (induction es arbitrary: n t)
  case (Cons e es)
  obtain n1 err t1 where V: "upload_visit H l p e n t = ((n1, err), t1)" by (metis surj_pair)
  obtain u where u: "t1 = t @ u" using upload_visit_extends[OF V] by blast
  show ?case
  proof (cases err)
    case None
    then show ?thesis using Cons.prems V u Cons.IH[of n1 t1] by auto
  qed (use Cons.prems V u in auto)
qed simp

lemma sftp_Upload_extends: "sftp_Upload H l p t = (r, t') \<Longrightarrow> \<exists>u. t' = t @ u"
proof -
  assume U: "sftp_Upload H l p t = (r, t')"
  let ?t1 = "t @ [ELocal (LStat l)]"
  obtain q t2 where R: "resolveUploadFileTarget H l p ?t1 = (q, t2)" by fastforce
  have "\<exists>u. t2 = ?t1 @ u" using R by (auto simp: resolveUploadFileTarget_def Let_def split: sum.splits if_splits)
  then obtain v where "t2 = ?t1 @ v" by blast
  then show ?thesis using U R
    by (auto simp: sftp_Upload_def Let_def dest!: upload_walk_extends uploadFile_extends split: sum.splits if_splits)
qed

text \<open>
  What a completed upload did for one entry of the local tree: a directory was created; a file
  was found unchanged (same size and modification second), or it was created, copied, given the
  mode of the local file and the modification time of the entry, in this order.
\<close>

definition mirrored :: "host \<Rightarrow> string \<Rightarrow> string \<Rightarrow> string \<times> node \<times> go_err option \<Rightarrow> event list \<Rightarrow> bool" where
  "mirrored H localPath remotePath entry u \<longleftrightarrow>
     (case entry of (path, info, err) \<Rightarrow> err = None \<and>
        (\<exists>rel. Rel localPath path = Inr rel \<and>
           (let p = path_join [remotePath, rel] in
            if n_isdir info then ERemote (RMkdirAll p) \<in> set u
            else (\<exists>t1. same_file (r_stat H t1 p) info)
                 \<or> (\<exists>t1 here. h_fstat H t1 path = Inr here \<and>
                      subseq (map ERemote [RCreate p, RCopyTo p, RChmod p (n_mode here), RCloseFile p, RChtimes p (n_mtime info)]) u))))"

lemma mirrored_append: "mirrored H l r e u \<Longrightarrow> mirrored H l r e (v @ u @ w)"
proof -
  assume M: "mirrored H l r e u"
  obtain path info err where e: "e = (path, info, err)" by (cases e) auto
  obtain rel where rel: "err = None" "Rel l path = Inr rel" using M by (auto simp: mirrored_def e)
  define p where "p = path_join [r, rel]"
  have "subseq xs u \<Longrightarrow> subseq xs (v @ u @ w)" for xs
    by (rule list_emb_append2) (rule list_emb_prefix)
  then show ?thesis using M rel unfolding mirrored_def e Let_def p_def[symmetric]
    by (auto simp del: path_join.simps split: if_splits)
qed

lemma uploadFile_ok:
  assumes "uploadFile H l p t = ((n, None), t')"
  shows "\<exists>t1 here. h_fstat H t1 l = Inr here \<and>
    t' = t @ [ELocal (LOpen l), ERemote (RMkdirAll (Dir p)), ERemote (RCreate p), ERemote (RCopyTo p),
              ERemote (RChmod p (n_mode here)), ERemote (RCloseFile p), ELocal (LCloseFile l)]"
  using assms
  by (auto simp: uploadFile_def upload_open_def upload_copy_def Let_def split: option.splits sum.splits prod.splits)

lemma upload_visit_ok:
  assumes "upload_visit H l r e tot t = ((n, None), t')"
  shows "\<exists>u. t' = t @ u \<and> mirrored H l r e u"
proof -
  obtain path info err where e: "e = (path, info, err)" by (cases e) auto
  obtain rel where rel: "err = None" "Rel l path = Inr rel"
    using assms by (auto simp: upload_visit_def e split: option.splits sum.splits)
  define p where "p = path_join [r, rel]"
  note path_join.simps [simp del]
  let ?t1 = "t @ [ERemote (RStat p)]"
  consider (dir) "n_isdir info" | (same) "\<not> n_isdir info" "same_file (r_stat H t p) info"
    | (copy) "\<not> n_isdir info" "\<not> same_file (r_stat H t p) info" by blast
  then show ?thesis
  proof cases
    case dir
    then have "t' = t @ [ERemote (RMkdirAll p)]"
      using assms rel by (auto simp: upload_visit_def e p_def[symmetric] Let_def split: option.splits)
    then show ?thesis using dir rel by (auto simp: mirrored_def e p_def Let_def)
  next
    case same
    then have "t' = ?t1" using assms rel by (auto simp: upload_visit_def e p_def[symmetric] Let_def)
    then show ?thesis using same rel by (auto simp: mirrored_def e p_def Let_def)
  next
    case copy
    obtain k t2 where U: "uploadFile H path p ?t1 = ((k, None), t2)" and t': "t' = t2 @ [ERemote (RChtimes p (n_mtime info))]"
      using assms rel copy
      by (auto simp: upload_visit_def e p_def[symmetric] Let_def split: option.splits prod.splits)
    from uploadFile_ok[OF U] obtain s here where h: "h_fstat H s path = Inr here"
      "t2 = ?t1 @ [ELocal (LOpen path), ERemote (RMkdirAll (Dir p)), ERemote (RCreate p), ERemote (RCopyTo p),
              ERemote (RChmod p (n_mode here)), ERemote (RCloseFile p), ELocal (LCloseFile path)]" by blast
    let ?u = "[ERemote (RStat p), ELocal (LOpen path), ERemote (RMkdirAll (Dir p)), ERemote (RCreate p), ERemote (RCopyTo p),
              ERemote (RChmod p (n_mode here)), ERemote (RCloseFile p), ELocal (LCloseFile path), ERemote (RChtimes p (n_mtime info))]"
    have "subseq (map ERemote [RCreate p, RCopyTo p, RChmod p (n_mode here), RCloseFile p, RChtimes p (n_mtime info)]) ?u"
      by simp
    then have "mirrored H l r e ?u" using copy rel h(1) by (auto simp: mirrored_def e p_def[symmetric] Let_def)
    moreover have "t' = t @ ?u" using t' h(2) by simp
    ultimately show ?thesis by blast
  qed
qed

lemma upload_walk_ok:
  "upload_walk H l r es tot t = ((n, None), t') \<Longrightarrow> \<exists>u. t' = t @ u \<and> (\<forall>e\<in>set es. mirrored H l r e u)"
proof (induction es arbitrary: tot t)
  case (Cons e es)
  obtain tot1 t1 where V: "upload_visit H l r e tot t = ((tot1, None), t1)"
    and W: "upload_walk H l r es tot1 t1 = ((n, None), t')"
    using Cons.prems by (auto split: prod.splits option.splits)
  obtain u1 where u1: "t1 = t @ u1" "mirrored H l r e u1" using upload_visit_ok[OF V] by blast
  obtain u2 where u2: "t' = t1 @ u2" "\<forall>x\<in>set es. mirrored H l r x u2" using Cons.IH[OF W] by blast
  have "mirrored H l r e (u1 @ u2)" using mirrored_append[OF u1(2), of "[]" u2] by simp
  moreover have "\<forall>x\<in>set es. mirrored H l r x (u1 @ u2)" using u2(2) mirrored_append[of H l r _ u2 u1 "[]"] by simp
  ultimately show ?case using u1(1) u2(1) by (intro exI[of _ "u1 @ u2"]) simp
qed simp



definition demo_upload_host :: host where
  "demo_upload_host = demo_host\<lparr>h_stat := (\<lambda>_ _. Inr a_dir), r_stat := (\<lambda>_ _. Inl (SysErr ENOENT)),
     h_walk := (\<lambda>_ _. [(''/s'', a_dir, None), (''/s/f'', a_file, None)])\<rparr>"

definition demo_env :: sftp_env where
  "demo_env = \<lparr>tx_await = (\<lambda>_ _. Inr 0), tx_newClient = (\<lambda>_. Inr demo_upload_host)\<rparr>"


end
