(* ===== verification/Daemon_Server.thy ===== *)
theory Daemon_Server
  imports Imsg Executor Port_Forward Reconnect_Monitor Sftp_Transfer Audit_Log Socket_Path Persist_Store
begin

text \<open>
  \<open>internal/server/server.go\<close>: the daemon.  Its state is the states of its components; a message
  is dispatched to them, and each connection is served message by message.
\<close>

section \<open>State\<close>

text \<open>
  \<open>d_loops\<close> are the monitor goroutines started so far, \<open>d_calls\<close> the history of the file transfers,
  \<open>d_stop\<close> whether a shutdown has been requested.
\<close>

record daemon =
  d_mgr :: manager
  d_fwd :: service
  d_mon :: monitor
  d_loops :: "watch_loop list"
  d_audit :: logger
  d_calls :: "event list"
  d_stop :: bool

text \<open>
  What the handling of one message depends on outside the daemon: the network, the machine, SFTP,
  the clock, the iteration orders of the two maps, the encodings of the standard library
  (\<open>json.Marshal\<close> and \<open>json.Unmarshal\<close>, base64, error texts) and how a command's output is cut
  into writes (\<open>sv_chunks out err\<close>: in order, \<open>True\<close> for standard output).
\<close>

record senv =
  sv_net :: net
  sv_fnet :: fnet
  sv_machine :: machine
  sv_sftp :: sftp_env
  sv_user :: "string res"
  sv_now :: int
  sv_uuid :: string
  sv_skeys :: "string list"
  sv_fkeys :: "string list"
  sv_text :: "go_err \<Rightarrow> string"
  sv_marshal :: "json \<Rightarrow> byte list"
  sv_parse :: "byte list \<Rightarrow> json res"
  sv_base64 :: "string \<Rightarrow> string"
  sv_chunks :: "string \<Rightarrow> string \<Rightarrow> (bool \<times> string) list"
  sv_logjson :: "int \<Rightarrow> entry \<Rightarrow> string res"
  sv_logwrite :: "string \<Rightarrow> go_err option"

definition NewServer :: "logger \<Rightarrow> daemon" where
  "NewServer log = \<lparr>d_mgr = NewManager, d_fwd = NewService, d_mon = NewMonitor, d_loops = [],
     d_audit = log, d_calls = [], d_stop = False\<rparr>"

section \<open>Encoding\<close>

definition bytes_of :: "string \<Rightarrow> byte list" where
  "bytes_of s = map of_char s"

definition enc_ForwardInfo :: "ForwardInfo \<Rightarrow> json" where
  "enc_ForwardInfo i = JObj ([(''id'', JStr (i_ID i)), (''session'', JStr (i_Session i)), (''type'', JStr (i_Type i)),
     (''local_port'', JNum (i_LocalPort i)), (''remote_port'', JNum (i_RemotePort i))] @ ostr ''bind_addr'' (i_BindAddr i))"

definition enc_TransferResult :: "TransferResult \<Rightarrow> json" where
  "enc_TransferResult r = JObj [(''success'', JBool (tr_Success r)), (''message'', JStr (tr_Message r)),
     (''bytes'', JNum (tr_Bytes r)), (''duration_ms'', JNum (tr_Duration r))]"

definition enc_StreamChunk :: "(string \<Rightarrow> string) \<Rightarrow> string \<Rightarrow> string \<Rightarrow> json" where
  "enc_StreamChunk base64 stream data = JObj [(''stream'', JStr stream), (''data'', JStr (base64 data))]"

definition DecodePayload :: "senv \<Rightarrow> (json \<Rightarrow> 'a option) \<Rightarrow> byte list \<Rightarrow> 'a res" where
  "DecodePayload E dec data =
     (case sv_parse E data of
        Inl e \<Rightarrow> Inl e
      | Inr j \<Rightarrow> (case dec j of None \<Rightarrow> Inl (ExtErr ''json: cannot unmarshal'') | Some p \<Rightarrow> Inr p))"

definition EncodePayload :: "senv \<Rightarrow> json \<Rightarrow> byte list" where
  "EncodePayload E j = sv_marshal E j"

definition error_reply :: "senv \<Rightarrow> string \<Rightarrow> Imsg" where
  "error_reply E text =
     NewImsg MsgError (sv_marshal E (enc_ErrorPayload \<lparr>pe_Code = -32000, pe_Message = text\<rparr>))"

definition sessionToInfo :: "session \<Rightarrow> SessionInfo" where
  "sessionToInfo sess =
     (let port = (case sess of SSH s \<Rightarrow> s_Port s | Local _ \<Rightarrow> 0) in
      \<lparr>si_Name = GetName sess, si_Type = GetType sess, si_Host = GetHost sess, si_User = GetUser sess,
       si_Port = port, si_Status = status_string (GetStatus sess), si_KeyPath = '''',
       si_LastCmd = GetLastCmd sess, si_CreatedAt = unix_seconds (GetCreatedAt sess)\<rparr>)"

section \<open>Audit\<close>

definition audit :: "senv \<Rightarrow> entry \<Rightarrow> daemon \<Rightarrow> daemon" where
  "audit E e d = d\<lparr>d_audit := snd (Log (sv_logjson E) (sv_now E) (sv_logwrite E) e (d_audit d))\<rparr>"

definition mk_entry :: "string \<Rightarrow> string \<Rightarrow> string \<Rightarrow> string \<Rightarrow> string \<Rightarrow> entry" where
  "mk_entry session action cmd result detail =
     \<lparr>e_Session = session, e_Action = action, e_Command = cmd, e_Result = result, e_Detail = detail\<rparr>"

definition logExecAudit :: "senv \<Rightarrow> string \<Rightarrow> string \<Rightarrow> go_err option \<Rightarrow> int option \<Rightarrow> daemon \<Rightarrow> daemon" where
  "logExecAudit E sessionName command err exitCode d =
     (case err of
        Some e \<Rightarrow> audit E (mk_entry sessionName ''exec'' command ''error'' (sv_text E e)) d
      | None \<Rightarrow>
          audit E (mk_entry sessionName ''exec'' command
            (case exitCode of
               Some c \<Rightarrow> if c \<noteq> 0 then ''exit_'' @ Itoa c else ''success''
             | None \<Rightarrow> ''success'') '''') d)"

definition logTransferAudit ::
  "senv \<Rightarrow> string \<Rightarrow> string \<Rightarrow> string \<Rightarrow> go_err option \<Rightarrow> TransferResult option \<Rightarrow> daemon \<Rightarrow> daemon" where
  "logTransferAudit E sessionName action command err result d =
     (case err of
        Some e \<Rightarrow> audit E (mk_entry sessionName action command ''error'' (sv_text E e)) d
      | None \<Rightarrow>
          (case result of
             Some r \<Rightarrow> if \<not> tr_Success r
                       then audit E (mk_entry sessionName action command ''error'' (tr_Message r)) d
                       else audit E (mk_entry sessionName action command ''success'' '''') d
           | None \<Rightarrow> audit E (mk_entry sessionName action command ''success'' '''') d))"

definition watch :: "ref \<Rightarrow> daemon \<Rightarrow> daemon" where
  "watch r d =
     (case Watch (d_mgr d) r (d_mon d) of
        (None, M) \<Rightarrow> d\<lparr>d_mon := M\<rparr>
      | (Some l, M) \<Rightarrow> d\<lparr>d_mon := M, d_loops := d_loops d @ [l]\<rparr>)"


section \<open>Handlers\<close>

definition ok_reply :: "senv \<Rightarrow> json \<Rightarrow> Imsg res" where
  "ok_reply E j = Inr (NewImsg MsgResult (EncodePayload E j))"

definition raw_reply :: "string \<Rightarrow> Imsg res" where
  "raw_reply s = Inr (NewImsg MsgResult (bytes_of s))"

definition quoted :: "string \<Rightarrow> string" where
  "quoted s = [CHR 0x22] @ s @ [CHR 0x22]"

definition status_json :: "string \<Rightarrow> string" where
  "status_json s = ''{'' @ quoted ''status'' @ '':'' @ quoted s @ ''}''"

definition invalid_params :: "go_err \<Rightarrow> 'a res" where
  "invalid_params e = Inl (Errorf ''invalid params: %w'' [AErr e])"

definition handle_connect :: "senv \<Rightarrow> byte list \<Rightarrow> daemon \<Rightarrow> Imsg res \<times> daemon" where
  "handle_connect E payload d =
     (case DecodePayload E dec_ConnectParams payload of
        Inl e \<Rightarrow> (invalid_params e, d)
      | Inr p \<Rightarrow>
          (case ConnectSSH (sv_net E) (\<lambda>r. await_client (sv_machine E) r awaitTimeout) (sv_now E)
                  (cp_Name p) (cp_User p) (cp_Host p) (cp_Port p) (cp_Password p) (cp_KeyPath p) (d_mgr d) of
             (Inl e, m1) \<Rightarrow> (Inl e, audit E (mk_entry '''' ''connect'' '''' ''error'' (sv_text E e)) (d\<lparr>d_mgr := m1\<rparr>))
           | (Inr r, m1) \<Rightarrow>
               (ok_reply E (enc_SessionInfo (sessionToInfo (objs m1 r))),
                audit E (mk_entry (GetName (objs m1 r)) ''connect'' '''' ''success'' '''') (watch r (d\<lparr>d_mgr := m1\<rparr>)))))"

definition handle_local :: "senv \<Rightarrow> byte list \<Rightarrow> daemon \<Rightarrow> Imsg res \<times> daemon" where
  "handle_local E payload d =
     (case DecodePayload E (dec_one ''name'') payload of
        Inl e \<Rightarrow> (invalid_params e, d)
      | Inr name \<Rightarrow>
          (case ConnectLocal (sv_user E) (sv_now E) name (d_mgr d) of
             (Inl e, m1) \<Rightarrow> (Inl e, d\<lparr>d_mgr := m1\<rparr>)
           | (Inr r, m1) \<Rightarrow> (ok_reply E (enc_SessionInfo (sessionToInfo (objs m1 r))), d\<lparr>d_mgr := m1\<rparr>)))"

definition handle_kill :: "senv \<Rightarrow> byte list \<Rightarrow> daemon \<Rightarrow> Imsg res \<times> daemon" where
  "handle_kill E payload d =
     (case DecodePayload E (dec_one ''name'') payload of
        Inl e \<Rightarrow> (invalid_params e, d)
      | Inr name \<Rightarrow>
          let d1 = d\<lparr>d_mon := StopWatch name (d_mon d)\<rparr> in
          (case Kill (sv_net E) name (d_mgr d1) of
             (Some e, m1) \<Rightarrow> (Inl e, d1\<lparr>d_mgr := m1\<rparr>)
           | (None, m1) \<Rightarrow>
               (raw_reply (status_json ''killed''),
                audit E (mk_entry name ''kill'' '''' ''success'' '''') (d1\<lparr>d_mgr := m1\<rparr>))))"

text \<open>The executor's handlers: \<open>None\<close> when the run never returns.\<close>

definition exec_reply ::
  "senv \<Rightarrow> string \<Rightarrow> string \<Rightarrow> (ExecResult option \<times> go_err option) option \<Rightarrow> daemon \<Rightarrow> Imsg res option \<times> daemon" where
  "exec_reply E name command res d =
     (case res of
        None \<Rightarrow> (None, d)
      | Some (_, Some e) \<Rightarrow> (Some (Inl e), logExecAudit E name command (Some e) None d)
      | Some (Some r, None) \<Rightarrow>
          (Some (ok_reply E (enc_ExecResult r)), logExecAudit E name command None (Some (er_ExitCode r)) d)
      | Some (None, None) \<Rightarrow> (Some (ok_reply E JNull), logExecAudit E name command None None d))"

definition handle_exec :: "senv \<Rightarrow> byte list \<Rightarrow> daemon \<Rightarrow> Imsg res option \<times> daemon" where
  "handle_exec E payload d =
     (case DecodePayload E dec_ExecParams payload of
        Inl e \<Rightarrow> (Some (invalid_params e), d)
      | Inr p \<Rightarrow>
          (case Exec (sv_machine E) (ep_Name p) (ep_Command p) (ep_Timeout p) (Some (ep_Sudo p)) (d_mgr d) of
             (res, m1) \<Rightarrow> exec_reply E (ep_Name p) (ep_Command p) res (d\<lparr>d_mgr := m1\<rparr>)))"

definition handle_local_exec :: "senv \<Rightarrow> byte list \<Rightarrow> daemon \<Rightarrow> Imsg res option \<times> daemon" where
  "handle_local_exec E payload d =
     (case DecodePayload E dec_LocalExecParams payload of
        Inl e \<Rightarrow> (Some (invalid_params e), d)
      | Inr p \<Rightarrow> exec_reply E '''' (lp_Command p)
                   (ExecLocal (sv_machine E) (lp_Command p) (lp_Timeout p) (Some (lp_Sudo p))) d)"

definition handle_list :: "senv \<Rightarrow> daemon \<Rightarrow> Imsg res \<times> daemon" where
  "handle_list E d =
     (ok_reply E (JArr (map (\<lambda>r. enc_SessionInfo (sessionToInfo (objs (d_mgr d) r))) (List (sv_skeys E) (d_mgr d)))), d)"

definition offline_ssh :: "string \<Rightarrow> manager \<Rightarrow> bool" where
  "offline_ssh name m =
     (case Get name m of
        Inl _ \<Rightarrow> False
      | Inr r \<Rightarrow> \<not> IsLocalSession (objs m r)
                 \<and> (GetStatus (objs m r) = StatusOffline \<or> GetStatus (objs m r) = StatusDisconnected))"

definition handle_use :: "senv \<Rightarrow> byte list \<Rightarrow> daemon \<Rightarrow> Imsg res \<times> daemon" where
  "handle_use E payload d =
     (case DecodePayload E dec_UseParams payload of
        Inl e \<Rightarrow> (invalid_params e, d)
      | Inr p \<Rightarrow>
          let wasOffline = offline_ssh (up_Name p) (d_mgr d) in
          (case Use (sv_net E) (up_Name p) (up_Password p) (up_KeyPath p) (d_mgr d) of
             (Some e, m1) \<Rightarrow> (Inl e, d\<lparr>d_mgr := m1\<rparr>)
           | (None, m1) \<Rightarrow>
               let d1 = d\<lparr>d_mgr := m1\<rparr>;
                   d2 = (if wasOffline
                         then (case Get (up_Name p) m1 of
                                 Inl _ \<Rightarrow> d1
                               | Inr r \<Rightarrow> if IsLocalSession (objs m1 r) then d1 else watch r d1)
                         else d1)
               in (raw_reply (status_json ''ok''), d2)))"

definition handle_forward :: "senv \<Rightarrow> byte list \<Rightarrow> daemon \<Rightarrow> Imsg res \<times> daemon" where
  "handle_forward E payload d =
     (case DecodePayload E dec_ForwardParams payload of
        Inl e \<Rightarrow> (invalid_params e, d)
      | Inr p \<Rightarrow>
          (case Add (sv_fnet E) (sv_uuid E) (d_mgr d) (await_client (sv_machine E)) (fp_Name p) (fp_Type p)
                  (fp_LocalPort p) (fp_RemotePort p) (fp_BindAddr p) (d_fwd d) of
             (Inl e, V) \<Rightarrow> (Inl e, d\<lparr>d_fwd := V\<rparr>)
           | (Inr info, V) \<Rightarrow> (ok_reply E (enc_ForwardInfo info), d\<lparr>d_fwd := V\<rparr>)))"

definition handle_forwards :: "senv \<Rightarrow> daemon \<Rightarrow> Imsg res \<times> daemon" where
  "handle_forwards E d = (ok_reply E (JArr (map enc_ForwardInfo (Service_List (sv_fkeys E) (d_fwd d)))), d)"

definition handle_forward_close :: "senv \<Rightarrow> byte list \<Rightarrow> daemon \<Rightarrow> Imsg res \<times> daemon" where
  "handle_forward_close E payload d =
     (case DecodePayload E (dec_one ''id'') payload of
        Inl e \<Rightarrow> (invalid_params e, d)
      | Inr fid \<Rightarrow>
          (case Service_Close (sv_fkeys E) fid (d_fwd d) of
             (Some e, V) \<Rightarrow> (Inl e, d\<lparr>d_fwd := V\<rparr>)
           | (None, V) \<Rightarrow> (raw_reply (status_json ''closed''), d\<lparr>d_fwd := V\<rparr>)))"

definition handle_scp :: "senv \<Rightarrow> byte list \<Rightarrow> daemon \<Rightarrow> Imsg res \<times> daemon" where
  "handle_scp E payload d =
     (case DecodePayload E dec_SCPParams payload of
        Inl e \<Rightarrow> (invalid_params e, d)
      | Inr p \<Rightarrow>
          let cmd = sp_Source p @ '' -> '' @ sp_Dest p;
              (res, t1) = (if sp_IsUpload p
                           then Upload (sv_sftp E) (d_mgr d) (sp_Name p) (sp_Source p) (sp_Dest p) (d_calls d)
                           else Download (sv_sftp E) (d_mgr d) (sp_Name p) (sp_Source p) (sp_Dest p) (d_calls d));
              d1 = d\<lparr>d_calls := t1\<rparr> in
          (case res of
             Inl e \<Rightarrow> (Inl e, logTransferAudit E (sp_Name p) ''scp'' cmd (Some e) None d1)
           | Inr r \<Rightarrow> (ok_reply E (enc_TransferResult r), logTransferAudit E (sp_Name p) ''scp'' cmd None (Some r) d1)))"

definition handle_sftp_ls :: "senv \<Rightarrow> byte list \<Rightarrow> daemon \<Rightarrow> Imsg res \<times> daemon" where
  "handle_sftp_ls E payload d =
     (case DecodePayload E dec_SFTPParams payload of
        Inl e \<Rightarrow> (invalid_params e, d)
      | Inr p \<Rightarrow>
          (case ListDir (sv_sftp E) (d_mgr d) (fs_Name p) (fs_Path p) (d_calls d) of
             (Inl e, t1) \<Rightarrow> (Inl e, audit E (mk_entry (fs_Name p) ''sftp_ls'' (fs_Path p) ''error'' (sv_text E e)) (d\<lparr>d_calls := t1\<rparr>))
           | (Inr files, t1) \<Rightarrow>
               (ok_reply E (JArr (map JStr files)),
                audit E (mk_entry (fs_Name p) ''sftp_ls'' (fs_Path p) ''success'' '''') (d\<lparr>d_calls := t1\<rparr>))))"

definition sftp_change ::
  "senv \<Rightarrow> string \<Rightarrow> string \<Rightarrow> (sftp_env \<Rightarrow> manager \<Rightarrow> string \<Rightarrow> string \<Rightarrow> event list \<Rightarrow> go_err option \<times> event list) \<Rightarrow>
   byte list \<Rightarrow> daemon \<Rightarrow> Imsg res \<times> daemon" where
  "sftp_change E action status op payload d =
     (case DecodePayload E dec_SFTPParams payload of
        Inl e \<Rightarrow> (invalid_params e, d)
      | Inr p \<Rightarrow>
          (case op (sv_sftp E) (d_mgr d) (fs_Name p) (fs_Path p) (d_calls d) of
             (Some e, t1) \<Rightarrow> (Inl e, audit E (mk_entry (fs_Name p) action (fs_Path p) ''error'' (sv_text E e)) (d\<lparr>d_calls := t1\<rparr>))
           | (None, t1) \<Rightarrow>
               (raw_reply (status_json status),
                audit E (mk_entry (fs_Name p) action (fs_Path p) ''success'' '''') (d\<lparr>d_calls := t1\<rparr>))))"

definition handle_sftp_mkdir :: "senv \<Rightarrow> byte list \<Rightarrow> daemon \<Rightarrow> Imsg res \<times> daemon" where
  "handle_sftp_mkdir E = sftp_change E ''sftp_mkdir'' ''created'' Mkdir"

definition handle_sftp_rm :: "senv \<Rightarrow> byte list \<Rightarrow> daemon \<Rightarrow> Imsg res \<times> daemon" where
  "handle_sftp_rm E = sftp_change E ''sftp_rm'' ''removed'' transfer_Remove"

definition returns :: "Imsg res \<times> daemon \<Rightarrow> Imsg res option \<times> daemon" where
  "returns x = (Some (fst x), snd x)"

definition dispatch :: "senv \<Rightarrow> Imsg \<Rightarrow> daemon \<Rightarrow> Imsg res option \<times> daemon" where
  "dispatch E msg d =
     (let t = Type msg; p = Payload msg in
      if t = MsgPing then (Some (Inr (NewImsg MsgPong (bytes_of (status_json ''ok'')))), d)
      else if t = MsgConnect then returns (handle_connect E p d)
      else if t = MsgLocal then returns (handle_local E p d)
      else if t = MsgKill then returns (handle_kill E p d)
      else if t = MsgExec then handle_exec E p d
      else if t = MsgLocalExec then handle_local_exec E p d
      else if t = MsgList then returns (handle_list E d)
      else if t = MsgUse then returns (handle_use E p d)
      else if t = MsgForward then returns (handle_forward E p d)
      else if t = MsgForwards then returns (handle_forwards E d)
      else if t = MsgForwardClose then returns (handle_forward_close E p d)
      else if t = MsgSCP then returns (handle_scp E p d)
      else if t = MsgSFTPLs then returns (handle_sftp_ls E p d)
      else if t = MsgSFTPMkdir then returns (handle_sftp_mkdir E p d)
      else if t = MsgSFTPRm then returns (handle_sftp_rm E p d)
      else if t = MsgStop then (Some (raw_reply (status_json ''stopping'')), d\<lparr>d_stop := True\<rparr>)
      else (Some (Inl (Errorf ''unknown message type: %d'' [AInt (uint t)])), d))"

section \<open>Streaming\<close>

text \<open>
  The two \<open>chunkWriter\<close>s on one connection.  \<open>fo\<close> and \<open>fe\<close>: a write of that stream has failed, and
  \<open>io.Copy\<close> has given up on it.
\<close>

definition chunk_msg :: "senv \<Rightarrow> bool \<Rightarrow> string \<Rightarrow> Imsg" where
  "chunk_msg E stdout data =
     NewImsg MsgStreamChunk (EncodePayload E (enc_StreamChunk (sv_base64 E) (if stdout then ''stdout'' else ''stderr'') data))"

fun send_chunks :: "senv \<Rightarrow> (bool \<times> string) list \<Rightarrow> bool \<Rightarrow> bool \<Rightarrow> conn \<Rightarrow> conn" where
  "send_chunks E [] fo fe c = c"
| "send_chunks E ((stdout, data) # cs) fo fe c =
     (if (if stdout then fo else fe) then send_chunks E cs fo fe c
      else (case WriteMessage conn_write c (chunk_msg E stdout data) of
              (None, c1) \<Rightarrow> send_chunks E cs fo fe c1
            | (Some e, c1) \<Rightarrow> if stdout then send_chunks E cs True fe c1 else send_chunks E cs fo True c1))"

definition sendStreamEnd :: "senv \<Rightarrow> int \<Rightarrow> go_err option \<Rightarrow> conn \<Rightarrow> conn" where
  "sendStreamEnd E exitCode execErr c =
     snd (WriteMessage conn_write c (NewImsg MsgStreamEnd (EncodePayload E (enc_StreamEnd
       \<lparr>se_ExitCode = exitCode, se_Error = (case execErr of None \<Rightarrow> '''' | Some e \<Rightarrow> sv_text E e)\<rparr>))))"

definition stream_reply :: "senv \<Rightarrow> string \<Rightarrow> string \<Rightarrow> streamed \<Rightarrow> conn \<Rightarrow> daemon \<Rightarrow> conn \<times> daemon" where
  "stream_reply E name command s c d =
     (let c1 = send_chunks E (sv_chunks E (st_out s) (st_errout s)) False False c;
          d1 = logExecAudit E name command (st_err s) (Some (st_code s)) d
      in (sendStreamEnd E (st_code s) (st_err s) c1, d1))"

definition handleExecStream :: "senv \<Rightarrow> conn \<Rightarrow> ExecParams \<Rightarrow> daemon \<Rightarrow> (conn \<times> daemon) option" where
  "handleExecStream E c p d =
     (case ExecStream (sv_machine E) (ep_Name p) (ep_Command p) (ep_Timeout p) (Some (ep_Sudo p)) (d_mgr d) of
        (None, m1) \<Rightarrow> None
      | (Some s, m1) \<Rightarrow> Some (stream_reply E (ep_Name p) (ep_Command p) s c (d\<lparr>d_mgr := m1\<rparr>)))"

definition handleLocalExecStream :: "senv \<Rightarrow> conn \<Rightarrow> LocalExecParams \<Rightarrow> daemon \<Rightarrow> (conn \<times> daemon) option" where
  "handleLocalExecStream E c p d =
     (case ExecLocalStream (sv_machine E) (lp_Command p) (lp_Timeout p) (Some (lp_Sudo p)) of
        None \<Rightarrow> None
      | Some s \<Rightarrow> Some (stream_reply E '''' (lp_Command p) s c d))"

section \<open>Connections\<close>

definition too_large :: "string" where
  "too_large = ''response exceeds '' @ Itoa (int MaxPayloadSize) @ '' bytes; re-run with --stream for large output''"

text \<open>The reply that is sent for a dispatched message: errors and oversized replies become error messages.\<close>

definition final_reply :: "senv \<Rightarrow> Imsg res \<Rightarrow> Imsg" where
  "final_reply E r =
     (let response = (case r of Inl e \<Rightarrow> error_reply E (sv_text E e) | Inr m \<Rightarrow> m) in
      if MaxPayloadSize < length (Payload response) then error_reply E too_large else response)"

text \<open>
  One message on a connection.  \<open>None\<close>: the handler never returns.  The flag says whether the
  connection goes on; an ignored write error of an error reply leaves it open.
\<close>

definition serve_message :: "senv \<Rightarrow> Imsg \<Rightarrow> conn \<Rightarrow> daemon \<Rightarrow> (bool \<times> conn \<times> daemon) option" where
  "serve_message E msg c d =
     (if Type msg = MsgExecStream then
        (case DecodePayload E dec_ExecParams (Payload msg) of
           Inl e \<Rightarrow> Some (True, snd (WriteMessage conn_write c (error_reply E (sv_text E e))), d)
         | Inr p \<Rightarrow> map_option (Pair True) (handleExecStream E c p d))
      else if Type msg = MsgLocalExecStream then
        (case DecodePayload E dec_LocalExecParams (Payload msg) of
           Inl e \<Rightarrow> Some (True, snd (WriteMessage conn_write c (error_reply E (sv_text E e))), d)
         | Inr p \<Rightarrow> map_option (Pair True) (handleLocalExecStream E c p d))
      else
        (case dispatch E msg d of
           (None, d1) \<Rightarrow> None
         | (Some r, d1) \<Rightarrow>
             (case WriteMessage conn_write c (final_reply E r) of
                (Some e, c1) \<Rightarrow> Some (False, c1, d1)
              | (None, c1) \<Rightarrow> Some (True, c1, d1))))"

text \<open>
  \<open>handleConn\<close>: reads and serves messages until the input ends or is malformed, or a reply cannot
  be sent; then the connection is closed.  \<open>Es\<close> are the environments of the messages, in order.
\<close>

function (sequential) handleConn :: "(nat \<Rightarrow> senv) \<Rightarrow> nat \<Rightarrow> conn \<Rightarrow> daemon \<Rightarrow> (conn \<times> daemon) option" where
  "handleConn Es n c d =
     (case ReadMessage (rx c) of
        Inl e \<Rightarrow> Some (c\<lparr>conn_closed := True\<rparr>, d)
      | Inr (msg, rest) \<Rightarrow>
          (case serve_message (Es n) msg (c\<lparr>rx := rest\<rparr>) d of
             None \<Rightarrow> None
           | Some (goes_on, c1, d1) \<Rightarrow>
               if goes_on then handleConn Es (Suc n) (c1\<lparr>rx := rest\<rparr>) d1
               else Some (c1\<lparr>conn_closed := True\<rparr>, d1)))"
  by pat_completeness auto

termination
  by (relation "measure (\<lambda>(Es, n, c, d). length (rx c))") (auto dest: ReadMessage_shorter)

declare handleConn.simps [simp del]


section \<open>The daemon's invariant\<close>

text \<open>
  The invariants of the components, and one monitor goroutine per context: every watched name has
  its goroutine.
\<close>

definition daemon_inv :: "daemon \<Rightarrow> bool" where
  "daemon_inv d \<longleftrightarrow> mgr_inv (d_mgr d) \<and> svc_inv (d_fwd d) \<and> mon_inv (d_mon d)
     \<and> distinct (map wl_ctx (d_loops d)) \<and> (\<forall>l\<in>set (d_loops d). wl_ctx l < nextCtx (d_mon d))
     \<and> (\<forall>n c. watched (d_mon d) n = Some c \<longrightarrow> c \<in> wl_ctx ` set (d_loops d))"

text \<open>What Go and the uuid package promise: the iteration orders list the keys, and a new id is new.\<close>

definition env_ok :: "senv \<Rightarrow> daemon \<Rightarrow> bool" where
  "env_ok E d \<longleftrightarrow> range_order (sessions (d_mgr d)) (sv_skeys E) \<and> range_order (forwards (d_fwd d)) (sv_fkeys E)
     \<and> forwards (d_fwd d) (sv_uuid E) = None"

text \<open>
  The steps of the daemon: serving a message on some connection, a turn of a monitor goroutine,
  and the end of the reconnection of a restored session.
\<close>

definition mon_part :: "daemon \<Rightarrow> mon_state" where
  "mon_part d = \<lparr>ms_mon = d_mon d, ms_mgr = d_mgr d, ms_fwd = d_fwd d\<rparr>"

inductive background_step :: "daemon \<Rightarrow> daemon \<Rightarrow> bool" where
  turn: "range_order (forwards (d_fwd d)) ks \<Longrightarrow> i < length (d_loops d) \<Longrightarrow>
    monitorLoop_turn N FN ks p first (d_loops d ! i) (mon_part d) = (delay, l, S) \<Longrightarrow>
    background_step d (d\<lparr>d_mon := ms_mon S, d_mgr := ms_mgr S, d_fwd := ms_fwd S, d_loops := (d_loops d)[i := l]\<rparr>)"
| restored: "Reconnect N name (d_mgr d) = (Inr r, m') \<Longrightarrow> background_step d (watch r (d\<lparr>d_mgr := m'\<rparr>))"
| restore_failed: "Reconnect N name (d_mgr d) = (Inl e, m') \<Longrightarrow> background_step d (d\<lparr>d_mgr := m'\<rparr>)"

inductive daemon_step :: "daemon \<Rightarrow> daemon \<Rightarrow> bool" where
  serve: "env_ok E d \<Longrightarrow> serve_message E msg c d = Some (b, c', d') \<Longrightarrow> daemon_step d d'"
| background: "background_step d d' \<Longrightarrow> daemon_step d d'"

section \<open>Lemmas: the invariant\<close>

lemma audit_sel [simp]:
  "d_mgr (audit E e d) = d_mgr d" "d_fwd (audit E e d) = d_fwd d" "d_mon (audit E e d) = d_mon d"
  "d_loops (audit E e d) = d_loops d" "d_calls (audit E e d) = d_calls d" "d_stop (audit E e d) = d_stop d"
  by (simp_all add: audit_def)

lemma audit_inv [simp]: "daemon_inv (audit E e d) = daemon_inv d"
  by (simp add: daemon_inv_def)

lemma logExecAudit_is: "\<exists>e. logExecAudit E n c err code d = audit E e d"
  by (auto simp: logExecAudit_def split: option.splits)

lemma logTransferAudit_is: "\<exists>e. logTransferAudit E n a c err res d = audit E e d"
  by (auto simp: logTransferAudit_def split: option.splits)

lemma log_inv [simp]:
  "daemon_inv (logExecAudit E n c err code d) = daemon_inv d"
  "daemon_inv (logTransferAudit E n a c err res d) = daemon_inv d"
  using logExecAudit_is[of E n c err code d] logTransferAudit_is[of E n a c err res d] by auto

lemma daemon_inv_mgr: "daemon_inv d \<Longrightarrow> mgr_inv m \<Longrightarrow> daemon_inv (d\<lparr>d_mgr := m\<rparr>)"
  by (simp add: daemon_inv_def)

lemma daemon_inv_step: "daemon_inv d \<Longrightarrow> mgr_step N (d_mgr d) m \<Longrightarrow> daemon_inv (d\<lparr>d_mgr := m\<rparr>)"
  using mgr_step_inv by (auto simp: daemon_inv_def)

lemma daemon_inv_fwd: "daemon_inv d \<Longrightarrow> svc_step FN (d_fwd d) V \<Longrightarrow> daemon_inv (d\<lparr>d_fwd := V\<rparr>)"
  using svc_step_inv by (auto simp: daemon_inv_def)

lemma daemon_inv_calls [simp]: "daemon_inv (d\<lparr>d_calls := t\<rparr>) = daemon_inv d" "daemon_inv (d\<lparr>d_stop := b\<rparr>) = daemon_inv d"
  by (simp_all add: daemon_inv_def)

lemma StopWatch_keeps: "nextCtx (StopWatch n M) = nextCtx M" "watched (StopWatch n M) k = Some c \<Longrightarrow> watched M k = Some c"
  by (auto simp: StopWatch_def split: option.splits if_splits)

lemma daemon_inv_StopWatch: "daemon_inv d \<Longrightarrow> daemon_inv (d\<lparr>d_mon := StopWatch n (d_mon d)\<rparr>)"
  unfolding daemon_inv_def using StopWatch_inv[of "d_mon d" n] StopWatch_keeps(2)[of n "d_mon d"]
  by (simp add: StopWatch_keeps(1)) blast

lemma watch_inv:
  assumes "daemon_inv d"
  shows "daemon_inv (watch r d)"
proof -
  obtain lp M where W: "Watch (d_mgr d) r (d_mon d) = (lp, M)" by fastforce
  have M: "mon_inv M" using Watch_inv[OF _ W] assms by (simp add: daemon_inv_def)
  show ?thesis
  proof (cases lp)
    case None
    then have "M = d_mon d" using W by (auto simp: Watch_def Let_def split: option.splits)
    then show ?thesis using assms W None by (simp add: watch_def)
  next
    case (Some l)
    then have l: "wl_ctx l = nextCtx (d_mon d)" "nextCtx M = Suc (nextCtx (d_mon d))"
      "watched M = (watched (d_mon d))(GetName (objs (d_mgr d) r) \<mapsto> nextCtx (d_mon d))"
      using W by (auto simp: Watch_def Let_def split: option.splits)
    have "nextCtx (d_mon d) \<notin> wl_ctx ` set (d_loops d)" using assms by (auto simp: daemon_inv_def)
    moreover have "\<forall>l\<in>set (d_loops d). wl_ctx l < Suc (nextCtx (d_mon d))" using assms by (auto simp: daemon_inv_def less_Suc_eq)
    ultimately show ?thesis using assms W Some l M by (auto simp: watch_def daemon_inv_def)
  qed
qed

lemma Exec_mgr:
  "Exec M n c t s m = (res, m') \<Longrightarrow> m' = m \<or> mgr_step N m m'"
  by (auto simp: Exec_def Let_def split: sum.splits if_splits intro: step_SetLastCmd)

lemma ExecStream_mgr:
  "ExecStream M n c t s m = (res, m') \<Longrightarrow> m' = m \<or> mgr_step N m m'"
  by (auto simp: ExecStream_def Let_def split: sum.splits if_splits intro: step_SetLastCmd)

lemma exec_reply_inv: "exec_reply E n c res d = (r, d') \<Longrightarrow> daemon_inv d \<Longrightarrow> daemon_inv d'"
  by (auto simp: exec_reply_def split: option.splits)


lemma handle_connect_inv: "handle_connect E p d = (r, d') \<Longrightarrow> daemon_inv d \<Longrightarrow> daemon_inv d'"
  unfolding handle_connect_def
  by (auto split: sum.splits prod.splits intro!: watch_inv
      elim!: daemon_inv_step[OF _ step_ConnectSSH[where N = "sv_net E"]])

lemma handle_local_inv: "handle_local E p d = (r, d') \<Longrightarrow> daemon_inv d \<Longrightarrow> daemon_inv d'"
  unfolding handle_local_def
  by (auto split: sum.splits prod.splits elim!: daemon_inv_step[OF _ step_ConnectLocal[where N = "sv_net E"]])

lemma handle_kill_inv: "handle_kill E p d = (r, d') \<Longrightarrow> daemon_inv d \<Longrightarrow> daemon_inv d'"
proof -
  assume H: "handle_kill E p d = (r, d')" and I: "daemon_inv d"
  show ?thesis
  proof (cases "DecodePayload E (dec_one ''name'') p")
    case (Inl e)
    then show ?thesis using H I by (simp add: handle_kill_def)
  next
    case (Inr n)
    obtain e m1 where K: "Kill (sv_net E) n (d_mgr d) = (e, m1)" by fastforce
    have "daemon_inv (d\<lparr>d_mon := StopWatch n (d_mon d), d_mgr := m1\<rparr>)"
      using daemon_inv_step[OF daemon_inv_StopWatch[OF I, of n], of "sv_net E" m1] step_Kill[OF K] by simp
    then show ?thesis using H Inr K by (auto simp: handle_kill_def Let_def split: option.splits)
  qed
qed

lemma handle_exec_inv: "handle_exec E p d = (r, d') \<Longrightarrow> daemon_inv d \<Longrightarrow> daemon_inv d'"
proof -
  assume H: "handle_exec E p d = (r, d')" and I: "daemon_inv d"
  show ?thesis
  proof (cases "DecodePayload E dec_ExecParams p")
    case (Inl e)
    then show ?thesis using H I by (simp add: handle_exec_def)
  next
    case (Inr q)
    obtain res m1 where X: "Exec (sv_machine E) (ep_Name q) (ep_Command q) (ep_Timeout q) (Some (ep_Sudo q)) (d_mgr d) = (res, m1)"
      by fastforce
    have "daemon_inv (d\<lparr>d_mgr := m1\<rparr>)" using Exec_mgr[OF X, of "sv_net E"] daemon_inv_step[OF I] I by auto
    then show ?thesis using H Inr X exec_reply_inv by (auto simp: handle_exec_def)
  qed
qed

lemma handle_local_exec_inv: "handle_local_exec E p d = (r, d') \<Longrightarrow> daemon_inv d \<Longrightarrow> daemon_inv d'"
  by (auto simp: handle_local_exec_def split: sum.splits intro: exec_reply_inv)

lemma handle_use_inv: "handle_use E p d = (r, d') \<Longrightarrow> daemon_inv d \<Longrightarrow> daemon_inv d'"
proof -
  assume H: "handle_use E p d = (r, d')" and I: "daemon_inv d"
  show ?thesis
  proof (cases "DecodePayload E dec_UseParams p")
    case (Inl e)
    then show ?thesis using H I by (simp add: handle_use_def)
  next
    case (Inr q)
    obtain e m1 where U: "Use (sv_net E) (up_Name q) (up_Password q) (up_KeyPath q) (d_mgr d) = (e, m1)" by fastforce
    have "daemon_inv (d\<lparr>d_mgr := m1\<rparr>)" using daemon_inv_step[OF I step_Use[OF U]] .
    then show ?thesis using H Inr U watch_inv
      by (auto simp: handle_use_def Let_def split: option.splits sum.splits if_splits)
  qed
qed

lemma handle_forward_inv:
  "handle_forward E p d = (r, d') \<Longrightarrow> env_ok E d \<Longrightarrow> daemon_inv d \<Longrightarrow> daemon_inv d'"
  unfolding handle_forward_def
  by (auto simp: env_ok_def split: sum.splits prod.splits elim!: daemon_inv_fwd[OF _ svc_add[where FN = "sv_fnet E"], rotated -1])

lemma handle_forward_close_inv:
  "handle_forward_close E p d = (r, d') \<Longrightarrow> env_ok E d \<Longrightarrow> daemon_inv d \<Longrightarrow> daemon_inv d'"
proof -
  assume H: "handle_forward_close E p d = (r, d')" and "env_ok E d" and I: "daemon_inv d"
  then have "daemon_inv (d\<lparr>d_fwd := snd (Service_Close (sv_fkeys E) i (d_fwd d))\<rparr>)" for i
    using daemon_inv_fwd[OF I svc_close] by (simp add: env_ok_def)
  then show ?thesis using H I
    by (auto simp: handle_forward_close_def split: sum.splits prod.splits option.splits) (metis snd_conv)+
qed

lemma handle_scp_inv: "handle_scp E p d = (r, d') \<Longrightarrow> daemon_inv d \<Longrightarrow> daemon_inv d'"
  by (auto simp: handle_scp_def Let_def split: sum.splits prod.splits)

lemma handle_sftp_inv:
  "handle_sftp_ls E p d = (r, d') \<Longrightarrow> daemon_inv d \<Longrightarrow> daemon_inv d'"
  "sftp_change E a s op p d = (r, d') \<Longrightarrow> daemon_inv d \<Longrightarrow> daemon_inv d'"
  by (auto simp: handle_sftp_ls_def sftp_change_def split: sum.splits prod.splits option.splits)

lemmas handler_inv = handle_connect_inv handle_local_inv handle_kill_inv handle_exec_inv handle_local_exec_inv
  handle_use_inv handle_forward_inv handle_forward_close_inv handle_scp_inv handle_sftp_inv

lemma returns_cases: "returns x = (r, d') \<longleftrightarrow> (\<exists>y. x = (y, d') \<and> r = Some y)"
  by (cases x) (auto simp: returns_def)

lemma dispatch_inv: "dispatch E msg d = (r, d') \<Longrightarrow> env_ok E d \<Longrightarrow> daemon_inv d \<Longrightarrow> daemon_inv d'"
  unfolding dispatch_def Let_def
  by (auto simp: returns_cases handle_list_def handle_forwards_def handle_sftp_mkdir_def handle_sftp_rm_def
      split: if_splits dest: handler_inv)

lemma stream_reply_inv: "stream_reply E n c s k d = (k', d') \<Longrightarrow> daemon_inv d \<Longrightarrow> daemon_inv d'"
  by (auto simp: stream_reply_def Let_def)

lemma handleExecStream_inv: "handleExecStream E c p d = Some (c', d') \<Longrightarrow> daemon_inv d \<Longrightarrow> daemon_inv d'"
proof -
  assume H: "handleExecStream E c p d = Some (c', d')" and I: "daemon_inv d"
  obtain s m1 where X: "ExecStream (sv_machine E) (ep_Name p) (ep_Command p) (ep_Timeout p) (Some (ep_Sudo p)) (d_mgr d) = (Some s, m1)"
    using H by (auto simp: handleExecStream_def split: prod.splits option.splits)
  have "daemon_inv (d\<lparr>d_mgr := m1\<rparr>)" using ExecStream_mgr[OF X, of "sv_net E"] daemon_inv_step[OF I] I by auto
  then show ?thesis using H X stream_reply_inv by (auto simp: handleExecStream_def)
qed

lemma serve_message_inv:
  "serve_message E msg c d = Some (b, c', d') \<Longrightarrow> env_ok E d \<Longrightarrow> daemon_inv d \<Longrightarrow> daemon_inv d'"
  unfolding serve_message_def
  by (auto split: if_splits sum.splits prod.splits option.splits
      simp: handleLocalExecStream_def
      dest: handleExecStream_inv stream_reply_inv dispatch_inv)


lemma checkAndReconnect_parts:
  assumes "checkAndReconnect N FN ks p w S = (delay, w', S')"
  shows "wl_ctx w' = wl_ctx w \<and> (mgr_step N)\<^sup>*\<^sup>* (ms_mgr S) (ms_mgr S')
    \<and> (ms_mon S' = ms_mon S \<or> (\<exists>n. ms_mon S' = StopWatch n (ms_mon S)))
    \<and> (ms_fwd S' = ms_fwd S \<or> (\<exists>n c. ms_fwd S' = RestartAll FN ks n c (ms_fwd S)))"
proof -
  let ?m = "ms_mgr S" and ?r = "wl_sess w"
  define pr where "pr = (case GetClient (objs ?m ?r) of None \<Rightarrow> (False, ?m) | Some c \<Rightarrow> probe_client c p ?m)"
  obtain alive m1 where pr1: "pr = (alive, m1)" by fastforce
  have m1: "(mgr_step N)\<^sup>*\<^sup>* ?m m1"
  proof (cases "GetClient (objs ?m ?r)")
    case (Some c)
    then have "m1 = snd (probe_client c p ?m)" using pr1 by (simp add: pr_def)
    then show ?thesis using step_probe[OF Some, of N p] by blast
  qed (use pr1 in \<open>simp add: pr_def\<close>)
  obtain res m2 where R: "Reconnect N (GetName (objs ?m ?r)) m1 = (res, m2)" by fastforce
  have "(mgr_step N)\<^sup>*\<^sup>* ?m m2" using m1 step_Reconnect[OF R] by (rule rtranclp.rtrancl_into_rtrancl)
  then show ?thesis
    using assms m1 R unfolding checkAndReconnect_def Let_def pr_def[symmetric] pr1
    by (auto split: if_splits sum.splits) blast
qed

lemma turn_inv:
  assumes I: "daemon_inv d" and ks: "range_order (forwards (d_fwd d)) ks" and i: "i < length (d_loops d)"
    and T: "monitorLoop_turn N FN ks p first (d_loops d ! i) (mon_part d) = (delay, l, S)"
  shows "daemon_inv (d\<lparr>d_mon := ms_mon S, d_mgr := ms_mgr S, d_fwd := ms_fwd S, d_loops := (d_loops d)[i := l]\<rparr>)"
proof -
  let ?w = "d_loops d ! i"
  have parts: "wl_ctx l = wl_ctx ?w \<and> (mgr_step N)\<^sup>*\<^sup>* (d_mgr d) (ms_mgr S)
    \<and> (ms_mon S = d_mon d \<or> (\<exists>n. ms_mon S = StopWatch n (d_mon d)))
    \<and> (ms_fwd S = d_fwd d \<or> (\<exists>n c. ms_fwd S = RestartAll FN ks n c (d_fwd d)))"
  proof (cases "wl_ctx ?w \<in> cancelled (d_mon d) \<and> \<not> first")
    case True
    then show ?thesis using T by (auto simp: monitorLoop_turn_def mon_part_def)
  next
    case False
    obtain delay1 where "checkAndReconnect N FN ks p ?w (mon_part d) = (delay1, l, S)"
      using T False by (auto simp: monitorLoop_turn_def mon_part_def split: prod.splits if_splits)
    from checkAndReconnect_parts[OF this] show ?thesis by (simp add: mon_part_def)
  qed
  have ctxs: "map wl_ctx ((d_loops d)[i := l]) = map wl_ctx (d_loops d)"
    using parts i by (simp add: map_update list_update_same_conv)
  then have sets: "wl_ctx ` set ((d_loops d)[i := l]) = wl_ctx ` set (d_loops d)" by (metis set_map)
  have "mgr_inv (ms_mgr S)" using mgr_machine.steps_inv parts I by (auto simp: daemon_inv_def)
  moreover have "svc_inv (ms_fwd S)" using parts I svc_step_inv[OF svc_restart[OF ks]] by (auto simp: daemon_inv_def)
  moreover have M: "mon_inv (ms_mon S)" "nextCtx (ms_mon S) = nextCtx (d_mon d)"
    using parts I StopWatch_inv StopWatch_keeps(1) by (auto simp: daemon_inv_def)
  moreover have "\<forall>n c. watched (ms_mon S) n = Some c \<longrightarrow> c \<in> wl_ctx ` set ((d_loops d)[i := l])"
    using parts I StopWatch_keeps(2) unfolding sets daemon_inv_def by metis
  moreover have "\<forall>x\<in>set ((d_loops d)[i := l]). wl_ctx x < nextCtx (d_mon d)"
  proof
    fix x assume "x \<in> set ((d_loops d)[i := l])"
    then have "wl_ctx x \<in> wl_ctx ` set (d_loops d)" using sets by blast
    then show "wl_ctx x < nextCtx (d_mon d)" using I by (auto simp: daemon_inv_def)
  qed
  moreover have "distinct (map wl_ctx ((d_loops d)[i := l]))" using I unfolding ctxs by (simp add: daemon_inv_def)
  ultimately show ?thesis by (simp add: daemon_inv_def)
qed

lemma background_step_inv: "background_step d d' \<Longrightarrow> daemon_inv d \<Longrightarrow> daemon_inv d'"
proof (induction rule: background_step.induct)
  case (restored N name d r m')
  then show ?case using watch_inv daemon_inv_step[OF _ step_Reconnect] by blast
next
  case (restore_failed N name d e m')
  then show ?case using daemon_inv_step[OF _ step_Reconnect] by blast
qed (rule turn_inv)

lemma daemon_step_inv: "daemon_step d d' \<Longrightarrow> daemon_inv d \<Longrightarrow> daemon_inv d'"
  by (induction rule: daemon_step.induct) (auto intro: serve_message_inv background_step_inv)

lemma NewServer_inv: "daemon_inv (NewServer log)"
  using mgr_inv_init svc_reach_inv[OF rtranclp.rtrancl_refl]
  by (simp add: daemon_inv_def NewServer_def mon_inv_def NewMonitor_def)

interpretation daemon_machine: state_machine "\<lambda>d. \<exists>log. d = NewServer log" daemon_inv daemon_step
  by unfold_locales (auto intro: NewServer_inv daemon_step_inv)


section \<open>Lemmas: replies\<close>

text \<open>A reply of a handler: an error, or a result message of the protocol version.\<close>

definition result_reply :: "Imsg res \<Rightarrow> bool" where
  "result_reply r \<longleftrightarrow> (case r of Inl _ \<Rightarrow> True | Inr m \<Rightarrow> Version m = imsg_version \<and> Type m = MsgResult)"

lemma result_replies [simp]:
  "result_reply (Inl e)" "result_reply (ok_reply E j)" "result_reply (raw_reply s)" "result_reply (invalid_params e)"
  by (simp_all add: result_reply_def ok_reply_def raw_reply_def invalid_params_def NewImsg_def)

lemma handlers_reply:
  "result_reply (fst (handle_connect E p d))" "result_reply (fst (handle_local E p d))"
  "result_reply (fst (handle_kill E p d))" "result_reply (fst (handle_list E d))"
  "result_reply (fst (handle_use E p d))" "result_reply (fst (handle_forward E p d))"
  "result_reply (fst (handle_forwards E d))" "result_reply (fst (handle_forward_close E p d))"
  "result_reply (fst (handle_scp E p d))" "result_reply (fst (handle_sftp_ls E p d))"
  "result_reply (fst (sftp_change E a s op p d))"
  by (simp_all add: handle_connect_def handle_local_def handle_kill_def handle_list_def handle_use_def
      handle_forward_def handle_forwards_def handle_forward_close_def handle_scp_def handle_sftp_ls_def
      sftp_change_def Let_def split: sum.split prod.split option.split)

lemma exec_handlers_reply:
  "exec_reply E n c res d = (Some r, d') \<Longrightarrow> result_reply r"
  "handle_exec E p d = (Some r, d') \<Longrightarrow> result_reply r"
  "handle_local_exec E p d = (Some r, d') \<Longrightarrow> result_reply r"
proof -
  show R: "exec_reply E n c res d = (Some r, d') \<Longrightarrow> result_reply r" for E n c res d r d'
    by (auto simp: exec_reply_def split: option.splits)
  show "handle_exec E p d = (Some r, d') \<Longrightarrow> result_reply r"
    by (auto simp: handle_exec_def split: sum.splits prod.splits dest: R)
  show "handle_local_exec E p d = (Some r, d') \<Longrightarrow> result_reply r"
    by (auto simp: handle_local_exec_def split: sum.splits dest: R)
qed

lemma dispatch_reply:
  assumes "dispatch E msg d = (Some r, d')"
  shows "if Type msg = MsgPing then r = Inr (NewImsg MsgPong (bytes_of (status_json ''ok''))) else result_reply r"
  using assms unfolding dispatch_def Let_def
  by (auto simp: returns_def handle_sftp_mkdir_def handle_sftp_rm_def handlers_reply split: if_splits
      dest: exec_handlers_reply)

text \<open>The guard's own message fits, as its text is fixed and short.\<close>

definition guard_fits :: "senv \<Rightarrow> bool" where
  "guard_fits E \<longleftrightarrow> length (Payload (error_reply E too_large)) \<le> MaxPayloadSize"

lemma final_reply_ok:
  assumes "guard_fits E" "dispatch E msg d = (Some r, d')"
  shows "frame_ok (final_reply E r)
    \<and> (Type (final_reply E r) = (if Type msg = MsgPing then MsgPong else MsgResult) \<or> Type (final_reply E r) = MsgError)
    \<and> (Type msg = MsgPing \<longrightarrow> Type (final_reply E r) = MsgPong)"
proof (cases "Type msg = MsgPing")
  case True
  have "length (bytes_of (status_json ''ok'')) \<le> MaxPayloadSize"
    by (simp add: bytes_of_def status_json_def quoted_def MaxPayloadSize_def)
  then show ?thesis using dispatch_reply[OF assms(2)] True
    by (simp add: final_reply_def NewImsg_def frame_ok_def)
next
  case False
  then have "result_reply r" using dispatch_reply[OF assms(2)] by simp
  then show ?thesis using assms(1) False
    by (auto simp: final_reply_def result_reply_def guard_fits_def error_reply_def frame_ok_def NewImsg_def Let_def
        split: sum.splits)
qed

lemma WriteMessage_open:
  assumes "frame_ok m" "\<not> conn_closed c"
  shows "WriteMessage conn_write c m = (None, c\<lparr>tx := tx c @ frame m\<rparr>)"
  using assms by (auto simp: WriteMessage_def frame_ok_def conn_write_def frame_def)

definition is_stream :: "Imsg \<Rightarrow> bool" where
  "is_stream m \<longleftrightarrow> Type m = MsgExecStream \<or> Type m = MsgLocalExecStream"

lemma serve_message_answers:
  assumes "guard_fits E" "\<not> conn_closed c" "\<not> is_stream msg" "dispatch E msg d = (Some r, d')"
  shows "serve_message E msg c d = Some (True, c\<lparr>tx := tx c @ frame (final_reply E r)\<rparr>, d')"
  using assms WriteMessage_open[OF _ assms(2)] final_reply_ok[OF assms(1,4)]
  by (simp add: serve_message_def is_stream_def)

text \<open>\<open>answers req rep\<close>: the reply answers the request.\<close>

definition answers :: "Imsg \<Rightarrow> Imsg \<Rightarrow> bool" where
  "answers req rep \<longleftrightarrow> frame_ok rep
     \<and> (if Type req = MsgPing then Type rep = MsgPong else Type rep = MsgResult \<or> Type rep = MsgError)"

lemma handleConn_answers:
  assumes "\<And>n. guard_fits (Es n)" "\<And>n d m. m \<in> set msgs \<Longrightarrow> fst (dispatch (Es n) m d) \<noteq> None"
    "list_all frame_ok msgs" "list_all (\<lambda>m. \<not> is_stream m) msgs" "\<not> conn_closed c" "rx c = concat (map frame msgs)"
  shows "\<exists>c' d' reps. handleConn Es n c d = Some (c', d') \<and> conn_closed c' \<and> list_all2 answers msgs reps
    \<and> tx c' = tx c @ concat (map frame reps)"
  using assms(2-)
proof (induction msgs arbitrary: n c d)
  case Nil
  have "ReadMessage (rx c) = Inl (Errorf ''failed to read header: %w'' [AErr (SysErr EOF)])"
    using Nil by (simp add: ReadMessage_def ReadFull_def HeaderSize_def)
  then show ?case by (subst handleConn.simps) auto
next
  case (Cons m msgs)
  have R: "ReadMessage (rx c) = Inr (m, concat (map frame msgs))"
    using Cons.prems(2,5) ReadMessage_frame[of m] by simp
  obtain r d1 where D: "dispatch (Es n) m d = (Some r, d1)" using Cons.prems(1)[of m n d] by (cases "dispatch (Es n) m d") auto
  let ?c = "c\<lparr>rx := concat (map frame msgs)\<rparr>"
  let ?c1 = "?c\<lparr>tx := tx c @ frame (final_reply (Es n) r)\<rparr>"
  have S: "serve_message (Es n) m ?c d = Some (True, ?c1, d1)"
    using serve_message_answers[OF assms(1) _ _ D, of ?c] Cons.prems(3,4) by simp
  have step: "handleConn Es n c d = handleConn Es (Suc n) (?c1\<lparr>rx := concat (map frame msgs)\<rparr>) d1"
    by (subst handleConn.simps) (simp add: R S)
  have "\<exists>c' d' reps. handleConn Es (Suc n) (?c1\<lparr>rx := concat (map frame msgs)\<rparr>) d1 = Some (c', d') \<and> conn_closed c'
    \<and> list_all2 answers msgs reps \<and> tx c' = tx (?c1\<lparr>rx := concat (map frame msgs)\<rparr>) @ concat (map frame reps)"
    using Cons.prems by (intro Cons.IH) auto
  then obtain c' d' reps where IH: "handleConn Es (Suc n) (?c1\<lparr>rx := concat (map frame msgs)\<rparr>) d1 = Some (c', d')"
    "conn_closed c'" "list_all2 answers msgs reps" "tx c' = tx c @ frame (final_reply (Es n) r) @ concat (map frame reps)" by auto
  have "answers m (final_reply (Es n) r)" using final_reply_ok[OF assms(1) D] by (auto simp: answers_def split: if_splits)
  then show ?case using IH step by (intro exI[of _ c'] exI[of _ d'] exI[of _ "final_reply (Es n) r # reps"]) simp
qed


section \<open>Properties\<close>



text \<open>The environments of the examples: dials succeed and every payload decodes to a given value.\<close>

definition demo_senv :: "string list \<Rightarrow> json \<Rightarrow> senv" where
  "demo_senv ks j = \<lparr>sv_net = \<lparr>dial = (\<lambda>n u h p a. None), close_err = (\<lambda>_. None)\<rparr>, sv_fnet = demo_fnet,
     sv_machine = demo_machine, sv_sftp = demo_env, sv_user = Inr ''me'', sv_now = 7, sv_uuid = ''id-1'',
     sv_skeys = ks, sv_fkeys = [], sv_text = (\<lambda>_. ''error''), sv_marshal = (\<lambda>_. []), sv_parse = (\<lambda>_. Inr j),
     sv_base64 = (\<lambda>s. s), sv_chunks = (\<lambda>a b. [(True, a), (False, b)]), sv_logjson = (\<lambda>_ _. Inr ''''),
     sv_logwrite = (\<lambda>_. None)\<rparr>"

lemma demo_guard_fits: "guard_fits (demo_senv ks j)"
  by (simp add: guard_fits_def error_reply_def NewImsg_def demo_senv_def)

lemma step_dispatch:
  assumes "env_ok E d" "guard_fits E" "\<not> is_stream msg" "dispatch E msg d = (Some r, d')"
  shows "daemon_step d d'"
  using serve_message_answers[OF assms(2) _ assms(3,4), of "\<lparr>rx = [], tx = [], conn_closed = False\<rparr>"] serve[OF assms(1)]
  by simp

definition demo_connect_env :: senv where
  "demo_connect_env = demo_senv [] (JObj [(''user'', JStr ''u''), (''host'', JStr ''h''), (''port'', JNum 22)])"

definition demo_d1 :: daemon where
  "demo_d1 = snd (dispatch demo_connect_env (NewImsg MsgConnect []) (NewServer None))"

definition demo_d2 :: daemon where
  "demo_d2 = snd (dispatch (demo_senv [''u@h''] (JObj [])) (NewImsg MsgKill []) demo_d1)"

definition demo_d3 :: daemon where
  "demo_d3 = snd (dispatch demo_connect_env (NewImsg MsgConnect []) demo_d2)"

lemma demo_runs:
  "\<exists>r. fst (dispatch demo_connect_env (NewImsg MsgConnect []) (NewServer None)) = Some r"
  "\<exists>r. fst (dispatch (demo_senv [''u@h''] (JObj [])) (NewImsg MsgKill []) demo_d1) = Some r"
  "\<exists>r. fst (dispatch demo_connect_env (NewImsg MsgConnect []) demo_d2) = Some r"
  by (simp_all add: dispatch_def NewImsg_def MsgConnect_def MsgKill_def MsgPing_def MsgLocal_def returns_def)

lemma demo_decode:
  "DecodePayload demo_connect_env dec_ConnectParams p =
     Inr \<lparr>cp_Name = '''', cp_User = ''u'', cp_Host = ''h'', cp_Port = 22, cp_Password = '''', cp_KeyPath = ''''\<rparr>"
  "DecodePayload (demo_senv ks (JObj [])) (dec_one ''name'') p = Inr ''''"
proof -
  have "dec_ConnectParams (JObj [(''user'', JStr ''u''), (''host'', JStr ''h''), (''port'', JNum 22)]) =
     Some \<lparr>cp_Name = '''', cp_User = ''u'', cp_Host = ''h'', cp_Port = 22, cp_Password = '''', cp_KeyPath = ''''\<rparr>"
    by code_simp
  then show "DecodePayload demo_connect_env dec_ConnectParams p =
     Inr \<lparr>cp_Name = '''', cp_User = ''u'', cp_Host = ''h'', cp_Port = 22, cp_Password = '''', cp_KeyPath = ''''\<rparr>"
    by (simp add: DecodePayload_def demo_connect_env_def demo_senv_def)
  show "DecodePayload (demo_senv ks (JObj [])) (dec_one ''name'') p = Inr ''''"
    by (simp add: DecodePayload_def demo_senv_def)
qed

lemma demo_senv_sel [simp]:
  "sv_net (demo_senv ks j) = \<lparr>dial = (\<lambda>n u h p a. None), close_err = (\<lambda>_. None)\<rparr>" "sv_now (demo_senv ks j) = 7"
  "sv_skeys (demo_senv ks j) = ks" "sv_fkeys (demo_senv ks j) = []" "sv_uuid (demo_senv ks j) = ''id-1''"
  "sv_net demo_connect_env = \<lparr>dial = (\<lambda>n u h p a. None), close_err = (\<lambda>_. None)\<rparr>" "sv_now demo_connect_env = 7"
  "sv_skeys demo_connect_env = []" "sv_fkeys demo_connect_env = []" "sv_uuid demo_connect_env = ''id-1''"
  by (simp_all add: demo_connect_env_def demo_senv_def)

lemmas demo_eval = dispatch_def NewImsg_def MsgConnect_def MsgKill_def MsgPing_def MsgLocal_def returns_def
  handle_connect_def handle_kill_def demo_decode audit_def Log_def NewServer_def
  watch_def Watch_def NewMonitor_def StopWatch_def Kill_def default_if_empty_def close_session_eq forget_def
  ConnectSSH_def ConnectSSH_lookup_def ssh_name_def NewManager_def alloc_def connect_def connect_adopt_def Let_def

lemma demo_d1_sel:
  "sessions (d_mgr demo_d1) = [''u@h'' \<mapsto> 0]" "forwards (d_fwd demo_d1) = Map.empty"
  "netOpen (d_mgr demo_d1) = {0}" "watched (d_mon demo_d1) = [''u@h'' \<mapsto> 0]" "defaultName (d_mgr demo_d1) = ''u@h''"
  by (simp_all add: demo_d1_def demo_eval NewService_def)


lemma demo_d1_step: "daemon_step (NewServer None) demo_d1"
proof -
  obtain r where r: "dispatch demo_connect_env (NewImsg MsgConnect []) (NewServer None) = (Some r, demo_d1)"
    using demo_runs(1) by (auto simp: demo_d1_def prod_eq_iff)
  have "env_ok demo_connect_env (NewServer None)"
    by (simp add: env_ok_def NewServer_def NewManager_def NewService_def)
  moreover have "guard_fits demo_connect_env" by (simp add: demo_connect_env_def demo_guard_fits)
  ultimately show ?thesis using r
    by (intro step_dispatch) (auto simp: is_stream_def NewImsg_def MsgConnect_def MsgExecStream_def MsgLocalExecStream_def)
qed



lemma demo_d2_sel:
  "sessions (d_mgr demo_d2) = Map.empty" "forwards (d_fwd demo_d2) = Map.empty" "netOpen (d_mgr demo_d2) = {}"
  by (simp_all add: demo_d2_def demo_d1_def demo_eval NewService_def upd_obj_def close_client_def Client_Close_def)

lemma demo_d3_sel:
  "sessions (d_mgr demo_d3) = [''u@h'' \<mapsto> 1]" "forwards (d_fwd demo_d3) = Map.empty"
  "GetStatus (objs (d_mgr demo_d3) 1) = StatusConnected" "netOpen (d_mgr demo_d3) = {1}"
  "d_loops demo_d3 = [\<lparr>wl_sess = 0, wl_ctx = 0, wl_backoff = initialBackoff\<rparr>]"
  "GetStatus (objs (d_mgr demo_d3) 0) = StatusDisconnected" "GetName (objs (d_mgr demo_d3) 0) = ''u@h''"
  "watched (d_mon demo_d3) = [''u@h'' \<mapsto> 0]" "cancelled (d_mon demo_d3) = {}"
  by (simp_all add: demo_d3_def demo_d2_def demo_d1_def demo_eval NewService_def upd_obj_def close_client_def Client_Close_def)


definition demo_d4 :: daemon where
  "demo_d4 = demo_d3\<lparr>d_mon := StopWatch ''u@h'' (d_mon demo_d3), d_loops := d_loops demo_d3\<rparr>"

lemma demo_reach: "daemon_step\<^sup>*\<^sup>* (NewServer None) demo_d4"
proof -
  have ns: "\<not> is_stream (NewImsg MsgKill [])" "\<not> is_stream (NewImsg MsgConnect [])"
    by (simp_all add: is_stream_def NewImsg_def MsgKill_def MsgConnect_def MsgExecStream_def MsgLocalExecStream_def)
  obtain r2 where r2: "dispatch (demo_senv [''u@h''] (JObj [])) (NewImsg MsgKill []) demo_d1 = (Some r2, demo_d2)"
    using demo_runs(2) by (auto simp: demo_d2_def prod_eq_iff)
  have "env_ok (demo_senv [''u@h''] (JObj [])) demo_d1" by (simp add: env_ok_def demo_d1_sel range_order_def)
  then have s2: "daemon_step demo_d1 demo_d2" using step_dispatch[OF _ demo_guard_fits ns(1) r2] by blast
  obtain r3 where r3: "dispatch demo_connect_env (NewImsg MsgConnect []) demo_d2 = (Some r3, demo_d3)"
    using demo_runs(3) by (auto simp: demo_d3_def prod_eq_iff)
  have "env_ok demo_connect_env demo_d2" by (simp add: env_ok_def demo_d2_sel)
  then have s3: "daemon_step demo_d2 demo_d3"
    using step_dispatch[OF _ _ ns(2) r3] demo_guard_fits by (simp add: demo_connect_env_def)
  have T: "monitorLoop_turn \<lparr>dial = (\<lambda>n u h p a. None), close_err = (\<lambda>_. None)\<rparr> demo_fnet [] Silent True (d_loops demo_d3 ! 0) (mon_part demo_d3) =
     (Some monitorInterval, d_loops demo_d3 ! 0, (mon_part demo_d3)\<lparr>ms_mon := StopWatch ''u@h'' (d_mon demo_d3)\<rparr>)"
    by (simp add: monitorLoop_turn_def checkAndReconnect_def demo_d3_sel mon_part_def Let_def)
  have "daemon_step demo_d3 demo_d4"
    using background[OF turn[OF _ _ T]] by (simp add: demo_d3_sel demo_d4_def mon_part_def)
  then show ?thesis using demo_d1_step s2 s3 by (meson converse_rtranclp_into_rtranclp rtranclp.rtrancl_refl)
qed

text \<open>
  C39: killing the default session without naming it loses the monitoring of its successor.  The
  daemon can reach a state, by connecting, killing with an empty name, connecting again to the same
  host and one turn of the old monitor goroutine, in which the new session is registered, default
  and connected, but no goroutine watches it and its name is not watched: if its connection dies it
  is not reconnected.  The handler stops the watch of the empty name, not of the session killed.
\<close>

theorem kill_default_loses_monitor:
  "\<exists>d r. daemon_step\<^sup>*\<^sup>* (NewServer None) d \<and> sessions (d_mgr d) = [''u@h'' \<mapsto> r]
     \<and> GetStatus (objs (d_mgr d) r) = StatusConnected \<and> netOpen (d_mgr d) \<noteq> {}
     \<and> watched (d_mon d) = Map.empty \<and> r \<notin> wl_sess ` set (d_loops d)"
proof (intro exI conjI)
  show "daemon_step\<^sup>*\<^sup>* (NewServer None) demo_d4" by (rule demo_reach)
  show "sessions (d_mgr demo_d4) = [''u@h'' \<mapsto> 1]" "GetStatus (objs (d_mgr demo_d4) 1) = StatusConnected"
    "netOpen (d_mgr demo_d4) \<noteq> {}" "watched (d_mon demo_d4) = Map.empty" "1 \<notin> wl_sess ` set (d_loops demo_d4)"
    by (simp_all add: demo_d4_def demo_d3_sel StopWatch_def del: One_nat_def)
qed

end
