(* ===== verification/Rpc_Client.thy ===== *)
theory Rpc_Client
  imports Daemon_Server Peer_Cred
begin

text \<open>
  \<open>cmd/gssh/client.go\<close>: how a command reaches the daemon (starting it when allowed), sends a
  request and reads the reply or the stream of output.  The properties connect it with the model
  of the daemon: what a request carries out there is what comes back here.
\<close>

section \<open>Dialling\<close>

text \<open>
  One attempt to dial: the file system as \<open>Validate\<close> sees it, what the dial returns (a connection),
  and what the platform says of the peer's credentials.
\<close>

record dial_env =
  de_sock :: sock_env
  de_dial :: "conn res"
  de_peer :: peer_env

definition rpcTimeout :: int where "rpcTimeout = 10 * 1000000000"
definition connectRPCTimeout :: int where "connectRPCTimeout = 30 * 1000000000"
definition socketDeadlineBuffer :: int where "socketDeadlineBuffer = 30 * 1000000000"
definition daemonReadyTimeout :: int where "daemonReadyTimeout = 5 * 1000000000"

definition dialOnce :: "dial_env \<Rightarrow> string \<Rightarrow> conn res" where
  "dialOnce D path =
     (case Validate (de_sock D) path of
        Some e \<Rightarrow> Inl e
      | None \<Rightarrow>
          (case de_dial D of
             Inl e \<Rightarrow> Inl e
           | Inr c \<Rightarrow> (case verifyDaemonPeer (Geteuid (de_sock D)) (de_peer D) of Some e \<Rightarrow> Inl e | None \<Rightarrow> Inr c)))"

definition isRecoverableDialError :: "go_err \<Rightarrow> bool" where
  "isRecoverableDialError e \<longleftrightarrow> err_is ENOENT e \<or> err_is ECONNREFUSED e"

text \<open>Starting the daemon: the outcomes of the calls it takes, in order.\<close>

record start_env =
  se_Executable :: "string res"
  se_MkdirAll :: "string \<Rightarrow> go_err option"
  se_OpenLog :: "string \<Rightarrow> go_err option"
  se_OpenNull :: "go_err option"
  se_Start :: "go_cmd \<Rightarrow> go_err option"

definition daemonLogPath :: "sock_env \<Rightarrow> string" where
  "daemonLogPath env =
     (case sk_UserHomeDir env of
        Inr h \<Rightarrow> if h \<noteq> '''' then path_join [h, ''.gssh'', ''server.log'']
                 else path_join [TempDir env, ''gssh-'' @ Itoa (Getuid env) @ ''-server.log'']
      | Inl _ \<Rightarrow> path_join [TempDir env, ''gssh-'' @ Itoa (Getuid env) @ ''-server.log''])"

text \<open>\<open>startDaemon\<close>: the error, and the command it started if it got that far.\<close>

definition startDaemon :: "start_env \<Rightarrow> sock_env \<Rightarrow> string \<Rightarrow> go_err option \<times> go_cmd option" where
  "startDaemon S env path =
     (case se_Executable S of
        Inl e \<Rightarrow> (Some e, None)
      | Inr self \<Rightarrow>
          (case se_MkdirAll S (Dir (daemonLogPath env)) of
             Some e \<Rightarrow> (Some e, None)
           | None \<Rightarrow>
               (case se_OpenLog S (daemonLogPath env) of
                  Some e \<Rightarrow> (Some e, None)
                | None \<Rightarrow>
                    (case se_OpenNull S of
                       Some e \<Rightarrow> (Some e, None)
                     | None \<Rightarrow>
                         let cmd = setDetachAttrs (sk_GOOS env) \<lparr>cm_Args = [self, ''server'', ''-S'', path], cm_Setsid = False\<rparr> in
                         (case se_Start S cmd of Some e \<Rightarrow> (Some e, None) | None \<Rightarrow> (None, Some cmd))))))"

text \<open>
  \<open>waitForDaemon\<close>: \<open>A k\<close> is the \<open>k\<close>-th attempt, \<open>now k\<close> the clock after it.  The result is undefined
  (\<open>None\<close>) only if the clock never passes the deadline.
\<close>

partial_function (option) waitForDaemon ::
  "(nat \<Rightarrow> dial_env) \<Rightarrow> (nat \<Rightarrow> int) \<Rightarrow> int \<Rightarrow> sock_env \<Rightarrow> string \<Rightarrow> nat \<Rightarrow> conn res option" where
  "waitForDaemon A now deadline env path k =
     (case dialOnce (A k) path of
        Inr c \<Rightarrow> Some (Inr c)
      | Inl e \<Rightarrow>
          if deadline < now k
          then Some (Inl (Errorf ''daemon did not become ready (see %s): %w'' [AStr (daemonLogPath env), AErr e]))
          else waitForDaemon A now deadline env path (Suc k))"

record rpc_env =
  rc_allowAutoStart :: bool
  rc_path :: string
  rc_env :: sock_env
  rc_start :: start_env
  rc_attempt :: "nat \<Rightarrow> dial_env"
  rc_clock :: "nat \<Rightarrow> int"
  rc_deadline :: "int \<Rightarrow> go_err option"
  rc_marshal :: "json \<Rightarrow> byte list res"
  rc_parse :: "byte list \<Rightarrow> json res"
  rc_unbase64 :: "string \<Rightarrow> string option"
  rc_answers :: "byte list \<Rightarrow> byte list"

text \<open>
  \<open>dialDaemon\<close>: the connection, and whether a daemon was started.  Attempt 0 is the first dial, the
  clock before the polling is \<open>rc_clock 0\<close>.
\<close>

definition dialDaemon :: "rpc_env \<Rightarrow> conn res option \<times> go_cmd option" where
  "dialDaemon C =
     (case dialOnce (rc_attempt C 0) (rc_path C) of
        Inr c \<Rightarrow> (Some (Inr c), None)
      | Inl e \<Rightarrow>
          if \<not> rc_allowAutoStart C
          then (Some (Inl (Errorf ''failed to connect to daemon (is it running?): %w'' [AErr e])), None)
          else if \<not> isRecoverableDialError e then (Some (Inl e), None)
          else (case startDaemon (rc_start C) (rc_env C) (rc_path C) of
                  (Some serr, s) \<Rightarrow> (Some (Inl (Errorf ''failed to start daemon: %w'' [AErr serr])), s)
                | (None, s) \<Rightarrow>
                    (waitForDaemon (rc_attempt C) (rc_clock C) (rc_clock C 0 + daemonReadyTimeout)
                       (rc_env C) (rc_path C) 1, s)))"

section \<open>Requests\<close>

text \<open>
  \<open>rc_answers sent\<close> is what arrives from the daemon after \<open>sent\<close> has been sent, before the deadline.
  \<open>None\<close>: the dial never returns.
\<close>

definition unmarshal :: "rpc_env \<Rightarrow> (json \<Rightarrow> 'a option) \<Rightarrow> byte list \<Rightarrow> 'a res" where
  "unmarshal C dec data =
     (case rc_parse C data of
        Inl e \<Rightarrow> Inl e
      | Inr j \<Rightarrow> (case dec j of None \<Rightarrow> Inl (ExtErr ''json: cannot unmarshal'') | Some p \<Rightarrow> Inr p))"

definition read_reply :: "rpc_env \<Rightarrow> byte list \<Rightarrow> byte list res" where
  "read_reply C received =
     (case ReadMessage received of
        Inl e \<Rightarrow> Inl (Errorf ''failed to read response: %w'' [AErr e])
      | Inr (resp, _) \<Rightarrow>
          if Type resp = MsgError
          then (case unmarshal C dec_ErrorPayload (Payload resp) of
                  Inl _ \<Rightarrow> Inl (Errorf ''RPC error (unparseable)'' [])
                | Inr p \<Rightarrow> Inl (Errorf ''RPC error: %s'' [AStr (pe_Message p)]))
          else Inr (Payload resp))"

definition send_on :: "rpc_env \<Rightarrow> conn \<Rightarrow> 16 word \<Rightarrow> json option \<Rightarrow> conn res" where
  "send_on C c meth params =
     (case (case params of None \<Rightarrow> Inr [] | Some j \<Rightarrow> rc_marshal C j) of
        Inl e \<Rightarrow> Inl (Errorf ''failed to encode params: %w'' [AErr e])
      | Inr payload \<Rightarrow>
          (case WriteMessage conn_write c (NewImsg meth payload) of
             (Some e, c1) \<Rightarrow> Inl (Errorf ''failed to send request: %w'' [AErr e])
           | (None, c1) \<Rightarrow> Inr c1))"

definition sendRequestWithTimeout :: "rpc_env \<Rightarrow> 16 word \<Rightarrow> json option \<Rightarrow> int \<Rightarrow> byte list res option" where
  "sendRequestWithTimeout C meth params deadline =
     (case fst (dialDaemon C) of
        None \<Rightarrow> None
      | Some (Inl e) \<Rightarrow> Some (Inl e)
      | Some (Inr c) \<Rightarrow>
          (case rc_deadline C deadline of
             Some e \<Rightarrow> Some (Inl (Errorf ''failed to set RPC deadline: %w'' [AErr e]))
           | None \<Rightarrow>
               (case send_on C c meth params of
                  Inl e \<Rightarrow> Some (Inl e)
                | Inr c1 \<Rightarrow> Some (read_reply C (rc_answers C (tx c1))))))"

definition sendRequest :: "rpc_env \<Rightarrow> 16 word \<Rightarrow> json option \<Rightarrow> byte list res option" where
  "sendRequest C meth params = sendRequestWithTimeout C meth params rpcTimeout"

text \<open>The deadline, a 64-bit duration.\<close>

definition cmd_deadline :: "int \<Rightarrow> int" where
  "cmd_deadline secs = sint (word_of_int secs * 1000000000 + word_of_int socketDeadlineBuffer :: 64 word)"

definition sendRequestWithCmdTimeout :: "rpc_env \<Rightarrow> 16 word \<Rightarrow> json option \<Rightarrow> int \<Rightarrow> byte list res option" where
  "sendRequestWithCmdTimeout C meth params secs =
     sendRequestWithTimeout C meth params (if secs > 0 then cmd_deadline secs else rpcTimeout)"

section \<open>Streams\<close>

fun dec_StreamChunk :: "(string \<Rightarrow> string option) \<Rightarrow> json \<Rightarrow> (string \<times> string) option" where
  "dec_StreamChunk unb64 (JObj ms) =
     bind_opt (fstr ''stream'' ms) (\<lambda>s.
     bind_opt (field (\<lambda>j. case j of JStr x \<Rightarrow> unb64 x | _ \<Rightarrow> None) ''data'' '''' ms) (\<lambda>d. Some (s, d)))"
| "dec_StreamChunk unb64 JNull = Some ('''', '''')"
| "dec_StreamChunk unb64 _ = None"

text \<open>How a command of the client ends: its handler returns, exits the process, or panics.\<close>

datatype finish = Returned "go_err option" | Exited int | Panicked

function (sequential) stream_loop :: "rpc_env \<Rightarrow> byte list \<Rightarrow> string \<Rightarrow> string \<Rightarrow> finish \<times> string \<times> string" where
  "stream_loop C received out err =
     (case ReadMessage received of
        Inl e \<Rightarrow> (Returned (Some (Errorf ''failed to read stream: %w'' [AErr e])), out, err)
      | Inr (msg, rest) \<Rightarrow>
          if Type msg = MsgStreamChunk then
            (case unmarshal C (dec_StreamChunk (rc_unbase64 C)) (Payload msg) of
               Inl e \<Rightarrow> (Returned (Some (Errorf ''failed to decode chunk: %w'' [AErr e])), out, err)
             | Inr (stream, data) \<Rightarrow>
                 if stream = ''stderr'' then stream_loop C rest out (err @ data)
                 else stream_loop C rest (out @ data) err)
          else if Type msg = MsgStreamEnd then
            (case unmarshal C dec_StreamEnd (Payload msg) of
               Inl e \<Rightarrow> (Returned (Some (Errorf ''failed to decode stream end: %w'' [AErr e])), out, err)
             | Inr end' \<Rightarrow>
                 if se_Error end' \<noteq> '''' then (Returned (Some (Errorf ''%s'' [AStr (se_Error end')])), out, err)
                 else if se_ExitCode end' \<noteq> 0 then (Exited (se_ExitCode end'), out, err)
                 else (Returned None, out, err))
          else if Type msg = MsgError then
            (case unmarshal C dec_ErrorPayload (Payload msg) of
               Inl _ \<Rightarrow> (Returned (Some (Errorf ''RPC error (unparseable)'' [])), out, err)
             | Inr p \<Rightarrow> (Returned (Some (Errorf ''RPC error: %s'' [AStr (pe_Message p)])), out, err))
          else (Returned (Some (Errorf ''unexpected message type during stream: %d'' [AInt (uint (Type msg))])), out, err))"
  by pat_completeness auto

termination
  by (relation "measure (\<lambda>(C, r, out, err). length r)") (auto dest: ReadMessage_shorter)

declare stream_loop.simps [simp del]

definition sendStreamRequest :: "rpc_env \<Rightarrow> 16 word \<Rightarrow> json \<Rightarrow> int \<Rightarrow> (finish \<times> string \<times> string) option" where
  "sendStreamRequest C meth params secs =
     (case fst (dialDaemon C) of
        None \<Rightarrow> None
      | Some (Inl e) \<Rightarrow> Some (Returned (Some e), '''', '''')
      | Some (Inr c) \<Rightarrow>
          (case (if secs > 0 then rc_deadline C (cmd_deadline secs) else None) of
             Some e \<Rightarrow> Some (Returned (Some (Errorf ''failed to set deadline: %w'' [AErr e])), '''', '''')
           | None \<Rightarrow>
               (case send_on C c meth (Some params) of
                  Inl e \<Rightarrow> Some (Returned (Some e), '''', '''')
                | Inr c1 \<Rightarrow> Some (stream_loop C (rc_answers C (tx c1)) '''' ''''))))"


section \<open>Lemmas: dialling\<close>

lemma dialOnce_ok:
  "dialOnce D path = Inr c \<longleftrightarrow> Validate (de_sock D) path = None \<and> de_dial D = Inr c \<and> verifyDaemonPeer (Geteuid (de_sock D)) (de_peer D) = None"
  by (auto simp: dialOnce_def split: option.splits sum.splits)

lemma waitForDaemon_sound:
  assumes "waitForDaemon A now deadline env path k = Some r" "r = Inr c"
  shows "\<exists>j\<ge>k. dialOnce (A j) path = Inr c"
proof -
  have "\<forall>c. r = Inr c \<longrightarrow> (\<exists>j\<ge>k. dialOnce (A j) path = Inr c)"
  proof (rule waitForDaemon.raw_induct[OF _ assms(1)])
    fix W A now deadline env path k r
    assume IH: "\<And>A now deadline env path k r. W A now deadline env path k = Some r \<Longrightarrow>
        \<forall>c. r = Inr c \<longrightarrow> (\<exists>j\<ge>k. dialOnce (A j) path = Inr c)"
      and B: "(case dialOnce (A k) path of
          Inl e \<Rightarrow> if deadline < now k
            then Some (Inl (Errorf ''daemon did not become ready (see %s): %w'' [AStr (daemonLogPath env), AErr e]))
            else W A now deadline env path (Suc k)
        | Inr c \<Rightarrow> Some (Inr c)) = Some r"
    show "\<forall>c. r = Inr c \<longrightarrow> (\<exists>j\<ge>k. dialOnce (A j) path = Inr c)"
    proof (cases "dialOnce (A k) path")
      case (Inl e)
      then have "r = Inl (Errorf ''daemon did not become ready (see %s): %w'' [AStr (daemonLogPath env), AErr e])
          \<or> W A now deadline env path (Suc k) = Some r" using B by (auto split: if_splits)
      then show ?thesis using IH Suc_leD by blast
    qed (use B in auto)
  qed
  then show ?thesis using assms(2) by blast
qed

text \<open>Polling ends at the first attempt after the deadline at the latest.\<close>

lemma waitForDaemon_ends:
  "k \<le> j \<Longrightarrow> deadline < now j \<Longrightarrow> waitForDaemon A now deadline env path k \<noteq> None"
proof (induction "j - k" arbitrary: k)
  case 0
  then show ?case by (subst waitForDaemon.simps) (auto split: sum.splits)
next
  case (Suc n)
  then have "waitForDaemon A now deadline env path (Suc k) \<noteq> None" by simp
  then show ?case by (subst waitForDaemon.simps) (auto split: sum.splits)
qed

section \<open>Lemmas: exchanges\<close>

text \<open>\<open>carried C E j\<close>: the JSON library carries the value \<open>j\<close> from the daemon to the client in one frame.\<close>

definition carried :: "rpc_env \<Rightarrow> senv \<Rightarrow> json \<Rightarrow> bool" where
  "carried C E j \<longleftrightarrow> rc_parse C (sv_marshal E j) = Inr j \<and> length (sv_marshal E j) \<le> MaxPayloadSize"

lemma frame_ok_NewImsg: "length p \<le> MaxPayloadSize \<Longrightarrow> frame_ok (NewImsg t p)"
  by (simp add: frame_ok_def NewImsg_def)

lemma NewImsg_sel [simp]: "Type (NewImsg t p) = t" "Payload (NewImsg t p) = p"
  by (simp_all add: NewImsg_def)

lemma rt_StreamChunk:
  "unb64 (b64 d) = Some d \<Longrightarrow> dec_StreamChunk unb64 (enc_StreamChunk b64 s d) = Some (s, d)"
  by (simp add: enc_StreamChunk_def field_rules)

lemma send_chunks_tx:
  assumes "\<forall>(b, d)\<in>set cs. frame_ok (chunk_msg E b d)" "\<not> conn_closed c"
  shows "send_chunks E cs False False c = c\<lparr>tx := tx c @ concat (map (\<lambda>(b, d). frame (chunk_msg E b d)) cs)\<rparr>"
  using assms
proof (induction cs arbitrary: c)
  case (Cons x cs)
  then show ?case by (cases x) (simp add: WriteMessage_open)
qed simp

lemma stream_loop_chunk:
  assumes "carried C E (enc_StreamChunk (sv_base64 E) (if b then ''stdout'' else ''stderr'') d)"
    "rc_unbase64 C (sv_base64 E d) = Some d"
  shows "stream_loop C (frame (chunk_msg E b d) @ rest) out err =
    (if b then stream_loop C rest (out @ d) err else stream_loop C rest out (err @ d))"
proof -
  have "frame_ok (chunk_msg E b d)"
    using assms(1) by (auto simp: carried_def chunk_msg_def EncodePayload_def intro: frame_ok_NewImsg)
  then have R: "ReadMessage (frame (chunk_msg E b d) @ rest) = Inr (chunk_msg E b d, rest)" by (rule ReadMessage_frame)
  have U: "unmarshal C (dec_StreamChunk (rc_unbase64 C)) (Payload (chunk_msg E b d)) =
      Inr (if b then ''stdout'' else ''stderr'', d)"
    using assms rt_StreamChunk[of "rc_unbase64 C" "sv_base64 E" d]
    by (auto simp: unmarshal_def chunk_msg_def EncodePayload_def carried_def)
  have T: "Type (chunk_msg E b d) = MsgStreamChunk" by (simp add: chunk_msg_def)
  show ?thesis by (subst stream_loop.simps) (auto simp: R T U)
qed

definition stdout_of :: "(bool \<times> string) list \<Rightarrow> string" where
  "stdout_of cs = concat (map snd (filter fst cs))"

definition stderr_of :: "(bool \<times> string) list \<Rightarrow> string" where
  "stderr_of cs = concat (map snd (filter (\<lambda>x. \<not> fst x) cs))"

lemma stream_loop_chunks:
  assumes "\<forall>(b, d)\<in>set cs. carried C E (enc_StreamChunk (sv_base64 E) (if b then ''stdout'' else ''stderr'') d)
      \<and> rc_unbase64 C (sv_base64 E d) = Some d"
  shows "stream_loop C (concat (map (\<lambda>(b, d). frame (chunk_msg E b d)) cs) @ rest) out err =
    stream_loop C rest (out @ stdout_of cs) (err @ stderr_of cs)"
  using assms
proof (induction cs arbitrary: out err)
  case (Cons x cs)
  obtain b d where x: "x = (b, d)" by (cases x)
  then show ?case using Cons stream_loop_chunk[of C E b d] by (auto simp: stdout_of_def stderr_of_def)
qed (simp add: stdout_of_def stderr_of_def)


text \<open>
  What a daemon in state \<open>d\<close> sends back for what it received; \<open>sends C E j\<close>: the JSON library carries
  the parameters \<open>j\<close> from the client to the daemon in one frame; \<open>dialled C\<close>: the client has a
  connection with nothing sent yet, and deadlines can be set.
\<close>

definition daemon_answers :: "senv \<Rightarrow> daemon \<Rightarrow> byte list \<Rightarrow> byte list" where
  "daemon_answers E d sent =
     (case ReadMessage sent of
        Inl _ \<Rightarrow> []
      | Inr (msg, rest) \<Rightarrow>
          (case serve_message E msg \<lparr>rx = rest, tx = [], conn_closed = False\<rparr> d of
             None \<Rightarrow> [] | Some (_, c, _) \<Rightarrow> tx c))"

definition sends :: "rpc_env \<Rightarrow> senv \<Rightarrow> json \<Rightarrow> byte list \<Rightarrow> bool" where
  "sends C E j payload \<longleftrightarrow> rc_marshal C j = Inr payload \<and> length payload \<le> MaxPayloadSize \<and> sv_parse E payload = Inr j"

definition dialled :: "rpc_env \<Rightarrow> bool" where
  "dialled C \<longleftrightarrow> (\<exists>r. fst (dialDaemon C) = Some (Inr \<lparr>rx = r, tx = [], conn_closed = False\<rparr>)) \<and> (\<forall>t. rc_deadline C t = None)"

lemma send_on_sends:
  assumes "sends C E j payload"
  shows "send_on C \<lparr>rx = r, tx = [], conn_closed = False\<rparr> meth (Some j) =
    Inr \<lparr>rx = r, tx = frame (NewImsg meth payload), conn_closed = False\<rparr>"
  using assms WriteMessage_open[OF frame_ok_NewImsg, of payload "\<lparr>rx = r, tx = [], conn_closed = False\<rparr>" meth]
  by (simp add: send_on_def sends_def)

lemma daemon_answers_frame:
  assumes "length payload \<le> MaxPayloadSize"
    "serve_message E (NewImsg meth payload) \<lparr>rx = [], tx = [], conn_closed = False\<rparr> d = Some (b, c, d')"
  shows "daemon_answers E d (frame (NewImsg meth payload)) = tx c"
  using ReadMessage_frame[OF frame_ok_NewImsg[OF assms(1)], of meth "[]"] assms(2) by (simp add: daemon_answers_def)

text \<open>The last message of a stream.\<close>

definition end_of :: "senv \<Rightarrow> streamed \<Rightarrow> StreamEnd" where
  "end_of E s = \<lparr>se_ExitCode = st_code s, se_Error = (case st_err s of None \<Rightarrow> '''' | Some e \<Rightarrow> sv_text E e)\<rparr>"

lemma stream_loop_end:
  assumes "int_ok (st_code s)" "carried C E (enc_StreamEnd (end_of E s))" "\<forall>e. st_err s = Some e \<longrightarrow> sv_text E e \<noteq> ''''"
  shows "stream_loop C (frame (NewImsg MsgStreamEnd (EncodePayload E (enc_StreamEnd (end_of E s))))) out err =
    (case st_err s of
       Some e \<Rightarrow> Returned (Some (Errorf ''%s'' [AStr (sv_text E e)]))
     | None \<Rightarrow> if st_code s = 0 then Returned None else Exited (st_code s), out, err)"
proof -
  let ?m = "NewImsg MsgStreamEnd (EncodePayload E (enc_StreamEnd (end_of E s)))"
  have "frame_ok ?m" using assms(2) by (simp add: frame_ok_NewImsg carried_def EncodePayload_def)
  then have R: "ReadMessage (frame ?m) = Inr (?m, [])" using ReadMessage_frame[of ?m "[]"] by simp
  have "dec_StreamEnd (enc_StreamEnd (end_of E s)) = Some (end_of E s)"
    using assms(1) by (intro rt_StreamEnd) (simp add: end_of_def)
  then have U: "unmarshal C dec_StreamEnd (Payload ?m) = Inr (end_of E s)"
    using assms(2) by (simp add: unmarshal_def carried_def EncodePayload_def)
  have T: "Type ?m = MsgStreamEnd" "MsgStreamEnd \<noteq> MsgStreamChunk" by (simp_all add: MsgStreamEnd_def MsgStreamChunk_def)
  have F: "se_Error (end_of E s) = (case st_err s of None \<Rightarrow> '''' | Some e \<Rightarrow> sv_text E e)" "se_ExitCode (end_of E s) = st_code s"
    by (simp_all add: end_of_def)
  show ?thesis
    by (subst stream_loop.simps, cases "st_err s") (use assms(3) U in \<open>simp_all add: R T(2) F\<close>)
qed

text \<open>A request that is served comes back as what the client makes of the daemon's reply.\<close>

lemma request_answer:
  assumes "dialled C" "rc_answers C = daemon_answers E d" "sends C E j payload" "guard_fits E"
    "\<not> is_stream (NewImsg meth payload)" "dispatch E (NewImsg meth payload) d = (Some r, d')"
  shows "sendRequestWithTimeout C meth (Some j) deadline = Some (read_reply C (frame (final_reply E r)))"
    and "ReadMessage (frame (final_reply E r)) = Inr (final_reply E r, [])"
proof -
  obtain x where D: "fst (dialDaemon C) = Some (Inr \<lparr>rx = x, tx = [], conn_closed = False\<rparr>)" "\<And>t. rc_deadline C t = None"
    using assms(1) by (auto simp: dialled_def)
  have L: "length payload \<le> MaxPayloadSize" using assms(3) by (simp add: sends_def)
  have A: "rc_answers C (frame (NewImsg meth payload)) = frame (final_reply E r)"
    using daemon_answers_frame[OF L serve_message_answers[OF assms(4) _ assms(5,6), of "\<lparr>rx = [], tx = [], conn_closed = False\<rparr>"]]
      assms(2) by simp
  show "sendRequestWithTimeout C meth (Some j) deadline = Some (read_reply C (frame (final_reply E r)))"
    using D send_on_sends[OF assms(3), of x meth] A by (simp add: sendRequestWithTimeout_def)
  have "frame_ok (final_reply E r)" using final_reply_ok[OF assms(4,6)] by blast
  then show "ReadMessage (frame (final_reply E r)) = Inr (final_reply E r, [])"
    using ReadMessage_frame[of "final_reply E r" "[]"] by simp
qed

lemma request_ok:
  assumes "dialled C" "rc_answers C = daemon_answers E d" "sends C E j payload" "guard_fits E"
    "\<not> is_stream (NewImsg meth payload)" "dispatch E (NewImsg meth payload) d = (Some (Inr m), d')"
    "length (Payload m) \<le> MaxPayloadSize"
  shows "sendRequestWithTimeout C meth (Some j) deadline = Some (Inr (Payload m))"
proof -
  have f: "final_reply E (Inr m) = m" using assms(7) by (simp add: final_reply_def)
  have "Type m \<noteq> MsgError"
    using dispatch_reply[OF assms(6)] by (auto simp: result_reply_def MsgResult_def MsgError_def MsgPong_def split: if_splits)
  then show ?thesis using request_answer(1)[OF assms(1-6), of deadline] request_answer(2)[OF assms(1-6)] by (simp add: f read_reply_def)
qed

lemma request_round:
  assumes "dialled C" "rc_answers C = daemon_answers E d" "sends C E j payload" "guard_fits E"
    "\<not> is_stream (NewImsg meth payload)" "dispatch E (NewImsg meth payload) d = (Some r, d')"
    "\<forall>x. x = too_large \<or> (\<exists>e. r = Inl e \<and> x = sv_text E e) \<longrightarrow>
       carried C E (enc_ErrorPayload \<lparr>pe_Code = -32000, pe_Message = x\<rparr>)"
  shows "sendRequestWithTimeout C meth (Some j) deadline = Some (case r of
      Inl e \<Rightarrow> Inl (Errorf ''RPC error: %s'' [AStr (sv_text E e)])
    | Inr m \<Rightarrow> if length (Payload m) \<le> MaxPayloadSize then Inr (Payload m)
               else Inl (Errorf ''RPC error: %s'' [AStr too_large]))"
proof -
  let ?f = "final_reply E r"
  note R = request_answer(2)[OF assms(1-6)] and send = request_answer(1)[OF assms(1-6), of deadline]
  have err: "read_reply C (frame ?f) = Inl (Errorf ''RPC error: %s'' [AStr y])"
    if "?f = error_reply E y" "carried C E (enc_ErrorPayload \<lparr>pe_Code = -32000, pe_Message = y\<rparr>)" for y
    using that R rt_ErrorPayload[of "\<lparr>pe_Code = -32000, pe_Message = y\<rparr>"]
    by (simp add: read_reply_def error_reply_def unmarshal_def carried_def int_ok_def)
  show ?thesis
  proof (cases r)
    case (Inl e)
    then have c: "carried C E (enc_ErrorPayload \<lparr>pe_Code = -32000, pe_Message = sv_text E e\<rparr>)" using assms(7) by blast
    then have "?f = error_reply E (sv_text E e)" using Inl by (simp add: final_reply_def error_reply_def carried_def)
    then show ?thesis using err[OF _ c] send Inl by simp
  next
    case (Inr m)
    show ?thesis
    proof (cases "length (Payload m) \<le> MaxPayloadSize")
      case True
      then show ?thesis using request_ok[OF assms(1-5)] assms(6) Inr by simp
    next
      case False
      then have "?f = error_reply E too_large" using Inr by (simp add: final_reply_def)
      then show ?thesis using err[of too_large] assms(7) send Inr False by auto
    qed
  qed
qed

lemma stream_round:
  assumes "dialled C" "rc_answers C = daemon_answers E d" "sends C E (enc_ExecParams p) payload" "int_ok (ep_Timeout p)"
    "ExecStream (sv_machine E) (ep_Name p) (ep_Command p) (ep_Timeout p) (Some (ep_Sudo p)) (d_mgr d) = (Some s, m')"
    "stdout_of (sv_chunks E (st_out s) (st_errout s)) = st_out s" "stderr_of (sv_chunks E (st_out s) (st_errout s)) = st_errout s"
    "\<forall>b y. (b, y) \<in> set (sv_chunks E (st_out s) (st_errout s)) \<longrightarrow>
       carried C E (enc_StreamChunk (sv_base64 E) (if b then ''stdout'' else ''stderr'') y) \<and> rc_unbase64 C (sv_base64 E y) = Some y"
    "int_ok (st_code s)" "carried C E (enc_StreamEnd (end_of E s))" "\<forall>e. st_err s = Some e \<longrightarrow> sv_text E e \<noteq> ''''"
  shows "sendStreamRequest C MsgExecStream (enc_ExecParams p) secs = Some
    (case st_err s of
       Some e \<Rightarrow> Returned (Some (Errorf ''%s'' [AStr (sv_text E e)]))
     | None \<Rightarrow> if st_code s = 0 then Returned None else Exited (st_code s), st_out s, st_errout s)"
proof -
  obtain x where D: "fst (dialDaemon C) = Some (Inr \<lparr>rx = x, tx = [], conn_closed = False\<rparr>)" "\<And>t. rc_deadline C t = None"
    using assms(1) by (auto simp: dialled_def)
  let ?cs = "sv_chunks E (st_out s) (st_errout s)" and ?c0 = "\<lparr>rx = [], tx = [], conn_closed = False\<rparr>"
  let ?fin = "NewImsg MsgStreamEnd (EncodePayload E (enc_StreamEnd (end_of E s)))"
  have eok: "frame_ok ?fin" using assms(10) by (simp add: frame_ok_NewImsg carried_def EncodePayload_def)
  have "\<forall>(b, y)\<in>set ?cs. frame_ok (chunk_msg E b y)"
    using assms(8) by (auto simp: chunk_msg_def EncodePayload_def carried_def intro: frame_ok_NewImsg)
  then have R: "fst (stream_reply E n cmd s ?c0 d1) = ?c0\<lparr>tx := concat (map (\<lambda>(b, y). frame (chunk_msg E b y)) ?cs) @ frame ?fin\<rparr>" for n cmd d1
    using send_chunks_tx[of ?cs E ?c0] WriteMessage_open[OF eok]
    by (simp add: stream_reply_def sendStreamEnd_def end_of_def Let_def)
  have P: "DecodePayload E dec_ExecParams payload = Inr p"
    using assms(3,4) by (simp add: DecodePayload_def sends_def rt_ExecParams)
  have "\<exists>c' d'. serve_message E (NewImsg MsgExecStream payload) ?c0 d = Some (True, c', d')
      \<and> tx c' = concat (map (\<lambda>(b, y). frame (chunk_msg E b y)) ?cs) @ frame ?fin"
    using R[of "ep_Name p" "ep_Command p" "d\<lparr>d_mgr := m'\<rparr>"] P assms(5)
    by (cases "stream_reply E (ep_Name p) (ep_Command p) s ?c0 (d\<lparr>d_mgr := m'\<rparr>)")
      (auto simp: serve_message_def handleExecStream_def)
  then have A: "rc_answers C (frame (NewImsg MsgExecStream payload)) = concat (map (\<lambda>(b, y). frame (chunk_msg E b y)) ?cs) @ frame ?fin"
    using daemon_answers_frame assms(2,3) by (auto simp: sends_def)
  have "sendStreamRequest C MsgExecStream (enc_ExecParams p) secs = Some (stream_loop C (rc_answers C (frame (NewImsg MsgExecStream payload))) '''' '''')"
    using D send_on_sends[OF assms(3), of x MsgExecStream] by (simp add: sendStreamRequest_def)
  also have "\<dots> = Some (stream_loop C (frame ?fin) (st_out s) (st_errout s))"
    using A assms(6-8) stream_loop_chunks[of ?cs C E "frame ?fin" "''''" "''''"] by auto
  finally show ?thesis using stream_loop_end[OF assms(9,10,11)] by simp
qed

section \<open>Properties\<close>

text \<open>
  C16: the client talks only to the user's own daemon.  A connection that dialling returns, at the
  first attempt or after starting a daemon, was made to a socket that passed the ownership and
  permission checks and, where the kernel is asked for the peer's credentials (Linux, Darwin), over a
  Unix socket to a process of the same effective user.  A daemon is started only when that is allowed
  and the first attempt failed because there was no socket or nobody listened, and then for the same
  socket path and, but for Windows, in a session of its own; polling for it ends once the ready timeout has passed.
\<close>

theorem dial_policy:
  assumes "dialDaemon C = (res, spawned)"
  shows "(\<forall>c. res = Some (Inr c) \<longrightarrow>
      (\<exists>k. Validate (de_sock (rc_attempt C k)) (rc_path C) = None \<and> de_dial (rc_attempt C k) = Inr c
         \<and> (let P = de_peer (rc_attempt C k) in
            pv_GOOS P = OtherUnix \<or> pv_GOOS P = Windows
            \<or> (pv_unix P \<and> peer_uid P = Some (Geteuid (de_sock (rc_attempt C k)))))))
    \<and> (spawned \<noteq> None \<longrightarrow> rc_allowAutoStart C
         \<and> (\<exists>e. dialOnce (rc_attempt C 0) (rc_path C) = Inl e \<and> (err_is ENOENT e \<or> err_is ECONNREFUSED e))
         \<and> (\<exists>self. se_Executable (rc_start C) = Inr self \<and> spawned =
               Some \<lparr>cm_Args = [self, ''server'', ''-S'', rc_path C], cm_Setsid = (sk_GOOS (rc_env C) \<noteq> Windows)\<rparr>))
    \<and> ((\<exists>k\<ge>1. rc_clock C 0 + daemonReadyTimeout < rc_clock C k) \<longrightarrow> res \<noteq> None)"
proof (cases "dialOnce (rc_attempt C 0) (rc_path C)")
  case (Inr c)
  then have "res = Some (Inr c)" "spawned = None" using assms by (simp_all add: dialDaemon_def)
  then show ?thesis using Inr dialOnce_ok verifyDaemonPeer_exact by (fastforce simp: Let_def)
next
  case (Inl e)
  obtain serr s where S: "startDaemon (rc_start C) (rc_env C) (rc_path C) = (serr, s)" by fastforce
  have st: "s \<noteq> None \<Longrightarrow> \<exists>self. se_Executable (rc_start C) = Inr self \<and> s =
               Some \<lparr>cm_Args = [self, ''server'', ''-S'', rc_path C], cm_Setsid = (sk_GOOS (rc_env C) \<noteq> Windows)\<rparr>"
    using S by (auto simp: startDaemon_def Let_def detach_defs split: sum.splits option.splits)
  show ?thesis
  proof (cases "rc_allowAutoStart C \<and> isRecoverableDialError e \<and> serr = None")
    case True
    let ?w = "waitForDaemon (rc_attempt C) (rc_clock C) (rc_clock C 0 + daemonReadyTimeout) (rc_env C) (rc_path C) 1"
    have r: "res = ?w" "spawned = s" using assms Inl S True by (auto simp: dialDaemon_def)
    have "\<exists>k. dialOnce (rc_attempt C k) (rc_path C) = Inr c" if "?w = Some (Inr c)" for c
      using waitForDaemon_sound[OF that refl] by blast
    moreover have "?w \<noteq> None" if "1 \<le> k" "rc_clock C 0 + daemonReadyTimeout < rc_clock C k" for k
      using waitForDaemon_ends that by blast
    ultimately show ?thesis using r st True Inl by (fastforce simp: dialOnce_ok isRecoverableDialError_def verifyDaemonPeer_exact Let_def)
  next
    case False
    then have "(\<exists>x. res = Some (Inl x)) \<and> (spawned = None \<or> spawned = s \<and> serr \<noteq> None)"
      using assms Inl S by (auto simp: dialDaemon_def split: option.splits if_splits)
    moreover have "serr \<noteq> None \<Longrightarrow> s = None"
      using S by (auto simp: startDaemon_def Let_def split: sum.splits option.splits)
    ultimately show ?thesis by auto
  qed
qed

text \<open>
  C4: a request and its answer get through.  For every kind of request but the streaming ones, what
  the client's call returns is what the daemon's handler produced for the parameters the client
  gave: the payload of its result; for an error, an error with its text; and for a result too large
  for a frame, an error that says so.  (Assumed of the JSON library: it carries the parameters and
  the error texts.)
\<close>

theorem request_end_to_end:
  assumes "dialled C" "rc_answers C = daemon_answers E d" "sends C E j payload" "guard_fits E"
    "\<not> is_stream (NewImsg meth payload)" "dispatch E (NewImsg meth payload) d = (Some r, d')"
    "\<forall>x. x = too_large \<or> (\<exists>e. r = Inl e \<and> x = sv_text E e) \<longrightarrow>
       carried C E (enc_ErrorPayload \<lparr>pe_Code = -32000, pe_Message = x\<rparr>)"
  shows "sendRequestWithTimeout C meth (Some j) deadline = Some (case r of
      Inl e \<Rightarrow> Inl (Errorf ''RPC error: %s'' [AStr (sv_text E e)])
    | Inr m \<Rightarrow> if length (Payload m) \<le> MaxPayloadSize then Inr (Payload m)
               else Inl (Errorf ''RPC error: %s'' [AStr too_large]))"
  by (rule request_round[OF assms])

text \<open>
  C5: a streamed command's output and exit status get through.  For a streaming request the client
  writes to its standard output exactly what the command wrote to its own, likewise for standard
  error, and then fails with the daemon's error text, exits with the command's exit code, or
  returns.  (Assumed: the JSON and base64 codecs carry the parameters and the chunks, which are cut
  in any way and interleaved in any order, and the exit code is an \<open>int\<close>.)
\<close>

theorem stream_end_to_end:
  assumes "dialled C" "rc_answers C = daemon_answers E d" "sends C E (enc_ExecParams p) payload" "int_ok (ep_Timeout p)"
    "ExecStream (sv_machine E) (ep_Name p) (ep_Command p) (ep_Timeout p) (Some (ep_Sudo p)) (d_mgr d) = (Some s, m')"
    "stdout_of (sv_chunks E (st_out s) (st_errout s)) = st_out s" "stderr_of (sv_chunks E (st_out s) (st_errout s)) = st_errout s"
    "\<forall>b y. (b, y) \<in> set (sv_chunks E (st_out s) (st_errout s)) \<longrightarrow>
       carried C E (enc_StreamChunk (sv_base64 E) (if b then ''stdout'' else ''stderr'') y) \<and> rc_unbase64 C (sv_base64 E y) = Some y"
    "int_ok (st_code s)" "carried C E (enc_StreamEnd (end_of E s))" "\<forall>e. st_err s = Some e \<longrightarrow> sv_text E e \<noteq> ''''"
  shows "sendStreamRequest C MsgExecStream (enc_ExecParams p) secs = Some
    (case st_err s of
       Some e \<Rightarrow> Returned (Some (Errorf ''%s'' [AStr (sv_text E e)]))
     | None \<Rightarrow> if st_code s = 0 then Returned None else Exited (st_code s), st_out s, st_errout s)"
  by (rule stream_round[OF assms])


section \<open>Witnesses\<close>

text \<open>
  A client and a daemon that share a codec for a table of JSON values: a value is sent as its place
  in the table.  The client connects at once, or with \<open>demo_start\<close> only after it has started the daemon.
\<close>

definition table_enc :: "json list \<Rightarrow> json \<Rightarrow> byte list" where
  "table_enc tbl j = [of_nat (length (takeWhile (\<lambda>x. x \<noteq> j) tbl))]"

definition table_dec :: "json list \<Rightarrow> byte list \<Rightarrow> json res" where
  "table_dec tbl bs =
     (case bs of [b] \<Rightarrow> if unat b < length tbl then Inr (tbl ! unat b) else Inl (ExtErr ''json'') | _ \<Rightarrow> Inl (ExtErr ''json''))"

definition table_senv :: "json list \<Rightarrow> senv" where
  "table_senv tbl = (demo_senv [] JNull)\<lparr>sv_marshal := table_enc tbl, sv_parse := table_dec tbl\<rparr>"

definition demo_sock :: sock_env where
  "demo_sock = \<lparr>sk_GOOS = Linux, XDG_RUNTIME_DIR = '''', sk_UserHomeDir = Inr ''/h'', TempDir = ''/tmp'', Getuid = 7, Geteuid = 7,
     sk_Stat = (\<lambda>_. Inl (SysErr ENOENT)), sk_Lstat = (\<lambda>_. Inr \<lparr>fi_socket = True, fi_dir = False, fi_perm = 0x180, fi_uid = Some 7\<rparr>),
     sk_MkdirAll = (\<lambda>_. None), sk_Remove = (\<lambda>_. None)\<rparr>"

definition demo_dial :: "conn res \<Rightarrow> dial_env" where
  "demo_dial r = \<lparr>de_sock = demo_sock, de_dial = r,
     de_peer = \<lparr>pv_GOOS = Linux, pv_unix = True, pv_SyscallConn = None, pv_Control = None,
                pv_GetsockoptUcred = (Some 7, None), pv_GetsockoptXucred = (None, None)\<rparr>\<rparr>"

definition demo_rpc :: "json list \<Rightarrow> daemon \<Rightarrow> rpc_env" where
  "demo_rpc tbl d = \<lparr>rc_allowAutoStart = True, rc_path = ''/s'', rc_env = demo_sock,
     rc_start = \<lparr>se_Executable = Inr ''/gssh'', se_MkdirAll = (\<lambda>_. None), se_OpenLog = (\<lambda>_. None), se_OpenNull = None, se_Start = (\<lambda>_. None)\<rparr>,
     rc_attempt = (\<lambda>_. demo_dial (Inr \<lparr>rx = [], tx = [], conn_closed = False\<rparr>)),
     rc_clock = (\<lambda>k. 10000000000 * int k), rc_deadline = (\<lambda>_. None),
     rc_marshal = (\<lambda>j. Inr (table_enc tbl j)), rc_parse = table_dec tbl, rc_unbase64 = Some,
     rc_answers = daemon_answers (table_senv tbl) d\<rparr>"

definition demo_start :: rpc_env where
  "demo_start = (demo_rpc [] (NewServer None))\<lparr>rc_attempt :=
     (\<lambda>k. demo_dial (if k < 1 then Inl (SysErr ECONNREFUSED) else Inr \<lparr>rx = [], tx = [], conn_closed = False\<rparr>))\<rparr>"

lemma demo_Validate [simp]: "Validate (de_sock (demo_dial r)) p = None"
  by (simp add: Validate_def demo_dial_def demo_sock_def fileOwnerUID_def fileOwnerUID_unix_def currentUID_def)

lemma demo_dialOnce [simp]: "dialOnce (demo_dial r) p = r"
  by (cases r) (simp_all add: dialOnce_def, simp_all add: demo_dial_def demo_sock_def verifyDaemonPeer_def verifyDaemonPeer_linux_def)

theorem dial_policy_witness:
  "dialDaemon demo_start = (Some (Inr \<lparr>rx = [], tx = [], conn_closed = False\<rparr>), Some \<lparr>cm_Args = [''/gssh'', ''server'', ''-S'', ''/s''], cm_Setsid = True\<rparr>)
   \<and> rc_allowAutoStart demo_start \<and> (\<exists>e. dialOnce (rc_attempt demo_start 0) ''/s'' = Inl e \<and> err_is ECONNREFUSED e)"
proof -
  have "dialDaemon demo_start = (Some (Inr \<lparr>rx = [], tx = [], conn_closed = False\<rparr>), Some \<lparr>cm_Args = [''/gssh'', ''server'', ''-S'', ''/s''], cm_Setsid = True\<rparr>)"
    by (simp add: dialDaemon_def demo_start_def demo_rpc_def isRecoverableDialError_def startDaemon_def waitForDaemon.simps demo_sock_def detach_defs)
  then show ?thesis using dial_policy by (auto simp: demo_start_def demo_rpc_def)
qed

lemma table_carried:
  "j \<in> set tbl \<Longrightarrow> length tbl \<le> 256 \<Longrightarrow> table_dec tbl (table_enc tbl j) = Inr j"
proof -
  assume j: "j \<in> set tbl" and l: "length tbl \<le> 256"
  let ?n = "length (takeWhile (\<lambda>x. x \<noteq> j) tbl)"
  have n: "?n < length tbl" using j by (induction tbl) auto
  then have "unat (of_nat ?n :: byte) = ?n" using l by (simp add: unat_of_nat)
  then show ?thesis using n nth_length_takeWhile[of "\<lambda>x. x \<noteq> j" tbl] by (simp add: table_dec_def table_enc_def)
qed

lemma table_links:
  assumes "length tbl \<le> 256"
  shows "dialled (demo_rpc tbl d)" "guard_fits (table_senv tbl)"
    "\<And>j. j \<in> set tbl \<Longrightarrow> sends (demo_rpc tbl d) (table_senv tbl) j (table_enc tbl j)"
    "\<And>j. j \<in> set tbl \<Longrightarrow> carried (demo_rpc tbl d) (table_senv tbl) j"
proof -
  have m: "length (table_enc tbl j) \<le> MaxPayloadSize" for j by (simp add: table_enc_def MaxPayloadSize_def)
  show "dialled (demo_rpc tbl d)" by (simp add: dialled_def dialDaemon_def demo_rpc_def)
  show "guard_fits (table_senv tbl)" using m by (simp add: guard_fits_def error_reply_def table_senv_def NewImsg_def)
  show "sends (demo_rpc tbl d) (table_senv tbl) j (table_enc tbl j)" "carried (demo_rpc tbl d) (table_senv tbl) j" if "j \<in> set tbl" for j
    using m table_carried[OF that assms] by (simp_all add: sends_def carried_def demo_rpc_def table_senv_def)
qed


text \<open>A daemon with one connected session, asked to run a command that prints and exits with 3.\<close>

definition demo_up_daemon :: daemon where
  "demo_up_daemon = (NewServer None)\<lparr>d_mgr := demo_up\<rparr>"

definition demo_exec :: ExecParams where
  "demo_exec = \<lparr>ep_Name = '''', ep_Command = ''false'', ep_Timeout = 0,
     ep_Sudo = \<lparr>so_Enabled = False, so_Password = '''', so_User = '''', so_Login = False\<rparr>\<rparr>"

definition demo_table :: "json list" where
  "demo_table = [enc_ExecParams demo_exec, enc_ExecResult \<lparr>er_Stdout = ''out'', er_Stderr = ''err'', er_ExitCode = 3\<rparr>,
     enc_StreamChunk (\<lambda>s. s) ''stdout'' ''out'', enc_StreamChunk (\<lambda>s. s) ''stderr'' ''err'',
     enc_StreamEnd \<lparr>se_ExitCode = 3, se_Error = ''''\<rparr>,
     enc_ErrorPayload \<lparr>pe_Code = -32000, pe_Message = too_large\<rparr>, enc_ErrorPayload \<lparr>pe_Code = -32000, pe_Message = ''error''\<rparr>]"

lemma table_senv_sel:
  "sv_machine (table_senv t) = demo_machine" "sv_text (table_senv t) = (\<lambda>_. ''error'')" "sv_base64 (table_senv t) = (\<lambda>s. s)"
  "sv_chunks (table_senv t) = (\<lambda>a b. [(True, a), (False, b)])" "sv_marshal (table_senv t) = table_enc t"
  by (simp_all add: table_senv_def demo_senv_def)

lemma demo_exec_sel: "ep_Name demo_exec = ''''" "ep_Command demo_exec = ''false''" "ep_Timeout demo_exec = 0" "so_Enabled (ep_Sudo demo_exec) = False"
  by (simp_all add: demo_exec_def)

lemma demo_streams:
  "\<exists>m'. ExecStream demo_machine '''' ''false'' 0 (Some (ep_Sudo demo_exec)) demo_up =
     (Some \<lparr>st_code = 3, st_err = None, st_out = ''out'', st_errout = ''err''\<rparr>, m')"
  using same_target_ssh[OF demo_up_sel(6)]
  by (simp add: ExecStream_def Get_def default_if_empty_def demo_up_sel demo_machine_def runRemoteStream_def
      runRemoteNormalStream_def waitStreamTimeout_def timed_out_def demo_exec_sel demo_proc_def sshExitCode_def Let_def)

theorem stream_end_to_end_witness:
  "sendStreamRequest (demo_rpc demo_table demo_up_daemon) MsgExecStream (enc_ExecParams demo_exec) 0 = Some (Exited 3, ''out'', ''err'')"
proof -
  obtain m' where X: "ExecStream demo_machine '''' ''false'' 0 (Some (ep_Sudo demo_exec)) demo_up =
     (Some \<lparr>st_code = 3, st_err = None, st_out = ''out'', st_errout = ''err''\<rparr>, m')" using demo_streams by blast
  have l: "length demo_table \<le> 256" by (simp add: demo_table_def)
  note L = table_links[OF l]
  let ?s = "\<lparr>st_code = 3, st_err = None, st_out = ''out'', st_errout = ''err''\<rparr>"
  have e: "end_of (table_senv demo_table) ?s = \<lparr>se_ExitCode = 3, se_Error = ''''\<rparr>" by (simp add: end_of_def)
  have "sends (demo_rpc demo_table demo_up_daemon) (table_senv demo_table) (enc_ExecParams demo_exec) (table_enc demo_table (enc_ExecParams demo_exec))"
    by (rule L(3)) (simp add: demo_table_def)
  moreover have "carried (demo_rpc demo_table demo_up_daemon) (table_senv demo_table) (enc_StreamChunk (\<lambda>s. s) ''stdout'' ''out'')"
    "carried (demo_rpc demo_table demo_up_daemon) (table_senv demo_table) (enc_StreamChunk (\<lambda>s. s) ''stderr'' ''err'')"
    "carried (demo_rpc demo_table demo_up_daemon) (table_senv demo_table) (enc_StreamEnd \<lparr>se_ExitCode = 3, se_Error = ''''\<rparr>)"
    by (rule L(4), simp add: demo_table_def)+
  ultimately show ?thesis
    using stream_end_to_end[of "demo_rpc demo_table demo_up_daemon" "table_senv demo_table" demo_up_daemon demo_exec
        "table_enc demo_table (enc_ExecParams demo_exec)" ?s m' 0] L(1) X e
    by (simp add: demo_exec_sel table_senv_sel demo_up_daemon_def NewServer_def int_ok_def stdout_of_def stderr_of_def demo_rpc_def)
qed


lemma demo_Exec:
  "Exec demo_machine '''' ''false'' 0 (Some (ep_Sudo demo_exec)) demo_up =
      (Some (Some \<lparr>er_Stdout = ''out'', er_Stderr = ''err'', er_ExitCode = 3\<rparr>, None), upd_obj 0 (SetLastCmd ''false'') demo_up)"
  using same_target_ssh[OF demo_up_sel(6)] collect_started(1)[OF demo_proc_ok]
  by (simp add: Exec_def Get_def default_if_empty_def demo_up_sel demo_machine_def runRemote_def runRemoteNormal_def
      timed_out_def sshExecResult_def demo_exec_sel demo_proc_def Let_def)

lemma demo_dispatch:
  "\<exists>d'. dispatch (table_senv demo_table) (NewImsg MsgExec (table_enc demo_table (enc_ExecParams demo_exec))) demo_up_daemon =
     (Some (Inr (NewImsg MsgResult (table_enc demo_table (enc_ExecResult \<lparr>er_Stdout = ''out'', er_Stderr = ''err'', er_ExitCode = 3\<rparr>)))), d')"
proof -
  have "table_dec demo_table (table_enc demo_table (enc_ExecParams demo_exec)) = Inr (enc_ExecParams demo_exec)"
    by (rule table_carried) (simp_all add: demo_table_def)
  then have P: "DecodePayload (table_senv demo_table) dec_ExecParams (table_enc demo_table (enc_ExecParams demo_exec)) = Inr demo_exec"
    using rt_ExecParams[of demo_exec] by (simp add: DecodePayload_def table_senv_def demo_exec_sel int_ok_def)
  have T: "MsgExec \<noteq> MsgPing" "MsgExec \<noteq> MsgConnect" "MsgExec \<noteq> MsgLocal" "MsgExec \<noteq> MsgKill"
    by (simp_all add: MsgExec_def MsgPing_def MsgConnect_def MsgLocal_def MsgKill_def)
  show ?thesis
    using demo_Exec by (simp add: dispatch_def Let_def T handle_exec_def P table_senv_sel demo_exec_sel demo_up_daemon_def NewServer_def
        exec_reply_def ok_reply_def EncodePayload_def)
qed

theorem request_end_to_end_witness:
  "sendRequestWithTimeout (demo_rpc demo_table demo_up_daemon) MsgExec (Some (enc_ExecParams demo_exec)) rpcTimeout =
     Some (Inr (table_enc demo_table (enc_ExecResult \<lparr>er_Stdout = ''out'', er_Stderr = ''err'', er_ExitCode = 3\<rparr>)))"
proof -
  have l: "length demo_table \<le> 256" by (simp add: demo_table_def)
  note L = table_links[OF l]
  obtain d' where D: "dispatch (table_senv demo_table) (NewImsg MsgExec (table_enc demo_table (enc_ExecParams demo_exec))) demo_up_daemon =
     (Some (Inr (NewImsg MsgResult (table_enc demo_table (enc_ExecResult \<lparr>er_Stdout = ''out'', er_Stderr = ''err'', er_ExitCode = 3\<rparr>)))), d')"
    using demo_dispatch by blast
  have S: "sends (demo_rpc demo_table demo_up_daemon) (table_senv demo_table) (enc_ExecParams demo_exec) (table_enc demo_table (enc_ExecParams demo_exec))"
    by (rule L(3)) (simp add: demo_table_def)
  have "carried (demo_rpc demo_table demo_up_daemon) (table_senv demo_table) (enc_ErrorPayload \<lparr>pe_Code = -32000, pe_Message = too_large\<rparr>)"
    by (rule L(4)) (simp add: demo_table_def)
  moreover have "\<not> is_stream (NewImsg MsgExec p)" for p by (simp add: is_stream_def MsgExec_def MsgExecStream_def MsgLocalExecStream_def)
  moreover have "rc_answers (demo_rpc demo_table demo_up_daemon) = daemon_answers (table_senv demo_table) demo_up_daemon"
    by (simp add: demo_rpc_def)
  ultimately show ?thesis
    using request_end_to_end[OF L(1) _ S L(2) _ D, of rpcTimeout] by (simp add: table_enc_def MaxPayloadSize_def)
qed

end
