(* ===== verification/Daemon_Lifecycle.thy ===== *)
theory Daemon_Lifecycle
  imports Daemon_Server
begin

text \<open>
  The life of the daemon process: \<open>Start\<close> and \<open>Stop\<close> of \<open>internal/server/server.go\<close>, the accept loop,
  the goroutine of each connection with its deferred calls, and \<open>runDaemon\<close> of \<open>cmd/gssh/server.go\<close>.
  They run at the same time, so the model is a step relation: a step is what one goroutine does
  between two points where another can intervene.  The properties are about shutting down.
\<close>

section \<open>State\<close>

datatype listener = NoListener | ListenerOpen | ListenerShut

text \<open>A connection's goroutine: about to read, serving a message, or out of its loop; \<open>Leaving\<close> after \<open>removeConn\<close> and \<open>Close\<close>.\<close>

datatype handler = Reading | Serving Imsg | Exiting | Leaving

text \<open>Where \<open>Start\<close> is: \<open>Accepted k\<close> before the check of \<open>shutdown\<close>, \<open>Admitting k\<close> before the one of \<open>stopping\<close>.\<close>

datatype start_pc = Starting | Restoring | Accepting | Accepted nat | Admitting nat | StartReturned "go_err option"

text \<open>Where the one call of \<open>Stop\<close>'s body is.\<close>

datatype stop_pc = StopIdle | StopSignalled | StopMarked | StopUnlistened | StopSaved | StopDraining | StopDrained | StopReturned

text \<open>
  The rest of the \<open>Server\<close> structure: \<open>srv_shutdown\<close> is the closed channel, \<open>srv_wg\<close> the wait group's
  counter; \<open>srv_conn k\<close> is the \<open>k\<close>-th accepted connection and \<open>srv_handler k\<close> its goroutine, if it runs;
  \<open>srv_file\<close> is the state file and \<open>srv_socket\<close> says that the daemon's socket file exists.
\<close>

record server =
  srv_daemon :: daemon
  srv_shutdown :: bool
  srv_stopping :: bool
  srv_listener :: listener
  srv_active :: "nat set"
  srv_wg :: nat
  srv_next :: nat
  srv_conn :: "nat \<Rightarrow> conn"
  srv_handler :: "nat \<Rightarrow> handler option"
  srv_start :: start_pc
  srv_stop :: stop_pc
  srv_file :: "string option"
  srv_socket :: bool

definition server_init :: "logger \<Rightarrow> string option \<Rightarrow> server" where
  "server_init log file = \<lparr>srv_daemon = NewServer log, srv_shutdown = False, srv_stopping = False, srv_listener = NoListener,
     srv_active = {}, srv_wg = 0, srv_next = 0, srv_conn = (\<lambda>_. \<lparr>rx = [], tx = [], conn_closed = True\<rparr>),
     srv_handler = (\<lambda>_. None), srv_start = Starting, srv_stop = StopIdle, srv_file = file, srv_socket = False\<rparr>"

section \<open>Start\<close>

definition listen_setup :: "sock_env \<Rightarrow> (string \<Rightarrow> go_err option) \<Rightarrow> (string \<Rightarrow> go_err option) \<Rightarrow> string \<Rightarrow> go_err option" where
  "listen_setup env Listen Chmod path =
     (case EnsureParentDir env path of
        Some e \<Rightarrow> Some (Errorf ''failed to create socket parent directory: %w'' [AErr e])
      | None \<Rightarrow>
          (case fst (RemoveIfOwnedSocket env path) of
             Some e \<Rightarrow> Some e
           | None \<Rightarrow>
               (case Listen path of
                  Some e \<Rightarrow> Some (Errorf ''failed to listen on %s: %w'' [AStr path, AErr e])
                | None \<Rightarrow>
                    (case Chmod path of
                       Some e \<Rightarrow> Some (Errorf ''failed to set socket permissions: %w'' [AErr e])
                     | None \<Rightarrow> None))))"

definition start_listen :: "go_err option \<Rightarrow> server \<Rightarrow> server" where
  "start_listen err s =
     (case err of
        Some e \<Rightarrow> s\<lparr>srv_start := StartReturned (Some e)\<rparr>
      | None \<Rightarrow> s\<lparr>srv_listener := ListenerOpen, srv_socket := True, srv_start := Restoring\<rparr>)"

definition start_restore :: "string res \<Rightarrow> int \<Rightarrow> (string \<Rightarrow> json res) \<Rightarrow> server \<Rightarrow> server" where
  "start_restore u now parse s =
     (let d = srv_daemon s;
          m = fst (restoreState u now (Load parse (read_file (srv_file s))) (d_mgr d))
      in s\<lparr>srv_daemon := d\<lparr>d_mgr := m\<rparr>, srv_start := Accepting\<rparr>)"

definition close_conn :: "nat \<Rightarrow> server \<Rightarrow> server" where
  "close_conn k s = s\<lparr>srv_conn := (srv_conn s)(k := (srv_conn s k)\<lparr>conn_closed := True\<rparr>)\<rparr>"

text \<open>The outcome of \<open>Accept\<close>: an error, or a new connection that will deliver the bytes \<open>input\<close>.\<close>

definition accept_error :: "server \<Rightarrow> server" where
  "accept_error s = (if srv_shutdown s then s\<lparr>srv_start := StartReturned None\<rparr> else s)"

definition accept_conn :: "byte list \<Rightarrow> server \<Rightarrow> server" where
  "accept_conn input s =
     s\<lparr>srv_conn := (srv_conn s)(srv_next s := \<lparr>rx = input, tx = [], conn_closed = False\<rparr>),
       srv_next := Suc (srv_next s), srv_start := Accepted (srv_next s)\<rparr>"

definition check_shutdown :: "nat \<Rightarrow> server \<Rightarrow> server" where
  "check_shutdown k s =
     (if srv_shutdown s then (close_conn k s)\<lparr>srv_start := StartReturned None\<rparr> else s\<lparr>srv_start := Admitting k\<rparr>)"

definition addConn :: "nat \<Rightarrow> server \<Rightarrow> server" where
  "addConn k s = s\<lparr>srv_active := insert k (srv_active s)\<rparr>"

definition removeConn :: "nat \<Rightarrow> server \<Rightarrow> server" where
  "removeConn k s = s\<lparr>srv_active := srv_active s - {k}\<rparr>"

text \<open>The section under \<open>acceptMu\<close>, and starting the goroutine.\<close>

definition admit :: "nat \<Rightarrow> server \<Rightarrow> server" where
  "admit k s =
     (if srv_stopping s then (close_conn k s)\<lparr>srv_start := StartReturned None\<rparr>
      else (addConn k s)\<lparr>srv_wg := Suc (srv_wg s), srv_handler := (srv_handler s)(k \<mapsto> Reading), srv_start := Accepting\<rparr>)"

section \<open>Connections\<close>

definition set_handler :: "nat \<Rightarrow> handler \<Rightarrow> server \<Rightarrow> server" where
  "set_handler k h s = s\<lparr>srv_handler := (srv_handler s)(k \<mapsto> h)\<rparr>"

definition handler_read :: "nat \<Rightarrow> server \<Rightarrow> server" where
  "handler_read k s =
     (let c = srv_conn s k in
      if conn_closed c then set_handler k Exiting s
      else (case ReadMessage (rx c) of
              Inl e \<Rightarrow> set_handler k Exiting s
            | Inr (msg, rest) \<Rightarrow> set_handler k (Serving msg) (s\<lparr>srv_conn := (srv_conn s)(k := c\<lparr>rx := rest\<rparr>)\<rparr>)))"

text \<open>\<open>None\<close>: the handling of the message does not return.\<close>

definition handler_serve :: "senv \<Rightarrow> nat \<Rightarrow> Imsg \<Rightarrow> server \<Rightarrow> server option" where
  "handler_serve E k msg s =
     (case serve_message E msg (srv_conn s k) (srv_daemon s) of
        None \<Rightarrow> None
      | Some (goes_on, c, d) \<Rightarrow>
          Some (set_handler k (if goes_on then Reading else Exiting)
            (s\<lparr>srv_daemon := d, srv_conn := (srv_conn s)(k := c\<lparr>rx := rx (srv_conn s k)\<rparr>)\<rparr>)))"

definition handler_remove :: "nat \<Rightarrow> server \<Rightarrow> server" where
  "handler_remove k s = set_handler k Leaving (close_conn k (removeConn k s))"

definition handler_done :: "nat \<Rightarrow> server \<Rightarrow> server" where
  "handler_done k s = s\<lparr>srv_wg := srv_wg s - 1, srv_handler := (srv_handler s)(k := None)\<rparr>"

section \<open>Stop\<close>

definition stop_begin :: "server \<Rightarrow> server" where
  "stop_begin s = s\<lparr>srv_shutdown := True, srv_stop := StopSignalled\<rparr>"

definition stop_mark :: "server \<Rightarrow> server" where
  "stop_mark s = s\<lparr>srv_stopping := True, srv_stop := StopMarked\<rparr>"

definition stop_unlisten :: "server \<Rightarrow> server" where
  "stop_unlisten s =
     (if srv_listener s = NoListener then s\<lparr>srv_stop := StopUnlistened\<rparr>
      else s\<lparr>srv_listener := ListenerShut, srv_socket := False, srv_stop := StopUnlistened\<rparr>)"

definition stop_save ::
  "string list \<Rightarrow> (json \<Rightarrow> string res) \<Rightarrow> (string \<Rightarrow> go_err option \<times> string option) \<Rightarrow> server \<Rightarrow> server" where
  "stop_save ks marshal w s =
     (let m = d_mgr (srv_daemon s) in
      s\<lparr>srv_file := snd (Save marshal w (CollectState (map (objs m) (List ks m))) (srv_file s)), srv_stop := StopSaved\<rparr>)"

definition stop_kill :: "net \<Rightarrow> string list \<Rightarrow> server \<Rightarrow> server" where
  "stop_kill N ks s =
     (let d = srv_daemon s in s\<lparr>srv_daemon := d\<lparr>d_mgr := KillAll N ks (d_mgr d)\<rparr>, srv_stop := StopDraining\<rparr>)"

definition closeActiveConns :: "server \<Rightarrow> server" where
  "closeActiveConns s =
     s\<lparr>srv_conn := (\<lambda>k. if k \<in> srv_active s then (srv_conn s k)\<lparr>conn_closed := True\<rparr> else srv_conn s k)\<rparr>"

definition stop_drained :: "server \<Rightarrow> server" where
  "stop_drained s = s\<lparr>srv_stop := StopDrained\<rparr>"

text \<open>The errors of the cleanup are only logged.\<close>

definition stop_cleanup :: "sock_env \<Rightarrow> string \<Rightarrow> server \<Rightarrow> server" where
  "stop_cleanup env path s =
     (let d = srv_daemon s;
          removed = (case RemoveIfOwnedSocket env path of (None, Some _) \<Rightarrow> True | _ \<Rightarrow> False)
      in s\<lparr>srv_socket := srv_socket s \<and> \<not> removed, srv_daemon := d\<lparr>d_audit := snd (Logger_Close None (d_audit d))\<rparr>, srv_stop := StopReturned\<rparr>)"

section \<open>Steps\<close>

text \<open>
  Any goroutine may take the next step.  \<open>Stop\<close> can begin at any time, on a signal or a stop
  message; its drain loop closes the connections again and again until the wait group is done.
\<close>

inductive server_step :: "server \<Rightarrow> server \<Rightarrow> bool" where
  st_listen: "srv_start s = Starting \<Longrightarrow> server_step s (start_listen (listen_setup env Listen Chmod path) s)"
| st_restore: "srv_start s = Restoring \<Longrightarrow> server_step s (start_restore u now parse s)"
| st_accept_error: "srv_start s = Accepting \<Longrightarrow> server_step s (accept_error s)"
| st_accept: "srv_start s = Accepting \<Longrightarrow> srv_listener s = ListenerOpen \<Longrightarrow> server_step s (accept_conn input s)"
| st_check: "srv_start s = Accepted k \<Longrightarrow> server_step s (check_shutdown k s)"
| st_admit: "srv_start s = Admitting k \<Longrightarrow> server_step s (admit k s)"
| st_read: "srv_handler s k = Some Reading \<Longrightarrow> server_step s (handler_read k s)"
| st_serve: "srv_handler s k = Some (Serving msg) \<Longrightarrow> env_ok E (srv_daemon s) \<Longrightarrow>
    handler_serve E k msg s = Some s' \<Longrightarrow> server_step s s'"
| st_remove: "srv_handler s k = Some Exiting \<Longrightarrow> server_step s (handler_remove k s)"
| st_done: "srv_handler s k = Some Leaving \<Longrightarrow> server_step s (handler_done k s)"
| st_background: "background_step (srv_daemon s) d' \<Longrightarrow> server_step s (s\<lparr>srv_daemon := d'\<rparr>)"
| st_begin: "srv_stop s = StopIdle \<Longrightarrow> server_step s (stop_begin s)"
| st_mark: "srv_stop s = StopSignalled \<Longrightarrow> server_step s (stop_mark s)"
| st_unlisten: "srv_stop s = StopMarked \<Longrightarrow> server_step s (stop_unlisten s)"
| st_save: "srv_stop s = StopUnlistened \<Longrightarrow> range_order (sessions (d_mgr (srv_daemon s))) ks \<Longrightarrow>
    server_step s (stop_save ks marshal w s)"
| st_kill: "srv_stop s = StopSaved \<Longrightarrow> range_order (sessions (d_mgr (srv_daemon s))) ks \<Longrightarrow>
    server_step s (stop_kill N ks s)"
| st_close: "srv_stop s = StopDraining \<Longrightarrow> server_step s (closeActiveConns s)"
| st_drained: "srv_stop s = StopDraining \<Longrightarrow> srv_wg s = 0 \<Longrightarrow> server_step s (stop_drained s)"
| st_cleanup: "srv_stop s = StopDrained \<Longrightarrow> server_step s (stop_cleanup env path s)"


text \<open>
  \<open>runDaemon\<close> after starting \<open>Start\<close> in its own goroutine: what it returns, once it does.  \<open>sig\<close>: a
  signal is what the \<open>select\<close> sees.  A returned \<open>Start\<close> without an error is followed by a call of
  \<open>Stop\<close>, which waits for the one that runs.
\<close>

definition runDaemon :: "bool \<Rightarrow> server \<Rightarrow> go_err option option" where
  "runDaemon sig s =
     (if sig then (if srv_stop s = StopReturned then Some None else None)
      else (case srv_start s of
              StartReturned (Some e) \<Rightarrow> Some (Some e)
            | StartReturned None \<Rightarrow> if srv_stop s = StopReturned then Some None else None
            | _ \<Rightarrow> None))"

section \<open>Invariant\<close>

definition handlers :: "server \<Rightarrow> nat set" where
  "handlers s = {k. srv_handler s k \<noteq> None}"

definition live :: "server \<Rightarrow> nat set" where
  "live s = {k. srv_handler s k \<noteq> None \<and> srv_handler s k \<noteq> Some Leaving}"

text \<open>The connection \<open>Start\<close> has accepted and not yet handed to a goroutine.\<close>

definition in_hand :: "server \<Rightarrow> nat set" where
  "in_hand s = (case srv_start s of Accepted k \<Rightarrow> {k} | Admitting k \<Rightarrow> {k} | _ \<Rightarrow> {})"

definition srv_inv :: "server \<Rightarrow> bool" where
  "srv_inv s \<longleftrightarrow>
     finite (handlers s) \<and> srv_wg s = card (handlers s)
   \<and> srv_active s = live s
   \<and> handlers s \<union> in_hand s \<subseteq> {..< srv_next s} \<and> handlers s \<inter> in_hand s = {}
   \<and> (\<forall>k < srv_next s. k \<in> live s \<union> in_hand s \<or> conn_closed (srv_conn s k))
   \<and> (srv_shutdown s \<longleftrightarrow> srv_stop s \<noteq> StopIdle)
   \<and> (srv_stopping s \<longleftrightarrow> srv_stop s \<noteq> StopIdle \<and> srv_stop s \<noteq> StopSignalled)
   \<and> (srv_stop s = StopDrained \<or> srv_stop s = StopReturned \<longrightarrow> handlers s = {})
   \<and> (srv_stop s = StopReturned \<longrightarrow> d_audit (srv_daemon s) = None)
   \<and> (srv_start s = StartReturned None \<longrightarrow> srv_shutdown s)"

lemma background_audit: "background_step d d' \<Longrightarrow> d_audit d' = d_audit d"
  by (induction rule: background_step.induct) (auto simp: watch_def split: prod.splits option.splits)

text \<open>A step of a goroutine that stays: only its own entry changes.\<close>

lemma handlers_upd [simp]:
  "handlers (srv_start_update f s) = handlers s" "handlers (srv_daemon_update g s) = handlers s"
  "handlers (srv_listener_update h s) = handlers s" "handlers (srv_conn_update i s) = handlers s"
  "handlers (srv_next_update j s) = handlers s" "handlers (srv_shutdown_update b s) = handlers s"
  "handlers (srv_stopping_update b s) = handlers s" "handlers (srv_stop_update p s) = handlers s"
  "handlers (srv_file_update q s) = handlers s" "handlers (srv_socket_update b s) = handlers s"
  by (simp_all add: handlers_def)

lemma live_upd [simp]:
  "live (srv_start_update f s) = live s" "live (srv_daemon_update g s) = live s"
  "live (srv_listener_update h s) = live s" "live (srv_conn_update i s) = live s"
  "live (srv_next_update j s) = live s" "live (srv_shutdown_update b s) = live s"
  "live (srv_stopping_update b s) = live s" "live (srv_stop_update p s) = live s"
  "live (srv_file_update q s) = live s" "live (srv_socket_update b s) = live s"
  by (simp_all add: live_def)

lemma in_hand_upd [simp]:
  "in_hand (srv_daemon_update g s) = in_hand s" "in_hand (srv_listener_update h s) = in_hand s"
  "in_hand (srv_conn_update i s) = in_hand s" "in_hand (srv_next_update j s) = in_hand s"
  "in_hand (srv_shutdown_update b s) = in_hand s" "in_hand (srv_stopping_update b s) = in_hand s"
  "in_hand (srv_stop_update p s) = in_hand s" "in_hand (srv_file_update q s) = in_hand s" "in_hand (srv_socket_update b s) = in_hand s"
  "in_hand (srv_start_update (\<lambda>_. Accepted k) s) = {k}" "in_hand (srv_start_update (\<lambda>_. Admitting k) s) = {k}"
  "in_hand (srv_start_update (\<lambda>_. StartReturned e) s) = {}" "in_hand (srv_start_update (\<lambda>_. Accepting) s) = {}"
  "in_hand (srv_start_update (\<lambda>_. Restoring) s) = {}"
  by (simp_all add: in_hand_def)

lemma in_hand_pc:
  "srv_start s = Starting \<Longrightarrow> in_hand s = {}" "srv_start s = Restoring \<Longrightarrow> in_hand s = {}"
  "srv_start s = Accepting \<Longrightarrow> in_hand s = {}" "srv_start s = Accepted k \<Longrightarrow> in_hand s = {k}"
  "srv_start s = Admitting k \<Longrightarrow> in_hand s = {k}"
  by (simp_all add: in_hand_def)

lemmas srv_defs = start_listen_def start_restore_def close_conn_def accept_error_def accept_conn_def check_shutdown_def
  addConn_def removeConn_def admit_def set_handler_def handler_read_def handler_serve_def handler_remove_def handler_done_def
  stop_begin_def stop_mark_def stop_unlisten_def stop_save_def stop_kill_def closeActiveConns_def stop_drained_def
  stop_cleanup_def Let_def

lemma start_inv:
  assumes "srv_inv s"
  shows "srv_start s = Starting \<Longrightarrow> srv_inv (start_listen e s)"
    "srv_start s = Restoring \<Longrightarrow> srv_inv (start_restore u now parse s)"
    "srv_start s = Accepting \<Longrightarrow> srv_inv (accept_error s)"
    "srv_start s = Accepting \<Longrightarrow> srv_inv (accept_conn input s)"
    "srv_start s = Accepted k \<Longrightarrow> srv_inv (check_shutdown k s)"
proof -
  show "srv_inv (start_listen e s)" if "srv_start s = Starting"
    using assms that by (cases e) (simp_all add: srv_inv_def start_listen_def in_hand_pc)
  show "srv_inv (start_restore u now parse s)" if "srv_start s = Restoring"
    using assms that by (simp add: srv_inv_def start_restore_def Let_def in_hand_pc)
  show "srv_inv (accept_error s)" if "srv_start s = Accepting"
    using assms that by (simp add: srv_inv_def accept_error_def in_hand_pc)
  show "srv_inv (accept_conn input s)" if "srv_start s = Accepting"
    using assms that by (auto simp: srv_inv_def accept_conn_def in_hand_pc less_Suc_eq)
  show "srv_inv (check_shutdown k s)" if "srv_start s = Accepted k"
    using assms that by (auto simp: srv_inv_def check_shutdown_def close_conn_def in_hand_pc)
qed

lemma admit_inv:
  assumes "srv_inv s" "srv_start s = Admitting k"
  shows "srv_inv (admit k s)"
proof (cases "srv_stopping s")
  case True
  then show ?thesis using assms by (auto simp: srv_inv_def srv_defs in_hand_pc)
next
  case False
  have H: "handlers (admit k s) = insert k (handlers s)" "in_hand (admit k s) = {}"
    using False by (auto simp: srv_defs handlers_def in_hand_def)
  have L: "live (admit k s) = insert k (live s)" using False by (auto simp: srv_defs live_def)
  have k: "k \<notin> handlers s" "k < srv_next s" "in_hand s = {k}" using assms by (auto simp: srv_inv_def in_hand_def)
  show ?thesis
    using False assms k unfolding srv_inv_def H L by (auto simp: srv_defs)
qed

text \<open>A goroutine's steps: \<open>k\<close> keeps running, or ends.\<close>

lemma handler_keeps:
  assumes "srv_inv s" "k \<in> srv_active s" "h \<noteq> Leaving"
    "srv_handler s' = (srv_handler s)(k \<mapsto> h)" "srv_active s' = srv_active s" "srv_next s' = srv_next s"
    "\<forall>j. j \<noteq> k \<longrightarrow> srv_conn s' j = srv_conn s j" "srv_wg s' = srv_wg s" "srv_start s' = srv_start s" "srv_stop s' = srv_stop s"
    "srv_shutdown s' = srv_shutdown s" "srv_stopping s' = srv_stopping s"
  shows "srv_inv s'"
proof -
  have k: "k \<in> handlers s" using assms(1,2) by (auto simp: srv_inv_def handlers_def live_def)
  then have H: "handlers s' = handlers s" "in_hand s' = in_hand s" using assms(4,9) by (auto simp: handlers_def in_hand_def)
  have "live s' = live s" using assms(1-4) by (auto simp: srv_inv_def live_def)
  moreover have "j \<in> live s \<union> in_hand s \<or> conn_closed (srv_conn s' j)" if "j < srv_next s" for j
    using assms(1,2,7) that by (cases "j = k") (auto simp: srv_inv_def)
  ultimately show ?thesis using assms(1) k unfolding srv_inv_def H assms(5-) by auto
qed

lemma handler_inv:
  assumes "srv_inv s"
  shows "srv_handler s k = Some Reading \<Longrightarrow> srv_inv (handler_read k s)"
    "srv_handler s k = Some (Serving msg) \<Longrightarrow> handler_serve E k msg s = Some s' \<Longrightarrow> srv_inv s'"
proof -
  assume "srv_handler s k = Some Reading"
  then have k: "k \<in> srv_active s" using assms by (simp add: srv_inv_def live_def)
  consider "handler_read k s = set_handler k Exiting s"
    | c msg where "handler_read k s = set_handler k (Serving msg) (s\<lparr>srv_conn := (srv_conn s)(k := c)\<rparr>)"
    by (cases "conn_closed (srv_conn s k)"; cases "ReadMessage (rx (srv_conn s k))") (auto simp: handler_read_def)
  then show "srv_inv (handler_read k s)"
    by cases (simp_all add: set_handler_def handler_keeps[OF assms k, of Exiting] handler_keeps[OF assms k, of "Serving _"])
next
  assume h: "srv_handler s k = Some (Serving msg)" and "handler_serve E k msg s = Some s'"
  then obtain b c d where s': "s' = set_handler k (if b then Reading else Exiting) (s\<lparr>srv_daemon := d, srv_conn := (srv_conn s)(k := c)\<rparr>)"
    by (auto simp: handler_serve_def split: option.splits)
  have "k \<in> srv_active s" using assms h by (simp add: srv_inv_def live_def)
  from handler_keeps[OF assms this, of "if b then Reading else Exiting" s'] show "srv_inv s'"
    unfolding s' by (simp add: set_handler_def)
qed

lemma leave_inv:
  assumes I: "srv_inv s"
  shows "srv_handler s k = Some Exiting \<Longrightarrow> srv_inv (handler_remove k s)"
    "srv_handler s k = Some Leaving \<Longrightarrow> srv_inv (handler_done k s)"
proof -
  assume h: "srv_handler s k = Some Exiting"
  then have H: "handlers (handler_remove k s) = handlers s" "in_hand (handler_remove k s) = in_hand s"
    by (auto simp: srv_defs handlers_def in_hand_def)
  have "live (handler_remove k s) = live s - {k}" by (auto simp: srv_defs live_def)
  moreover have "k \<in> handlers s" using h by (simp add: handlers_def)
  ultimately show "srv_inv (handler_remove k s)" using I unfolding srv_inv_def H by (auto simp: srv_defs)
next
  assume h: "srv_handler s k = Some Leaving"
  then have k: "k \<in> handlers s" "k \<notin> srv_active s" using I by (auto simp: handlers_def live_def srv_inv_def)
  have "live (handler_done k s) = live s" using h by (auto simp: srv_defs live_def)
  moreover have H: "handlers (handler_done k s) = handlers s - {k}" "in_hand (handler_done k s) = in_hand s"
    by (auto simp: srv_defs handlers_def in_hand_def)
  ultimately show "srv_inv (handler_done k s)" using I k h unfolding srv_inv_def H by (auto simp: srv_defs)
qed

lemma stop_inv:
  assumes "srv_inv s"
  shows "srv_stop s = StopIdle \<Longrightarrow> srv_inv (stop_begin s)"
    "srv_stop s = StopSignalled \<Longrightarrow> srv_inv (stop_mark s)"
    "srv_stop s = StopMarked \<Longrightarrow> srv_inv (stop_unlisten s)"
    "srv_stop s = StopUnlistened \<Longrightarrow> srv_inv (stop_save ks marshal w s)"
    "srv_stop s = StopSaved \<Longrightarrow> srv_inv (stop_kill N ks s)"
    "srv_inv (closeActiveConns s)"
    "srv_stop s = StopDraining \<Longrightarrow> srv_wg s = 0 \<Longrightarrow> srv_inv (stop_drained s)"
    "srv_stop s = StopDrained \<Longrightarrow> srv_inv (stop_cleanup env path s)"
  using assms
  by (simp_all add: srv_inv_def srv_defs Logger_Close_def split: option.splits) auto

lemma server_step_inv: "server_step s s' \<Longrightarrow> srv_inv s \<Longrightarrow> srv_inv s'"
proof (induction rule: server_step.induct)
  case (st_background s d')
  then show ?case using background_audit by (auto simp: srv_inv_def)
qed (auto intro: start_inv admit_inv handler_inv leave_inv stop_inv)

lemma srv_inv_init: "srv_inv (server_init log file)"
  by (simp add: srv_inv_def server_init_def handlers_def live_def in_hand_def)

interpretation srv_machine: state_machine "\<lambda>s. \<exists>log file. s = server_init log file" srv_inv server_step
  by unfold_locales (auto intro: srv_inv_init server_step_inv)

section \<open>Lemmas: draining\<close>

lemma WriteMessage_closed: "conn_closed (snd (WriteMessage conn_write c m)) = conn_closed c"
  by (auto simp: WriteMessage_def conn_write_def Let_def split: prod.splits option.splits if_splits)

lemma send_chunks_closed: "conn_closed (send_chunks E cs fo fe c) = conn_closed c"
proof (induction cs arbitrary: fo fe c)
  case (Cons x cs)
  obtain b y where x: "x = (b, y)" by (cases x)
  obtain e c1 where W: "WriteMessage conn_write c (chunk_msg E b y) = (e, c1)" by fastforce
  then have "conn_closed c1 = conn_closed c" using WriteMessage_closed[of c "chunk_msg E b y"] by simp
  then show ?case using Cons x W by (cases e) auto
qed simp

lemma serve_message_closed:
  assumes "serve_message E msg c d = Some (b, c', d')"
  shows "conn_closed c' = conn_closed c"
proof -
  have S: "conn_closed (fst (stream_reply E n cmd s c d1)) = conn_closed c" for n cmd s d1
    by (simp add: stream_reply_def sendStreamEnd_def Let_def WriteMessage_closed send_chunks_closed)
  have W: "conn_closed c1 = conn_closed c" if "WriteMessage conn_write c m = (e, c1)" for m e c1
    using WriteMessage_closed[of c m] that by simp
  have X: "conn_closed c1 = conn_closed c" if "handleExecStream E c p d = Some (c1, d1)" for p c1 d1
    using that S by (auto simp: handleExecStream_def split: prod.splits option.splits; metis fst_conv)
  have Y: "conn_closed c1 = conn_closed c" if "handleLocalExecStream E c q d = Some (c1, d1)" for q c1 d1
    using that S by (auto simp: handleLocalExecStream_def split: option.splits; metis fst_conv)
  show ?thesis
    using assms by (auto simp: serve_message_def WriteMessage_closed split: if_splits sum.splits prod.splits option.splits
        dest: W X Y)
qed

fun hweight :: "handler \<Rightarrow> nat" where
  "hweight (Serving _) = 4" | "hweight Reading = 3" | "hweight Exiting = 2" | "hweight Leaving = 1"

definition drain_work :: "server \<Rightarrow> nat" where
  "drain_work s = (\<Sum>k\<in>handlers s. hweight (the (srv_handler s k)))"

lemma hweight_bounds: "0 < hweight h" "hweight h \<le> 4"
  by (cases h; simp)+

lemma drain_work_upd:
  assumes "finite (handlers s)" "srv_handler s k = Some h" "hweight h' < hweight h" "srv_handler s' = (srv_handler s)(k \<mapsto> h')"
  shows "drain_work s' < drain_work s"
proof -
  have H: "handlers s' = handlers s" "k \<in> handlers s" using assms by (auto simp: handlers_def)
  show ?thesis
    unfolding drain_work_def H(1) using assms H(2) by (intro sum_strict_mono_ex1) (auto intro!: bexI[of _ k])
qed

lemma drain_work_done:
  assumes "finite (handlers s)" "srv_handler s k = Some h" "srv_handler s' = (srv_handler s)(k := None)"
  shows "drain_work s' < drain_work s"
proof -
  have H: "handlers s = insert k (handlers s')" "k \<notin> handlers s'" using assms by (auto simp: handlers_def)
  then have "finite (handlers s')" using assms(1) by simp
  moreover have "(\<Sum>j\<in>handlers s'. hweight (the (srv_handler s j))) = drain_work s'"
    unfolding drain_work_def using assms(3) H(2) by (intro sum.cong) auto
  ultimately show ?thesis using H assms(2) hweight_bounds(1)[of h] by (simp add: drain_work_def[of s])
qed

lemma drain_work_same: "srv_handler s' = srv_handler s \<Longrightarrow> drain_work s' = drain_work s"
  by (simp add: drain_work_def handlers_def)

definition draining :: "server \<Rightarrow> bool" where
  "draining s \<longleftrightarrow> srv_inv s \<and> srv_stopping s \<and> (\<forall>k\<in>handlers s. conn_closed (srv_conn s k))"

lemma draining_step:
  assumes "server_step s s'" "draining s"
  shows "draining s' \<and> (srv_handler s' = srv_handler s \<or> drain_work s' < drain_work s)"
proof -
  have D: "srv_inv s" "srv_stopping s" "\<And>k. k \<in> handlers s \<Longrightarrow> conn_closed (srv_conn s k)"
    using assms(2) by (simp_all add: draining_def)
  have I: "srv_inv s'" by (rule server_step_inv[OF assms(1) D(1)])
  have F: "finite (handlers s)" "srv_next s \<notin> handlers s" using D(1) by (auto simp: srv_inv_def)
  have keep: "srv_stopping s' \<and> (\<forall>k\<in>handlers s'. conn_closed (srv_conn s' k)) \<and> (srv_handler s' = srv_handler s \<or> drain_work s' < drain_work s)"
    using assms(1)
  proof (cases rule: server_step.cases)
    case (st_read k)
    then have s': "s' = set_handler k Exiting s" using D(3)[of k] by (simp add: handler_read_def handlers_def Let_def)
    then have "drain_work s' < drain_work s"
      using st_read by (intro drain_work_upd[OF F(1), of k Reading Exiting]) (auto simp: set_handler_def)
    then show ?thesis using st_read(2) D(2,3) unfolding s' by (auto simp: set_handler_def handlers_def)
  next
    case (st_serve k msg E)
    then obtain b c d where S: "serve_message E msg (srv_conn s k) (srv_daemon s) = Some (b, c, d)"
      and s': "s' = set_handler k (if b then Reading else Exiting) (s\<lparr>srv_daemon := d, srv_conn := (srv_conn s)(k := c\<lparr>rx := rx (srv_conn s k)\<rparr>)\<rparr>)"
      by (auto simp: handler_serve_def split: option.splits)
    have "drain_work s' < drain_work s"
      by (rule drain_work_upd[OF F(1) st_serve(1), of "if b then Reading else Exiting"]) (auto simp: s' set_handler_def)
    then show ?thesis using st_serve D(2,3) serve_message_closed[OF S] by (auto simp: s' set_handler_def handlers_def)
  next
    case (st_remove k)
    then have "drain_work s' < drain_work s"
      by (intro drain_work_upd[OF F(1), of k Exiting Leaving]) (auto simp: srv_defs)
    then show ?thesis using st_remove D(2,3) by (auto simp: srv_defs handlers_def)
  next
    case (st_done k)
    then have "drain_work s' < drain_work s" by (intro drain_work_done[OF F(1), of k Leaving]) (auto simp: srv_defs)
    then show ?thesis using st_done D(2,3) by (auto simp: srv_defs handlers_def split: if_splits)
  next
    case (st_accept input)
    then show ?thesis using D(2,3) F(2) by (auto simp: accept_conn_def)
  qed (use D(2,3) in \<open>simp_all add: srv_defs split: option.split\<close>)
  then show ?thesis using I by (simp add: draining_def)
qed

lemma draining_steps:
  "server_step\<^sup>*\<^sup>* s t \<Longrightarrow> draining s \<Longrightarrow> draining t \<and> drain_work t \<le> drain_work s"
proof (induction rule: rtranclp_induct)
  case (step t u)
  then show ?case using draining_step[of t u] drain_work_same[of u t] by force
qed simp

lemma close_draining:
  assumes "srv_inv s" "srv_stop s = StopDraining"
  shows "draining (closeActiveConns s)" "drain_work (closeActiveConns s) = drain_work s"
proof -
  have "conn_closed (srv_conn (closeActiveConns s) k)" if k: "k \<in> handlers s" for k
  proof (cases "k \<in> live s")
    case True
    then show ?thesis using assms(1) by (simp add: closeActiveConns_def srv_inv_def)
  next
    case False
    then have "k \<notin> srv_active s" "k \<notin> in_hand s" "k < srv_next s" using assms(1) k by (auto simp: srv_inv_def)
    then show ?thesis using assms(1) False by (auto simp: closeActiveConns_def srv_inv_def)
  qed
  moreover have "srv_inv (closeActiveConns s)" by (rule stop_inv(6)[OF assms(1)])
  moreover have "srv_stopping (closeActiveConns s)" "handlers (closeActiveConns s) = handlers s"
    using assms by (simp_all add: closeActiveConns_def srv_inv_def)
  ultimately show "draining (closeActiveConns s)" by (simp add: draining_def)
  show "drain_work (closeActiveConns s) = drain_work s" by (rule drain_work_same) (simp add: closeActiveConns_def)
qed

section \<open>Properties\<close>


text \<open>
  C18: draining ends.  Once the shutdown is draining, its next step closes the tracked connections,
  and from there on, whatever steps follow: the work left in the connections' goroutines never
  grows; any step of such a goroutine lowers it; every goroutine that is not in the middle of
  serving a message has such a step; and when no work is left the shutdown can go on.  So it waits
  only for the messages being served at that moment, and takes at most four steps of each goroutine.
\<close>

theorem drain_ends:
  assumes "server_step\<^sup>*\<^sup>* (server_init log file) s" "srv_stop s = StopDraining" "server_step\<^sup>*\<^sup>* (closeActiveConns s) t"
  shows "server_step s (closeActiveConns s) \<and> drain_work t \<le> drain_work s \<and> drain_work s \<le> 4 * srv_wg s
    \<and> (\<forall>t'. server_step t t' \<longrightarrow> srv_handler t' = srv_handler t \<or> drain_work t' < drain_work t)
    \<and> (\<forall>k h. srv_handler t k = Some h \<and> (\<forall>msg. h \<noteq> Serving msg) \<longrightarrow> (\<exists>t'. server_step t t' \<and> drain_work t' < drain_work t))
    \<and> (drain_work t = 0 \<and> srv_stop t = StopDraining \<longrightarrow> server_step t (stop_drained t))"
proof (intro conjI allI impI)
  have I: "srv_inv s" using srv_machine.reach_inv[OF assms(1)] by blast
  note C = close_draining[OF I assms(2)]
  have D: "draining t" and le: "drain_work t \<le> drain_work s" using draining_steps[OF assms(3) C(1)] C(2) by auto
  then have T: "srv_inv t" by (simp add: draining_def)
  show "server_step s (closeActiveConns s)" by (rule st_close[OF assms(2)])
  show "drain_work t \<le> drain_work s" by (rule le)
  have "drain_work s \<le> (\<Sum>k\<in>handlers s. 4)" unfolding drain_work_def by (rule sum_mono) (rule hweight_bounds)
  then show "drain_work s \<le> 4 * srv_wg s" using I by (simp add: srv_inv_def)
  show "srv_handler t' = srv_handler t \<or> drain_work t' < drain_work t" if "server_step t t'" for t'
    using draining_step[OF that D] by blast
  show "\<exists>t'. server_step t t' \<and> drain_work t' < drain_work t" if h: "srv_handler t k = Some h \<and> (\<forall>msg. h \<noteq> Serving msg)" for k h
  proof -
    consider "h = Reading" | "h = Exiting" | "h = Leaving" using h by (cases h) auto
    then obtain t' where "server_step t t'" "srv_handler t' \<noteq> srv_handler t"
    proof cases
      case 1
      then have "srv_handler (handler_read k t) k \<noteq> Some Reading" by (auto simp: handler_read_def set_handler_def Let_def split: sum.split)
      then show ?thesis using that[OF st_read[of t k]] h 1 by metis
    next
      case 2
      then show ?thesis using that[OF st_remove[of t k]] h by (auto simp: srv_defs fun_eq_iff)
    next
      case 3
      then show ?thesis using that[OF st_done[of t k]] h by (auto simp: srv_defs fun_eq_iff)
    qed
    then show ?thesis using draining_step[OF _ D] by blast
  qed
  show "server_step t (stop_drained t)" if z: "drain_work t = 0 \<and> srv_stop t = StopDraining"
  proof (rule st_drained)
    have "finite (handlers t)" using T by (simp add: srv_inv_def)
    then have "\<forall>k\<in>handlers t. hweight (the (srv_handler t k)) = 0" using z by (simp add: drain_work_def)
    then have "handlers t = {}" using hweight_bounds(1) by (metis less_irrefl all_not_in_conv)
    then show "srv_wg t = 0" using T by (simp add: srv_inv_def)
  qed (use z in simp)
qed

section \<open>A shutdown during a connect request\<close>

text \<open>
  A client sends a connect request; the shutdown begins while it is being served, and the request
  completes after the sessions have been killed.
\<close>

definition life_sock :: sock_env where
  "life_sock = \<lparr>sk_GOOS = Linux, XDG_RUNTIME_DIR = '''', sk_UserHomeDir = Inr ''/h'', TempDir = ''/tmp'', Getuid = 7, Geteuid = 7,
     sk_Stat = (\<lambda>_. Inl (SysErr ENOENT)), sk_Lstat = (\<lambda>_. Inl (SysErr ENOENT)), sk_MkdirAll = (\<lambda>_. None), sk_Remove = (\<lambda>_. None)\<rparr>"

definition life_setup :: "go_err option" where
  "life_setup = listen_setup life_sock (\<lambda>_. None) (\<lambda>_. None) ''/s''"

definition life_request :: Imsg where "life_request = NewImsg MsgConnect []"

definition life_serving :: server where
  "life_serving = handler_read 0 (admit 0 (check_shutdown 0 (accept_conn (frame life_request)
     (start_restore (Inr ''me'') 0 (\<lambda>_. Inr JNull) (start_listen life_setup (server_init None None))))))"

definition life_killed :: server where
  "life_killed = stop_kill demo_net [] (stop_save [] (\<lambda>_. Inr '''') (\<lambda>x. (None, Some x))
     (stop_unlisten (stop_mark (stop_begin life_serving))))"

definition life_served :: server where
  "life_served = the (handler_serve demo_connect_env 0 life_request life_killed)"

definition life_over :: server where
  "life_over = stop_cleanup life_sock ''/s'' (stop_drained (handler_done 0 (handler_remove 0 (handler_read 0 (closeActiveConns life_served)))))"

lemma life_setup_ok: "life_setup = None"
  by (simp add: life_setup_def listen_setup_def EnsureParentDir_def RemoveIfOwnedSocket_def life_sock_def Let_def)

lemma life_read: "ReadMessage (frame life_request) = Inr (life_request, [])"
  using ReadMessage_frame[of life_request "[]"] by (simp add: life_request_def frame_ok_def NewImsg_def)

lemmas life_eval = life_setup_ok life_read srv_defs server_init_def NewServer_def NewManager_def restoreState_def Load_def read_file_def

lemma life_serving_sel:
  "srv_daemon life_serving = NewServer None" "srv_handler life_serving = [0 \<mapsto> Serving life_request]"
  "srv_stop life_serving = StopIdle" "srv_wg life_serving = 1" "srv_active life_serving = {0}"
  "\<not> conn_closed (srv_conn life_serving 0)"
  by (simp_all add: life_serving_def life_eval)

lemma life_killed_sel:
  "srv_daemon life_killed = NewServer None" "srv_handler life_killed = [0 \<mapsto> Serving life_request]"
  "srv_stop life_killed = StopDraining" "srv_wg life_killed = 1" "srv_active life_killed = {0}"
  "\<not> conn_closed (srv_conn life_killed 0)"
  by (simp_all add: life_killed_def life_serving_sel stop_kill_def stop_save_def stop_unlisten_def stop_mark_def stop_begin_def
      KillAll_def List_def NewServer_def NewManager_def Let_def)

lemma life_serve: "handler_serve demo_connect_env 0 life_request life_killed = Some life_served"
  and life_served_sel: "srv_daemon life_served = demo_d1" "srv_handler life_served = [0 \<mapsto> Reading]"
  "srv_stop life_served = StopDraining" "srv_wg life_served = 1" "srv_active life_served = {0}"
    "srv_next life_served = srv_next life_killed" "srv_start life_served = srv_start life_killed"
proof -
  obtain r where r: "dispatch demo_connect_env life_request (NewServer None) = (Some r, demo_d1)"
    using demo_runs(1) by (auto simp: demo_d1_def life_request_def prod_eq_iff)
  have "\<not> is_stream life_request"
    by (simp add: life_request_def is_stream_def NewImsg_def MsgConnect_def MsgExecStream_def MsgLocalExecStream_def)
  from serve_message_answers[OF _ life_killed_sel(6) this r] obtain c where
    c: "serve_message demo_connect_env life_request (srv_conn life_killed 0) (NewServer None) = Some (True, c, demo_d1)"
    using demo_guard_fits by (auto simp: demo_connect_env_def)
  then show "handler_serve demo_connect_env 0 life_request life_killed = Some life_served"
    and "srv_daemon life_served = demo_d1" "srv_handler life_served = [0 \<mapsto> Reading]"
    "srv_stop life_served = StopDraining" "srv_wg life_served = 1" "srv_active life_served = {0}"
    "srv_next life_served = srv_next life_killed" "srv_start life_served = srv_start life_killed"
    by (simp_all add: life_served_def handler_serve_def life_killed_sel set_handler_def)
qed

lemmas then_step = rtranclp.rtrancl_into_rtrancl[of server_step]

lemma life_reach_serving: "server_step\<^sup>*\<^sup>* (server_init None None) life_serving"
proof -
  let ?s1 = "start_listen life_setup (server_init None None)"
  let ?s2 = "start_restore (Inr ''me'') 0 (\<lambda>_. Inr JNull) ?s1"
  let ?s3 = "accept_conn (frame life_request) ?s2"
  let ?s4 = "check_shutdown 0 ?s3"
  let ?s5 = "admit 0 ?s4"
  have "server_step (server_init None None) ?s1" unfolding life_setup_def by (rule st_listen) (simp add: server_init_def)
  then have "server_step\<^sup>*\<^sup>* (server_init None None) ?s2" by (rule then_step[OF r_into_rtranclp st_restore]) (simp add: life_eval)
  then have "server_step\<^sup>*\<^sup>* (server_init None None) ?s3" by (rule then_step[OF _ st_accept]) (simp_all add: life_eval)
  then have "server_step\<^sup>*\<^sup>* (server_init None None) ?s4" by (rule then_step[OF _ st_check]) (simp add: life_eval)
  then have "server_step\<^sup>*\<^sup>* (server_init None None) ?s5" by (rule then_step[OF _ st_admit]) (simp add: life_eval)
  then show ?thesis unfolding life_serving_def by (rule then_step[OF _ st_read]) (simp add: life_eval)
qed

lemma life_reach_killed: "server_step\<^sup>*\<^sup>* (server_init None None) life_killed"
proof -
  let ?s1 = "stop_begin life_serving"
  let ?s2 = "stop_mark ?s1"
  let ?s3 = "stop_unlisten ?s2"
  let ?s4 = "stop_save [] (\<lambda>_. Inr '''') (\<lambda>x. (None, Some x)) ?s3"
  note sel = life_serving_sel stop_begin_def stop_mark_def stop_unlisten_def stop_save_def Let_def NewServer_def NewManager_def
  have "server_step\<^sup>*\<^sup>* (server_init None None) ?s1" by (rule then_step[OF life_reach_serving st_begin]) (simp add: sel)
  then have "server_step\<^sup>*\<^sup>* (server_init None None) ?s2" by (rule then_step[OF _ st_mark]) (simp add: sel)
  then have "server_step\<^sup>*\<^sup>* (server_init None None) ?s3" by (rule then_step[OF _ st_unlisten]) (simp add: sel)
  then have "server_step\<^sup>*\<^sup>* (server_init None None) ?s4" by (rule then_step[OF _ st_save]) (simp_all add: sel)
  then show ?thesis unfolding life_killed_def by (rule then_step[OF _ st_kill]) (simp_all add: sel)
qed

lemma life_reach_over: "server_step\<^sup>*\<^sup>* (server_init None None) life_over"
proof -
  let ?s1 = "closeActiveConns life_served"
  let ?s2 = "handler_read 0 ?s1"
  let ?s3 = "handler_remove 0 ?s2"
  let ?s4 = "handler_done 0 ?s3"
  let ?s5 = "stop_drained ?s4"
  note sel = life_served_sel srv_defs
  have "server_step\<^sup>*\<^sup>* (server_init None None) life_served"
    by (rule then_step[OF life_reach_killed st_serve[OF _ _ life_serve]])
      (simp_all add: life_killed_sel env_ok_def NewServer_def NewManager_def NewService_def)
  then have "server_step\<^sup>*\<^sup>* (server_init None None) ?s1" by (rule then_step[OF _ st_close]) (simp add: sel)
  then have "server_step\<^sup>*\<^sup>* (server_init None None) ?s2" by (rule then_step[OF _ st_read]) (simp add: sel)
  then have "server_step\<^sup>*\<^sup>* (server_init None None) ?s3" by (rule then_step[OF _ st_remove]) (simp add: sel)
  then have "server_step\<^sup>*\<^sup>* (server_init None None) ?s4" by (rule then_step[OF _ st_done]) (simp add: sel)
  then have "server_step\<^sup>*\<^sup>* (server_init None None) ?s5" by (rule then_step[OF _ st_drained]) (simp_all add: sel)
  then show ?thesis unfolding life_over_def by (rule then_step[OF _ st_cleanup]) (simp add: sel)
qed

lemma life_over_sel:
  "srv_stop life_over = StopReturned" "d_mgr (srv_daemon life_over) = d_mgr demo_d1"
  by (simp_all add: life_over_def life_served_sel srv_defs)

text \<open>
  C37: a shutdown can complete and leave a session connected.  There is a run in which a connect
  request is still being served when the shutdown kills the sessions: its session is registered
  and its connection opened after that, and when the shutdown has returned they are still there,
  though the connection's goroutine has been waited for.
\<close>

theorem shutdown_leaves_connection:
  "\<exists>s. server_step\<^sup>*\<^sup>* (server_init None None) s \<and> runDaemon True s = Some None
     \<and> netOpen (d_mgr (srv_daemon s)) = {0} \<and> sessions (d_mgr (srv_daemon s)) = [''u@h'' \<mapsto> 0]"
  using life_reach_over by (intro exI[of _ life_over]) (simp add: runDaemon_def life_over_sel demo_d1_sel)


theorem drain_ends_witness:
  "server_step life_killed (closeActiveConns life_killed) \<and> drain_work life_killed \<le> 4"
  using drain_ends[OF life_reach_killed life_killed_sel(3) rtranclp.rtrancl_refl] by (simp add: life_killed_sel)

end
