(* ===== verification/Go_Flag.thy ===== *)
theory Go_Flag
  imports Gssh_Prelude
begin

text \<open>
  Go's \<open>flag\<close> package as the command line uses it (\<open>FlagSet\<close> with \<open>ContinueOnError\<close>: string, integer
  and boolean flags), with \<open>strconv.ParseInt\<close> in base 0 and \<open>strconv.ParseBool\<close>, which it calls.  What
  the package prints on an error (its message and the usage) is left out.
\<close>

section \<open>Numbers\<close>

definition char_lower :: "char \<Rightarrow> nat" where
  "char_lower c = (let n = of_char c :: nat in if 65 \<le> n \<and> n \<le> 90 then n + 32 else n)"

text \<open>The value of a digit up to \<open>z\<close>, in either case.\<close>

definition digit_of :: "char \<Rightarrow> nat option" where
  "digit_of c =
     (if is_digit c then Some (of_char c - 48)
      else if 97 \<le> char_lower c \<and> char_lower c \<le> 122 then Some (char_lower c - 97 + 10) else None)"

text \<open>\<open>ParseUint\<close>'s loop in base 0: underscores are skipped.\<close>

fun base_val :: "nat \<Rightarrow> nat \<Rightarrow> string \<Rightarrow> nat option" where
  "base_val b acc [] = Some acc"
| "base_val b acc (c # cs) =
     (if c = CHR ''_'' then base_val b acc cs
      else (case digit_of c of
              None \<Rightarrow> None
            | Some d \<Rightarrow> if b \<le> d then None else base_val b (b * acc + d) cs))"

text \<open>The base and the digits of an unsigned literal.\<close>

definition literal_base :: "string \<Rightarrow> nat \<times> string" where
  "literal_base s =
     (case s of
        c # d # e # r \<Rightarrow>
          if c \<noteq> CHR ''0'' then (10, s)
          else if char_lower d = of_char (CHR ''b'') then (2, e # r)
          else if char_lower d = of_char (CHR ''o'') then (8, e # r)
          else if char_lower d = of_char (CHR ''x'') then (16, e # r)
          else (8, d # e # r)
      | c # r \<Rightarrow> if c \<noteq> CHR ''0'' then (10, s) else (8, r)
      | [] \<Rightarrow> (10, []))"

text \<open>\<open>underscoreOK\<close>: underscores only between digits, or between a base prefix and a digit.\<close>

datatype saw = SawBegin | SawDigit | SawUnderscore | SawOther

fun underscore_loop :: "bool \<Rightarrow> saw \<Rightarrow> string \<Rightarrow> bool" where
  "underscore_loop hex s [] = (s \<noteq> SawUnderscore)"
| "underscore_loop hex s (c # cs) =
     (if is_digit c \<or> (hex \<and> 97 \<le> char_lower c \<and> char_lower c \<le> 102) then underscore_loop hex SawDigit cs
      else if c = CHR ''_'' then s = SawDigit \<and> underscore_loop hex SawUnderscore cs
      else s \<noteq> SawUnderscore \<and> underscore_loop hex SawOther cs)"

definition underscoreOK :: "string \<Rightarrow> bool" where
  "underscoreOK s =
     (case s of
        c # d # r \<Rightarrow>
          if c = CHR ''0'' \<and> char_lower d \<in> {of_char (CHR ''b''), of_char (CHR ''o''), of_char (CHR ''x'')}
          then underscore_loop (char_lower d = of_char (CHR ''x'')) SawDigit r
          else underscore_loop False SawBegin s
      | _ \<Rightarrow> underscore_loop False SawBegin s)"

text \<open>\<open>ParseInt(s, 0, 64)\<close>.\<close>

definition ParseInt0 :: "string \<Rightarrow> int option" where
  "ParseInt0 s =
     (let (neg, u) = (case s of [] \<Rightarrow> (False, [])
                      | c # cs \<Rightarrow> if c = CHR ''-'' then (True, cs) else if c = CHR ''+'' then (False, cs) else (False, s));
          (b, ds) = literal_base u
      in if u = [] then None
         else if CHR ''_'' \<in> set ds \<and> \<not> underscoreOK u then None
         else (case base_val b 0 ds of
                 None \<Rightarrow> None
               | Some n \<Rightarrow> let v = (if neg then - int n else int n)
                           in if - (2 ^ 63) \<le> v \<and> v < 2 ^ 63 then Some v else None))"

definition ParseBool :: "string \<Rightarrow> bool option" where
  "ParseBool s =
     (if s \<in> {''1'', ''t'', ''T'', ''true'', ''TRUE'', ''True''} then Some True
      else if s \<in> {''0'', ''f'', ''F'', ''false'', ''FALSE'', ''False''} then Some False
      else None)"

section \<open>Flag sets\<close>

datatype fval = FStr string | FInt int | FBool bool

text \<open>The declared flags with their current values.\<close>

type_synonym flagset = "(string \<times> fval) list"

fun set_flag :: "string \<Rightarrow> fval \<Rightarrow> flagset \<Rightarrow> flagset" where
  "set_flag n v [] = []"
| "set_flag n v ((m, w) # fs) = (if m = n then (m, v) # fs else (m, w) # set_flag n v fs)"

definition flag_str :: "flagset \<Rightarrow> string \<Rightarrow> string" where
  "flag_str fs n = (case map_of fs n of Some (FStr s) \<Rightarrow> s | _ \<Rightarrow> '''')"

definition flag_int :: "flagset \<Rightarrow> string \<Rightarrow> int" where
  "flag_int fs n = (case map_of fs n of Some (FInt i) \<Rightarrow> i | _ \<Rightarrow> 0)"

definition flag_bool :: "flagset \<Rightarrow> string \<Rightarrow> bool" where
  "flag_bool fs n = (case map_of fs n of Some (FBool b) \<Rightarrow> b | _ \<Rightarrow> False)"

text \<open>A flag's name and the value after \<open>=\<close>, if there is one.\<close>

definition name_value :: "string \<Rightarrow> string \<times> string option" where
  "name_value s = (case Index s CHR ''='' of None \<Rightarrow> (s, None) | Some i \<Rightarrow> (take i s, Some (drop (Suc i) s)))"

definition ErrHelp :: go_err where "ErrHelp = ExtErr ''flag: help requested''"

text \<open>Setting a flag that is not boolean from its text, by the type of its current value.\<close>

fun fset :: "fval \<Rightarrow> string \<Rightarrow> fval option" where
  "fset (FStr _) s = Some (FStr s)"
| "fset (FInt _) s = map_option FInt (ParseInt0 s)"
| "fset (FBool _) s = map_option FBool (ParseBool s)"

definition bad_value :: "string \<Rightarrow> string \<Rightarrow> go_err" where
  "bad_value v n = Errorf ''invalid value %q for flag -%s: %v'' [AStr v, AStr n]"

text \<open>\<open>FlagSet.Parse\<close>: the flags afterwards and the remaining arguments.\<close>

fun flag_Parse :: "flagset \<Rightarrow> string list \<Rightarrow> (flagset \<times> string list) res" where
  "flag_Parse fs [] = Inr (fs, [])"
| "flag_Parse fs (s # rest) =
     (if length s < 2 \<or> hd s \<noteq> CHR ''-'' then Inr (fs, s # rest)
      else if s = ''--'' then Inr (fs, rest)
      else let name0 = (if s ! 1 = CHR ''-'' then drop 2 s else drop 1 s) in
        if name0 = '''' \<or> hd name0 = CHR ''-'' \<or> hd name0 = CHR ''='' then Inl (Errorf ''bad flag syntax: %s'' [AStr s])
        else (case name_value name0 of (name, val) \<Rightarrow>
          (case map_of fs name of
             None \<Rightarrow> Inl (if name = ''help'' \<or> name = ''h'' then ErrHelp
                          else Errorf ''flag provided but not defined: -%s'' [AStr name])
           | Some (FBool b) \<Rightarrow>
               (case val of
                  None \<Rightarrow> flag_Parse (set_flag name (FBool True) fs) rest
                | Some v \<Rightarrow>
                    (case ParseBool v of
                       None \<Rightarrow> Inl (Errorf ''invalid boolean value %q for -%s: %v'' [AStr v, AStr name])
                     | Some x \<Rightarrow> flag_Parse (set_flag name (FBool x) fs) rest))
           | Some old \<Rightarrow>
               (case val of
                  Some v \<Rightarrow>
                    (case fset old v of
                       None \<Rightarrow> Inl (bad_value v name)
                     | Some x \<Rightarrow> flag_Parse (set_flag name x fs) rest)
                | None \<Rightarrow>
                    (case rest of
                       [] \<Rightarrow> Inl (Errorf ''flag needs an argument: -%s'' [AStr name])
                     | v # rest' \<Rightarrow>
                         (case fset old v of
                            None \<Rightarrow> Inl (bad_value v name)
                          | Some x \<Rightarrow> flag_Parse (set_flag name x fs) rest'))))))"


section \<open>Lemmas: numbers\<close>

lemma digit_of_digit: "is_digit c \<Longrightarrow> digit_of c = Some (of_char c - 48)" "is_digit c \<Longrightarrow> c \<noteq> CHR ''_''"
  by (auto simp: digit_of_def is_digit_def)

lemma base_val_digits: "\<forall>c\<in>set ds. is_digit c \<Longrightarrow> base_val 10 acc ds = digits_val acc ds"
proof (induction ds arbitrary: acc)
  case (Cons c cs)
  then have c: "is_digit c" by simp
  then have "\<not> 10 \<le> (of_char c :: nat) - 48" unfolding is_digit_def by linarith
  then show ?case using Cons c by (simp add: digit_of_digit)
qed simp

lemma digit_char_0: "digit_char n = CHR ''0'' \<Longrightarrow> n < 10 \<Longrightarrow> n = 0" "digit_char 0 = CHR ''0''"
proof -
  assume e: "digit_char n = CHR ''0''" and n: "n < 10"
  have "of_char (CHR ''0'') = 48 + n" using of_char_digit_char[OF n] unfolding e .
  then show "n = 0" by simp
next
  show "digit_char 0 = CHR ''0''" by code_simp
qed

lemma nat_digits_hd: "0 < n \<Longrightarrow> hd (nat_digits n) \<noteq> CHR ''0''"
proof (induction n rule: nat_digits.induct)
  case (1 n)
  show ?case
  proof (cases "n < 10")
    case True
    then have "digit_char n \<noteq> CHR ''0''" using digit_char_0(1)[of n] 1(2) by blast
    then show ?thesis using True by (subst nat_digits.simps) simp
  next
    case False
    then have "hd (nat_digits (n div 10)) \<noteq> CHR ''0''" using 1 by simp
    then show ?thesis using False by (subst nat_digits.simps) simp
  qed
qed

text \<open>Decimal numbers of Go's own printing parse to themselves.\<close>

lemma ParseInt0_Itoa:
  assumes "- (2 ^ 63) \<le> i" "i < 2 ^ 63"
  shows "ParseInt0 (Itoa i) = Some i"
proof -
  let ?n = "nat \<bar>i\<bar>" and ?ds = "nat_digits (nat \<bar>i\<bar>)"
  have dig: "\<forall>c\<in>set ?ds. is_digit c" using nat_digits_is_digit by blast
  obtain c cs where C: "?ds = c # cs" by (cases ?ds) auto
  then have c: "is_digit c" using dig by simp
  have us: "CHR ''_'' \<notin> set ?ds" using dig digit_of_digit(2) by blast
  have B: "\<exists>b ds. literal_base ?ds = (b, ds) \<and> base_val b 0 ds = Some ?n \<and> CHR ''_'' \<notin> set ds"
  proof (cases "?n = 0")
    case True
    then have "?ds = [CHR ''0'']" by (simp add: nat_digits.simps digit_char_0(2))
    then show ?thesis using True by (simp add: literal_base_def)
  next
    case False
    then have "c \<noteq> CHR ''0''" using nat_digits_hd[of ?n] C by simp
    then have "literal_base ?ds = (10, ?ds)" using C by (auto simp: literal_base_def split: list.splits)
    then show ?thesis using base_val_digits[OF dig, of 0] digits_val_nat_digits[of ?n] us by simp
  qed
  have "c \<noteq> CHR ''-''" "c \<noteq> CHR ''+''" using c digit_not_special by blast+
  then show ?thesis using B C assms by (cases "i < 0") (auto simp: ParseInt0_def Itoa_def)
qed

section \<open>Lemmas: parsing\<close>

lemma set_flag_map_of: "map_of (set_flag n v fs) m = (if m = n \<and> map_of fs n \<noteq> None then Some v else map_of fs m)"
  by (induction fs) auto

text \<open>An argument that sets one flag, and when it is legal.\<close>

definition flag_arg :: "string \<times> fval \<Rightarrow> string" where
  "flag_arg a = ''-'' @ fst a @ ''='' @
     (case snd a of FStr s \<Rightarrow> s | FInt i \<Rightarrow> Itoa i | FBool b \<Rightarrow> if b then ''true'' else ''false'')"

fun same_kind :: "fval \<Rightarrow> fval \<Rightarrow> bool" where
  "same_kind (FStr _) (FStr _) = True" | "same_kind (FInt _) (FInt _) = True" | "same_kind (FBool _) (FBool _) = True"
| "same_kind _ _ = False"

definition flag_ok :: "flagset \<Rightarrow> string \<times> fval \<Rightarrow> bool" where
  "flag_ok fs a \<longleftrightarrow> fst a \<noteq> '''' \<and> hd (fst a) \<noteq> CHR ''-'' \<and> CHR ''='' \<notin> set (fst a)
     \<and> (\<exists>w. map_of fs (fst a) = Some w \<and> same_kind (snd a) w)
     \<and> (case snd a of FInt i \<Rightarrow> - (2 ^ 63) \<le> i \<and> i < 2 ^ 63 | _ \<Rightarrow> True)"

lemma same_kind_trans: "same_kind x w \<Longrightarrow> same_kind y w \<Longrightarrow> same_kind y x"
  by (cases x; cases y; cases w) auto

lemma flag_ok_set:
  assumes "flag_ok fs a" "flag_ok fs b"
  shows "flag_ok (set_flag (fst a) (snd a) fs) b"
proof -
  obtain w where w: "map_of fs (fst a) = Some w" "same_kind (snd a) w" using assms(1) by (auto simp: flag_ok_def)
  obtain w' where w': "map_of fs (fst b) = Some w'" "same_kind (snd b) w'" using assms(2) by (auto simp: flag_ok_def)
  have "\<exists>v. map_of (set_flag (fst a) (snd a) fs) (fst b) = Some v \<and> same_kind (snd b) v"
  proof (cases "fst b = fst a")
    case True
    then show ?thesis using w w' same_kind_trans[OF w(2), of "snd b"] by (simp add: set_flag_map_of)
  next
    case False
    then show ?thesis using w' by (simp add: set_flag_map_of)
  qed
  then show ?thesis using assms(2) unfolding flag_ok_def by blast
qed

lemma flag_Parse_arg:
  assumes "flag_ok fs a"
  shows "flag_Parse fs (flag_arg a # rest) = flag_Parse (set_flag (fst a) (snd a) fs) rest"
proof -
  obtain n v where a: "a = (n, v)" by (cases a)
  obtain c cs where n: "n = c # cs" using assms a by (cases n) (auto simp: flag_ok_def)
  have c: "c \<noteq> CHR ''-''" "CHR ''='' \<notin> set n" "c \<noteq> CHR ''=''" using assms a n by (auto simp: flag_ok_def)
  define val where "val = (case v of FStr s \<Rightarrow> s | FInt i \<Rightarrow> Itoa i | FBool b \<Rightarrow> if b then ''true'' else ''false'')"
  have nv: "name_value (n @ ''='' @ val) = (n, Some val)"
    using Index_append[OF c(2), of val] by (simp add: name_value_def)
  obtain w where w: "map_of fs n = Some w" "same_kind v w" using assms a by (auto simp: flag_ok_def)
  let ?s = "flag_arg a"
  have s: "\<not> (length ?s < 2 \<or> hd ?s \<noteq> CHR ''-'')" "?s \<noteq> ''--''" "?s ! 1 \<noteq> CHR ''-''" "drop 1 ?s = n @ ''='' @ val"
    using c by (auto simp: flag_arg_def val_def a n)
  have h: "\<not> (n @ ''='' @ val = '''' \<or> hd (n @ ''='' @ val) = CHR ''-'' \<or> hd (n @ ''='' @ val) = CHR ''='')"
    using c by (simp add: n)
  have "flag_Parse fs (?s # rest) = (case w of
      FBool b \<Rightarrow> (case ParseBool val of None \<Rightarrow> Inl (Errorf ''invalid boolean value %q for -%s: %v'' [AStr val, AStr n])
        | Some x \<Rightarrow> flag_Parse (set_flag n (FBool x) fs) rest)
    | _ \<Rightarrow> (case fset w val of None \<Rightarrow> Inl (bad_value val n) | Some x \<Rightarrow> flag_Parse (set_flag n x fs) rest))"
    by (subst flag_Parse.simps(2), cases w) (simp_all only: s h if_False Let_def nv w(1) prod.case option.case simp_thms fval.case)
  also have "\<dots> = flag_Parse (set_flag n v fs) rest"
    using w(2) assms ParseInt0_Itoa by (cases v; cases w) (simp_all add: a flag_ok_def ParseBool_def val_def)
  finally show ?thesis by (simp add: a)
qed

text \<open>Flags given as arguments are set in order, and what follows \<open>--\<close> is left as it is.\<close>

lemma flag_Parse_args:
  "list_all (flag_ok fs) as \<Longrightarrow>
   flag_Parse fs (map flag_arg as @ ''--'' # pos) = Inr (foldl (\<lambda>f a. set_flag (fst a) (snd a) f) fs as, pos)"
proof (induction as arbitrary: fs)
  case (Cons a as)
  then have "list_all (flag_ok (set_flag (fst a) (snd a) fs)) as" using flag_ok_set by (auto simp: list_all_iff)
  then show ?case using Cons by (simp add: flag_Parse_arg del: flag_Parse.simps)
qed simp

text \<open>The first argument that is not a flag ends the flags.\<close>

lemma flag_Parse_stops: "length s < 2 \<or> hd s \<noteq> CHR ''-'' \<Longrightarrow> flag_Parse fs (s # rest) = Inr (fs, s # rest)"
  by simp

text \<open>The flags keep their names and types, and what is left is the end of the arguments.\<close>

lemma set_flag_kinds:
  "map_of fs n = Some w \<Longrightarrow> same_kind v w \<Longrightarrow>
   map fst (set_flag n v fs) = map fst fs \<and> list_all2 (\<lambda>x y. same_kind (snd x) (snd y)) (set_flag n v fs) fs"
proof (induction fs)
  case (Cons x fs)
  have refl: "list_all2 (\<lambda>x y. same_kind (snd x) (snd y)) fs fs"
    by (rule list_all2_refl) (auto, metis same_kind.simps(1-3) fval.exhaust)
  have "same_kind b b" for b by (cases b) auto
  then show ?case using Cons refl by (cases x) auto
qed simp

end
