(* ===== verification/Cli_Commands.thy ===== *)
theory Cli_Commands
  imports Rpc_Client Go_Flag
begin

text \<open>
  The command line: \<open>cmd/gssh/main.go\<close>, \<open>cmd/gssh/dest.go\<close> and \<open>cmd/gssh/commands.go\<close>.  Each handler
  parses its flags, makes its requests through the model of the client, and prints.  What is
  printed is kept as the calls of the \<open>fmt\<close> package, formats without their final newline.
\<close>

section \<open>Output and environment\<close>

datatype outp =
    Printf string "go_arg list"
  | Println string
  | PrintRaw string
  | PrintLine "byte list"
  | ErrPrintf string "go_arg list"
  | ErrRaw string
  | Usage

type_synonym run = "(outp list \<times> finish) option"

text \<open>
  What a command depends on: the socket environment, the current user, the requests it makes in
  order (\<open>ce_rpc k\<close> for the \<open>k\<close>-th), the dial \<open>gssh start\<close> makes itself, and how a daemon run in the
  foreground on a socket path ends (\<open>None\<close>: it does not).
\<close>

record cli_env =
  ce_sock :: sock_env
  ce_user :: "string res"
  ce_rpc :: "nat \<Rightarrow> rpc_env"
  ce_probe :: dial_env
  ce_server :: "string \<Rightarrow> go_err option option"

definition ok :: "outp list \<Rightarrow> run" where "ok out = Some (out, Returned None)"
definition fails :: "go_err \<Rightarrow> run" where "fails e = Some ([], Returned (Some e))"

text \<open>The error checks every handler has: of the flags, of the request, and of its reply's JSON.\<close>

definition with_flags :: "flagset \<Rightarrow> string list \<Rightarrow> (flagset \<Rightarrow> string list \<Rightarrow> run) \<Rightarrow> run" where
  "with_flags fs args k = (case flag_Parse fs args of Inl e \<Rightarrow> fails e | Inr (f, pos) \<Rightarrow> k f pos)"

definition with_reply :: "byte list res option \<Rightarrow> (byte list \<Rightarrow> run) \<Rightarrow> run" where
  "with_reply r k = (case r of None \<Rightarrow> None | Some (Inl e) \<Rightarrow> fails e | Some (Inr data) \<Rightarrow> k data)"

definition with_json :: "rpc_env \<Rightarrow> (json \<Rightarrow> 'a option) \<Rightarrow> byte list \<Rightarrow> ('a \<Rightarrow> run) \<Rightarrow> run" where
  "with_json C dec data k =
     (case unmarshal C dec data of
        Inl e \<Rightarrow> fails (Errorf ''failed to parse result: %w'' [AErr e])
      | Inr x \<Rightarrow> k x)"

definition streams :: "(finish \<times> string \<times> string) option \<Rightarrow> run" where
  "streams r = map_option (\<lambda>(f, out, err). ([PrintRaw out, ErrRaw err], f)) r"

section \<open>Decoding replies\<close>

fun dec_SessionInfo :: "json \<Rightarrow> SessionInfo option" where
  "dec_SessionInfo (JObj ms) =
     bind_opt (fstr ''name'' ms) (\<lambda>n. bind_opt (fstr ''type'' ms) (\<lambda>t. bind_opt (fstr ''host'' ms) (\<lambda>h.
     bind_opt (fstr ''user'' ms) (\<lambda>u. bind_opt (fint ''port'' ms) (\<lambda>p. bind_opt (fstr ''status'' ms) (\<lambda>s.
     bind_opt (fstr ''key_path'' ms) (\<lambda>k. bind_opt (fstr ''last_cmd'' ms) (\<lambda>l. bind_opt (fint ''created_at'' ms) (\<lambda>c.
       Some \<lparr>si_Name = n, si_Type = t, si_Host = h, si_User = u, si_Port = p, si_Status = s, si_KeyPath = k,
         si_LastCmd = l, si_CreatedAt = c\<rparr>)))))))))"
| "dec_SessionInfo JNull = Some \<lparr>si_Name = '''', si_Type = '''', si_Host = '''', si_User = '''', si_Port = 0,
     si_Status = '''', si_KeyPath = '''', si_LastCmd = '''', si_CreatedAt = 0\<rparr>"
| "dec_SessionInfo _ = None"

fun dec_ForwardInfo :: "json \<Rightarrow> ForwardInfo option" where
  "dec_ForwardInfo (JObj ms) =
     bind_opt (fstr ''id'' ms) (\<lambda>i. bind_opt (fstr ''session'' ms) (\<lambda>s. bind_opt (fstr ''type'' ms) (\<lambda>t.
     bind_opt (fint ''local_port'' ms) (\<lambda>l. bind_opt (fint ''remote_port'' ms) (\<lambda>r. bind_opt (fstr ''bind_addr'' ms) (\<lambda>b.
       Some \<lparr>i_ID = i, i_Session = s, i_Type = t, i_LocalPort = l, i_RemotePort = r, i_BindAddr = b\<rparr>))))))"
| "dec_ForwardInfo JNull = Some \<lparr>i_ID = '''', i_Session = '''', i_Type = '''', i_LocalPort = 0, i_RemotePort = 0, i_BindAddr = ''''\<rparr>"
| "dec_ForwardInfo _ = None"

fun dec_TransferResult :: "json \<Rightarrow> TransferResult option" where
  "dec_TransferResult (JObj ms) =
     bind_opt (fbool ''success'' ms) (\<lambda>s. bind_opt (fstr ''message'' ms) (\<lambda>m. bind_opt (fint ''bytes'' ms) (\<lambda>b.
     bind_opt (fint ''duration_ms'' ms) (\<lambda>d. Some \<lparr>tr_Success = s, tr_Message = m, tr_Bytes = b, tr_Duration = d\<rparr>))))"
| "dec_TransferResult JNull = Some \<lparr>tr_Success = False, tr_Message = '''', tr_Bytes = 0, tr_Duration = 0\<rparr>"
| "dec_TransferResult _ = None"

text \<open>A slice; \<open>None\<close> inside is the nil slice, which \<open>null\<close> decodes to and which encodes to \<open>null\<close>.\<close>

fun dec_all :: "(json \<Rightarrow> 'a option) \<Rightarrow> json list \<Rightarrow> 'a list option" where
  "dec_all dec [] = Some []"
| "dec_all dec (j # js) = bind_opt (dec j) (\<lambda>x. bind_opt (dec_all dec js) (\<lambda>xs. Some (x # xs)))"

fun dec_slice :: "(json \<Rightarrow> 'a option) \<Rightarrow> json \<Rightarrow> 'a list option option" where
  "dec_slice dec (JArr js) = map_option Some (dec_all dec js)"
| "dec_slice dec JNull = Some None"
| "dec_slice dec _ = None"

definition enc_slice :: "('a \<Rightarrow> json) \<Rightarrow> 'a list option \<Rightarrow> json" where
  "enc_slice enc xs = (case xs of None \<Rightarrow> JNull | Some ys \<Rightarrow> JArr (map enc ys))"

definition elems :: "'a list option \<Rightarrow> 'a list" where
  "elems xs = (case xs of None \<Rightarrow> [] | Some ys \<Rightarrow> ys)"

fun dec_fname :: "json \<Rightarrow> string option" where
  "dec_fname (JStr s) = Some s" | "dec_fname JNull = Some ''''" | "dec_fname _ = None"

section \<open>Destinations and specifications\<close>

definition parseDestination :: "string res \<Rightarrow> string \<Rightarrow> (string \<times> string) res" where
  "parseDestination current dest =
     (let (u, h) = (case LastIndex dest CHR ''@'' of Some i \<Rightarrow> (take i dest, drop (Suc i) dest) | None \<Rightarrow> ('''', dest)) in
      case (if u = '''' then current else Inr u) of
        Inl e \<Rightarrow> Inl (Errorf ''no user in destination %q and cannot determine current user: %w'' [AStr dest, AErr e])
      | Inr user \<Rightarrow> if h = '''' then Inl (Errorf ''empty host in destination %q'' [AStr dest]) else Inr (user, h))"

definition splitRemoteSpec :: "string \<Rightarrow> (string \<times> string) option" where
  "splitRemoteSpec s =
     (case Index s CHR '':'' of
        None \<Rightarrow> None
      | Some i \<Rightarrow>
          if i < 1 then None
          else if ContainsAny (take i s) [CHR ''/'', CHR 0x5C] then None
          else if length (take i s) = 1 \<and> HasPrefix (drop (Suc i) s) [CHR 0x5C] then None
          else Some (take i s, if drop (Suc i) s = '''' then ''.'' else drop (Suc i) s))"

definition parseForwardSpec :: "string \<Rightarrow> (int \<times> int) res" where
  "parseForwardSpec spec =
     (case SplitAt CHR '':'' spec of
        [p, q] \<Rightarrow>
          (case (Atoi p, Atoi q) of
             (Some a, Some b) \<Rightarrow>
               if a < 1 \<or> a > 65535 \<or> b < 1 \<or> b > 65535
               then Inl (Errorf ''invalid forward spec %q: both ports must be 1-65535'' [AStr spec])
               else Inr (a, b)
           | _ \<Rightarrow> Inl (Errorf ''invalid forward spec %q: both ports must be 1-65535'' [AStr spec]))
      | _ \<Rightarrow> Inl (Errorf ''invalid forward spec %q: want <port>:<port>'' [AStr spec]))"


section \<open>Handlers\<close>

definition handleStart :: "rpc_env \<Rightarrow> dial_env \<Rightarrow> run" where
  "handleStart C P =
     (let path = rc_path C;
          start =
            (case startDaemon (rc_start C) (rc_env C) path of
               (Some e, _) \<Rightarrow> fails (Errorf ''failed to start daemon: %w'' [AErr e])
             | (None, _) \<Rightarrow>
                 (case waitForDaemon (rc_attempt C) (rc_clock C) (rc_clock C 0 + daemonReadyTimeout) (rc_env C) path 1 of
                    None \<Rightarrow> None
                  | Some (Inl e) \<Rightarrow> fails e
                  | Some (Inr c) \<Rightarrow> ok [Printf ''Daemon started (socket: %s, log: %s)'' [AStr path, AStr (daemonLogPath (rc_env C))]]))
      in case sk_Lstat (de_sock P) path of
           Inl e \<Rightarrow> if err_is ENOENT e then start else fails (Errorf ''failed to inspect socket path: %w'' [AErr e])
         | Inr _ \<Rightarrow>
             (case Validate (de_sock P) path of
                Some e \<Rightarrow> fails e
              | None \<Rightarrow>
                  (case de_dial P of
                     Inl _ \<Rightarrow> start
                   | Inr c \<Rightarrow> (case verifyDaemonPeer (Geteuid (de_sock P)) (de_peer P) of Some e \<Rightarrow> fails e | None \<Rightarrow> ok [Printf ''Daemon is already running'' []]))))"

definition connect_request :: "rpc_env \<Rightarrow> ConnectParams \<Rightarrow> byte list res option" where
  "connect_request C p = sendRequestWithTimeout C MsgConnect (Some (enc_ConnectParams p)) connectRPCTimeout"

definition connected_line :: "SessionInfo \<Rightarrow> outp" where
  "connected_line i = Printf ''Connected: %s@%s (name: %s, type: %s)''
     [AStr (si_User i), AStr (si_Host i), AStr (si_Name i), AStr (si_Type i)]"

definition handleConnect :: "rpc_env \<Rightarrow> string res \<Rightarrow> string list \<Rightarrow> run" where
  "handleConnect C current args =
     with_flags [(''p'', FInt 22), (''i'', FStr ''''), (''pswd'', FStr ''''), (''n'', FStr '''')] args (\<lambda>f pos.
       case pos of
         [dest] \<Rightarrow>
           (case parseDestination current dest of
              Inl e \<Rightarrow> fails e
            | Inr (user, host) \<Rightarrow>
                with_reply (connect_request C \<lparr>cp_Name = flag_str f ''n'', cp_User = user, cp_Host = host, cp_Port = flag_int f ''p'',
                    cp_Password = flag_str f ''pswd'', cp_KeyPath = flag_str f ''i''\<rparr>) (\<lambda>result.
                  with_json C dec_SessionInfo result (\<lambda>info. ok [connected_line info])))
       | _ \<Rightarrow> fails (Errorf ''destination required: gssh connect [flags] user@host'' []))"

definition handleLocal :: "rpc_env \<Rightarrow> string list \<Rightarrow> run" where
  "handleLocal C args =
     with_flags [(''n'', FStr '''')] args (\<lambda>f pos.
       with_reply (sendRequest C MsgLocal (Some (enc_NameParams (flag_str f ''n'')))) (\<lambda>result.
         with_json C dec_SessionInfo result (\<lambda>info. ok [Printf ''Local session created: %s'' [AStr (si_Name info)]])))"

definition handleUse :: "rpc_env \<Rightarrow> string list \<Rightarrow> run" where
  "handleUse C args =
     with_flags [(''pswd'', FStr ''''), (''i'', FStr '''')] args (\<lambda>f pos.
       case pos of
         [] \<Rightarrow> fails (Errorf ''session name required'' [])
       | name # _ \<Rightarrow>
           with_reply (sendRequestWithTimeout C MsgUse (Some (enc_UseParams
               \<lparr>up_Name = name, up_Password = flag_str f ''pswd'', up_KeyPath = flag_str f ''i''\<rparr>)) connectRPCTimeout)
             (\<lambda>_. ok [Printf ''Using session: %s'' [AStr name]]))"

definition handleKill :: "rpc_env \<Rightarrow> string list \<Rightarrow> run" where
  "handleKill C args =
     with_flags [(''n'', FStr '''')] args (\<lambda>f pos.
       let name = (if flag_str f ''n'' = '''' \<and> pos \<noteq> [] then hd pos else flag_str f ''n'') in
       with_reply (sendRequest C MsgKill (Some (enc_NameParams name))) (\<lambda>_. ok [Printf ''Killed'' []]))"

definition printExecResult :: "rpc_env \<Rightarrow> byte list \<Rightarrow> bool \<Rightarrow> run" where
  "printExecResult C result rawOut =
     with_json C dec_ExecResult result (\<lambda>r.
       let code = (if er_ExitCode r \<noteq> 0 then Exited (er_ExitCode r) else Returned None) in
       if rawOut then Some (PrintRaw (er_Stdout r) # (if er_Stderr r \<noteq> '''' then [ErrRaw (er_Stderr r)] else []), code)
       else (case rc_marshal C (enc_ExecResult r) of
               Inl e \<Rightarrow> fails (Errorf ''failed to encode result: %w'' [AErr e])
             | Inr data \<Rightarrow> Some ([PrintLine data], code)))"

definition exec_flags :: flagset where
  "exec_flags = [(''t'', FInt 0), (''sudo'', FBool False), (''pswd'', FStr ''''), (''sudo-user'', FStr ''''),
     (''sudo-login'', FBool False), (''stream'', FBool False), (''raw'', FBool False), (''json'', FBool False)]"

definition sudo_options :: "flagset \<Rightarrow> SudoOptions" where
  "sudo_options f = \<lparr>so_Enabled = flag_bool f ''sudo'', so_Password = flag_str f ''pswd'', so_User = flag_str f ''sudo-user'',
     so_Login = flag_bool f ''sudo-login''\<rparr>"

definition exec_params :: "string \<Rightarrow> flagset \<Rightarrow> string list \<Rightarrow> ExecParams" where
  "exec_params name f pos =
     \<lparr>ep_Name = name, ep_Command = joinCommandArgs pos, ep_Timeout = flag_int f ''t'', ep_Sudo = sudo_options f\<rparr>"

text \<open>The common end of the exec commands: stream the output, or print the result.\<close>

definition exec_request :: "rpc_env \<Rightarrow> 16 word \<Rightarrow> 16 word \<Rightarrow> json \<Rightarrow> flagset \<Rightarrow> run" where
  "exec_request C meth meth_stream params f =
     (if flag_bool f ''stream'' then streams (sendStreamRequest C meth_stream params (flag_int f ''t''))
      else with_reply (sendRequestWithCmdTimeout C meth (Some params) (flag_int f ''t''))
             (\<lambda>result. printExecResult C result (flag_bool f ''raw'')))"

definition handleExec :: "rpc_env \<Rightarrow> string list \<Rightarrow> run" where
  "handleExec C args =
     with_flags ((''n'', FStr '''') # exec_flags) args (\<lambda>f pos.
       if pos = [] then fails (Errorf ''command required'' [])
       else exec_request C MsgExec MsgExecStream (enc_ExecParams (exec_params (flag_str f ''n'') f pos)) f)"

definition handleRun :: "rpc_env \<Rightarrow> string list \<Rightarrow> run" where
  "handleRun C args =
     with_flags exec_flags args (\<lambda>f pos.
       if pos = [] then fails (Errorf ''command required'' [])
       else exec_request C MsgLocalExec MsgLocalExecStream
         (enc_LocalExecParams \<lparr>lp_Command = joinCommandArgs pos, lp_Timeout = flag_int f ''t'', lp_Sudo = sudo_options f\<rparr>) f)"

text \<open>\<open>handleDestination\<close>: the first request connects, the second runs the command.\<close>

definition handleDestination :: "(nat \<Rightarrow> rpc_env) \<Rightarrow> string res \<Rightarrow> string \<Rightarrow> string list \<Rightarrow> run" where
  "handleDestination Cs current dest args =
     with_flags ([(''p'', FInt 22), (''i'', FStr ''''), (''n'', FStr '''')] @ exec_flags) args (\<lambda>f pos.
       case parseDestination current dest of
         Inl e \<Rightarrow> fails e
       | Inr (user, host) \<Rightarrow>
           with_reply (connect_request (Cs 0) \<lparr>cp_Name = flag_str f ''n'', cp_User = user, cp_Host = host, cp_Port = flag_int f ''p'',
               cp_Password = flag_str f ''pswd'', cp_KeyPath = flag_str f ''i''\<rparr>) (\<lambda>result.
             with_json (Cs 0) dec_SessionInfo result (\<lambda>info.
               if pos = [] then ok [connected_line info]
               else exec_request (Cs 1) MsgExec MsgExecStream (enc_ExecParams (exec_params (si_Name info) f pos)) f)))"

definition print_slice ::
  "rpc_env \<Rightarrow> ('a \<Rightarrow> json) \<Rightarrow> 'a list option \<Rightarrow> flagset \<Rightarrow> string \<Rightarrow> string \<Rightarrow> ('a \<Rightarrow> outp option) \<Rightarrow> run" where
  "print_slice C enc xs f none header line =
     (if flag_bool f ''json''
      then (case rc_marshal C (enc_slice enc xs) of
              Inl e \<Rightarrow> fails (Errorf ''failed to encode result: %w'' [AErr e])
            | Inr data \<Rightarrow> ok [PrintLine data])
      else if elems xs = [] then ok [Printf none []]
      else if \<forall>x\<in>set (elems xs). line x \<noteq> None
      then ok (Printf header [] # map (\<lambda>x. the (line x)) (elems xs))
      else Some (Printf header [] # map the (takeWhile (\<lambda>l. l \<noteq> None) (map line (elems xs))), Panicked))"

definition handleList :: "rpc_env \<Rightarrow> string list \<Rightarrow> run" where
  "handleList C args =
     with_flags [(''json'', FBool False)] args (\<lambda>f pos.
       with_reply (sendRequest C MsgList None) (\<lambda>result.
         with_json C (dec_slice dec_SessionInfo) result (\<lambda>xs.
           print_slice C enc_SessionInfo xs f ''No sessions''
             ''NAME              TYPE     HOST              USER    STATUS'' (\<lambda>s.
               Some (Printf ''%-16s %-8s %-17s %-7s %s''
                 [AStr (si_Name s), AStr (si_Type s), AStr (si_Host s), AStr (si_User s), AStr (si_Status s)])))))"


text \<open>\<open>info.ID[:8]\<close>, which panics for a shorter string.\<close>

definition short_id :: "string \<Rightarrow> string option" where
  "short_id s = (if length s < 8 then None else Some (take 8 s))"

definition shown_bind :: "ForwardInfo \<Rightarrow> string" where
  "shown_bind i = (if i_BindAddr i = '''' then ''127.0.0.1'' else i_BindAddr i)"

text \<open>The parameters of a forward from its flags.\<close>

definition forward_params :: "flagset \<Rightarrow> ForwardParams res" where
  "forward_params f =
     (let L = flag_str f ''L''; R = flag_str f ''R''; addr = flag_str f ''bind''; public = flag_bool f ''public'' in
      if L \<noteq> '''' \<and> R \<noteq> '''' then Inl (Errorf ''-L and -R cannot be used together'' [])
      else if L = '''' \<and> R = ''''
      then Inl (Errorf ''forward spec required: -L localPort:remotePort or -R remotePort:localPort'' [])
      else (case parseForwardSpec (if R \<noteq> '''' then R else L) of
              Inl e \<Rightarrow> Inl e
            | Inr (first, second) \<Rightarrow>
                if R = '''' then
                  if public \<or> addr \<noteq> '''' then Inl (Errorf ''--bind/--public are only valid with -R'' [])
                  else Inr \<lparr>fp_Name = flag_str f ''n'', fp_Type = ''local'', fp_LocalPort = first, fp_RemotePort = second,
                         fp_BindAddr = ''''\<rparr>
                else if public \<and> addr \<noteq> '''' then Inl (Errorf ''--public and --bind cannot be used together'' [])
                else Inr \<lparr>fp_Name = flag_str f ''n'', fp_Type = ''remote'', fp_LocalPort = second, fp_RemotePort = first,
                       fp_BindAddr = (if public then ''0.0.0.0'' else if addr \<noteq> '''' then addr else ''127.0.0.1'')\<rparr>))"

definition handleForward :: "rpc_env \<Rightarrow> string list \<Rightarrow> run" where
  "handleForward C args =
     with_flags [(''n'', FStr ''''), (''L'', FStr ''''), (''R'', FStr ''''), (''bind'', FStr ''''), (''public'', FBool False)] args (\<lambda>f pos.
       case forward_params f of
         Inl e \<Rightarrow> fails e
       | Inr params \<Rightarrow>
           with_reply (sendRequest C MsgForward (Some (enc_ForwardParams params))) (\<lambda>result.
             with_json C dec_ForwardInfo result (\<lambda>info.
               case short_id (i_ID info) of
                 None \<Rightarrow> Some ([], Panicked)
               | Some id8 \<Rightarrow>
                   if i_Type info = ''remote''
                   then ok [Printf ''Forward started: %s %d:%s:%d (ID: %s)''
                          [AStr (i_Type info), AInt (i_LocalPort info), AStr (shown_bind info), AInt (i_RemotePort info), AStr id8]]
                   else ok [Printf ''Forward started: %s %d:%d (ID: %s)''
                          [AStr (i_Type info), AInt (i_LocalPort info), AInt (i_RemotePort info), AStr id8]])))"

definition handleForwards :: "rpc_env \<Rightarrow> string list \<Rightarrow> run" where
  "handleForwards C args =
     with_flags [(''json'', FBool False)] args (\<lambda>f pos.
       with_reply (sendRequest C MsgForwards None) (\<lambda>result.
         with_json C (dec_slice dec_ForwardInfo) result (\<lambda>xs.
           print_slice C enc_ForwardInfo xs f ''No forwards''
             ''ID        SESSION         TYPE     BIND            LOCAL  REMOTE'' (\<lambda>i.
               map_option (\<lambda>id8. Printf ''%-9s %-15s %-8s %-15s %-6d %d''
                 [AStr id8, AStr (i_Session i), AStr (i_Type i), AStr (if i_Type i = ''remote'' then shown_bind i else ''-''),
                  AInt (i_LocalPort i), AInt (i_RemotePort i)]) (short_id (i_ID i))))))"

definition enc_IDParams :: "string \<Rightarrow> json" where
  "enc_IDParams i = JObj [(''id'', JStr i)]"

definition handleForwardClose :: "rpc_env \<Rightarrow> string list \<Rightarrow> run" where
  "handleForwardClose C args =
     (case args of
        [] \<Rightarrow> fails (Errorf ''forward ID required'' [])
      | i # _ \<Rightarrow> with_reply (sendRequest C MsgForwardClose (Some (enc_IDParams i))) (\<lambda>_. ok [Printf ''Forward %s closed'' [AStr i]]))"

text \<open>The parameters of a transfer from its two arguments.\<close>

definition scp_params :: "string \<Rightarrow> string \<Rightarrow> SCPParams res" where
  "scp_params src dst =
     (case (splitRemoteSpec src, splitRemoteSpec dst) of
        (Some (sess, path), None) \<Rightarrow>
          if path = ''.'' then Inl (Errorf ''empty remote path: specify one explicitly (e.g. %s:/var/log/app.log)'' [AStr sess])
          else Inr \<lparr>sp_Name = sess, sp_Source = path, sp_Dest = dst, sp_IsUpload = False\<rparr>
      | (None, Some (sess, path)) \<Rightarrow> Inr \<lparr>sp_Name = sess, sp_Source = src, sp_Dest = path, sp_IsUpload = True\<rparr>
      | _ \<Rightarrow> Inl (Errorf ''exactly one side must be remote (session:path)'' []))"

definition handleSCP :: "rpc_env \<Rightarrow> string list \<Rightarrow> run" where
  "handleSCP C args =
     with_flags [] args (\<lambda>f pos.
       case pos of
         src # dst # _ \<Rightarrow>
           (case scp_params src dst of
              Inl e \<Rightarrow> fails e
            | Inr params \<Rightarrow>
                with_reply (sendRequest C MsgSCP (Some (enc_SCPParams params))) (\<lambda>result.
                  with_json C dec_TransferResult result (\<lambda>r.
                    if tr_Success r then ok [Printf ''Success: %s'' [AStr (tr_Message r)]]
                    else fails (Errorf ''failed: %s'' [AStr (tr_Message r)]))))
       | _ \<Rightarrow> fails (Errorf ''source and destination required: gssh scp <src> <dst> (one side session:path)'' []))"

definition handleSFTP :: "rpc_env \<Rightarrow> string list \<Rightarrow> run" where
  "handleSFTP C args =
     with_flags [(''n'', FStr '''')] args (\<lambda>f pos.
       case pos of
         [] \<Rightarrow> fails (Errorf ''SFTP command required: gssh sftp [-n session] ls|mkdir|rm <path>'' [])
       | command # rest \<Rightarrow>
           let arg1 = (case rest of [] \<Rightarrow> '''' | p # _ \<Rightarrow> p);
               path = (if arg1 = '''' \<and> command = ''ls'' then ''.'' else arg1);
               params = enc_SFTPParams \<lparr>fs_Name = flag_str f ''n'', fs_Command = command, fs_Path = path\<rparr>
           in if path = '''' then fails (Errorf ''path required: gssh sftp [-n session] %s <path>'' [AStr command])
              else if command = ''ls'' then
                with_reply (sendRequest C MsgSFTPLs (Some params)) (\<lambda>result.
                  with_json C (dec_slice dec_fname) result (\<lambda>xs. ok (map Println (elems xs))))
              else if command = ''mkdir'' then
                with_reply (sendRequest C MsgSFTPMkdir (Some params)) (\<lambda>_. ok [Printf ''Directory created: %s'' [AStr path]])
              else if command = ''rm'' then
                with_reply (sendRequest C MsgSFTPRm (Some params)) (\<lambda>_. ok [Printf ''File removed: %s'' [AStr path]])
              else fails (Errorf ''unknown SFTP command: %s (want ls, mkdir, or rm)'' [AStr command]))"

definition handlePing :: "rpc_env \<Rightarrow> run" where
  "handlePing C = with_reply (sendRequest C MsgPing None) (\<lambda>_. ok [Printf ''Daemon is running'' []])"

definition handleStop :: "rpc_env \<Rightarrow> run" where
  "handleStop C = with_reply (sendRequest C MsgStop None) (\<lambda>_. ok [Printf ''Daemon stopping'' []])"

section \<open>Main\<close>

text \<open>The loop that takes every \<open>-S path\<close> out of the arguments.\<close>

fun strip_S :: "string \<Rightarrow> string list \<Rightarrow> string \<times> string list" where
  "strip_S path (a # b # rest) =
     (if a = ''-S'' then strip_S b rest
      else (case strip_S path (b # rest) of (path', args) \<Rightarrow> (path', a # args)))"
| "strip_S path args = (path, args)"

text \<open>\<open>runDaemon\<close>'s flags; the daemon itself is modelled apart.\<close>

definition run_server :: "cli_env \<Rightarrow> string \<Rightarrow> string list \<Rightarrow> run" where
  "run_server ce path args =
     with_flags [(''S'', FStr path)] args (\<lambda>f pos. map_option (\<lambda>e. ([], Returned e)) (ce_server ce (flag_str f ''S'')))"

definition lifecycle :: "string \<Rightarrow> bool" where
  "lifecycle cmd \<longleftrightarrow> cmd \<in> {''start'', ''stop'', ''ping'', ''server''}"

definition run_command :: "cli_env \<Rightarrow> string \<Rightarrow> string \<Rightarrow> string list \<Rightarrow> run" where
  "run_command ce path cmd sub =
     (let Cs = (\<lambda>k. (ce_rpc ce k)\<lparr>rc_path := path, rc_allowAutoStart := \<not> lifecycle cmd\<rparr>); C = Cs 0 in
      if cmd = ''start'' then handleStart C (ce_probe ce)
      else if cmd = ''server'' then run_server ce path sub
      else if cmd = ''connect'' then handleConnect C (ce_user ce) sub
      else if cmd = ''local'' then handleLocal C sub
      else if cmd = ''kill'' then handleKill C sub
      else if cmd = ''exec'' then handleExec C sub
      else if cmd = ''run'' then handleRun C sub
      else if cmd = ''list'' \<or> cmd = ''ls'' then handleList C sub
      else if cmd = ''use'' then handleUse C sub
      else if cmd = ''forward'' then handleForward C sub
      else if cmd = ''forwards'' then handleForwards C sub
      else if cmd = ''forward-close'' then handleForwardClose C sub
      else if cmd = ''scp'' \<or> cmd = ''sync'' then handleSCP C sub
      else if cmd = ''sftp'' then handleSFTP C sub
      else if cmd = ''ping'' then handlePing C
      else if cmd = ''stop'' then handleStop C
      else if cmd = ''help'' then ok [Usage]
      else if CHR ''@'' \<in> set cmd then handleDestination Cs (ce_user ce) cmd sub
      else Some ([ErrPrintf ''Unknown command: %s'' [AStr cmd], Usage], Exited 1))"

text \<open>The status a process ends with; Go's runtime ends a panicking one with 2.\<close>

fun exit_status :: "outp list \<times> finish \<Rightarrow> outp list \<times> int" where
  "exit_status (out, Returned None) = (out, 0)"
| "exit_status (out, Returned (Some e)) = (out @ [ErrPrintf ''Error: %v'' [AErr e]], 1)"
| "exit_status (out, Exited n) = (out, n)"
| "exit_status (out, Panicked) = (out, 2)"

definition gssh_main :: "cli_env \<Rightarrow> string list \<Rightarrow> (outp list \<times> int) option" where
  "gssh_main ce argv =
     (case strip_S (Default (ce_sock ce)) argv of
        (path, []) \<Rightarrow> Some ([Usage], 1)
      | (path, cmd # sub) \<Rightarrow>
          if cmd = ''-v'' \<or> cmd = ''--version'' then Some ([Printf ''gssh version %s'' [AStr ''dev'']], 0)
          else if cmd = ''-h'' \<or> cmd = ''--help'' then Some ([Usage], 0)
          else map_option exit_status (run_command ce path cmd sub))"


section \<open>Lemmas: specifications\<close>

text \<open>A session name a transfer can address, before the given path.\<close>

definition spec_name :: "string \<Rightarrow> string \<Rightarrow> bool" where
  "spec_name n p \<longleftrightarrow> n \<noteq> '''' \<and> CHR '':'' \<notin> set n \<and> CHR ''/'' \<notin> set n \<and> CHR 0x5C \<notin> set n
     \<and> \<not> (length n = 1 \<and> p \<noteq> '''' \<and> hd p = CHR 0x5C)"

lemma splitRemoteSpec_colon:
  assumes "CHR '':'' \<notin> set n"
  shows "splitRemoteSpec (n @ '':'' @ p) = (if spec_name n p then Some (n, if p = '''' then ''.'' else p) else None)"
proof -
  have I: "Index (n @ CHR '':'' # p) CHR '':'' = Some (length n)" by (rule Index_append[OF assms])
  have C: "ContainsAny n [CHR ''/'', CHR 0x5C] \<longleftrightarrow> CHR ''/'' \<in> set n \<or> CHR 0x5C \<in> set n"
    by (auto simp: ContainsAny_def list_ex_iff)
  have P: "HasPrefix p [CHR 0x5C] \<longleftrightarrow> p \<noteq> '''' \<and> hd p = CHR 0x5C" by (cases p) (auto simp: HasPrefix_def)
  show ?thesis
    using assms by (auto simp: splitRemoteSpec_def I C P spec_name_def Suc_le_eq)
qed

lemma splitRemoteSpec_Some:
  "splitRemoteSpec s = Some (n, q) \<longleftrightarrow> (\<exists>p. s = n @ '':'' @ p \<and> spec_name n p \<and> q = (if p = '''' then ''.'' else p))"
proof
  assume S: "splitRemoteSpec s = Some (n, q)"
  then obtain i where I: "Index s CHR '':'' = Some i" by (auto simp: splitRemoteSpec_def split: option.splits)
  from Index_Some_split[OF I] have s: "s = take i s @ '':'' @ drop (Suc i) s" "CHR '':'' \<notin> set (take i s)" by auto
  from splitRemoteSpec_colon[OF s(2), of "drop (Suc i) s"] S s(1)
  show "\<exists>p. s = n @ '':'' @ p \<and> spec_name n p \<and> q = (if p = '''' then ''.'' else p)"
    by (intro exI[of _ "drop (Suc i) s"]) (auto split: if_splits)
next
  assume "\<exists>p. s = n @ '':'' @ p \<and> spec_name n p \<and> q = (if p = '''' then ''.'' else p)"
  then show "splitRemoteSpec s = Some (n, q)" using splitRemoteSpec_colon by (auto simp: spec_name_def)
qed

lemma SplitAt_two: "SplitAt c s = [p, q] \<longleftrightarrow> s = p @ c # q \<and> c \<notin> set p \<and> c \<notin> set q"
proof
  assume S: "SplitAt c s = [p, q]"
  have "Join [c] [p, q] = s" using Join_SplitAt[of c s] unfolding S .
  then show "s = p @ c # q \<and> c \<notin> set p \<and> c \<notin> set q"
    using SplitAt_parts_no_sep[of p c s] SplitAt_parts_no_sep[of q c s] S by simp
qed (auto simp: SplitAt_append SplitAt_no_sep)

definition port_ok :: "int \<Rightarrow> bool" where "port_ok a \<longleftrightarrow> 1 \<le> a \<and> a \<le> 65535"

lemma parseForwardSpec_Inr:
  "parseForwardSpec s = Inr (a, b) \<longleftrightarrow>
     (\<exists>p q. s = p @ '':'' @ q \<and> CHR '':'' \<notin> set p \<and> CHR '':'' \<notin> set q \<and> Atoi p = Some a \<and> Atoi q = Some b) \<and> port_ok a \<and> port_ok b"
proof -
  have "parseForwardSpec s = Inr (a, b) \<longleftrightarrow>
      (\<exists>p q. SplitAt CHR '':'' s = [p, q] \<and> Atoi p = Some a \<and> Atoi q = Some b \<and> port_ok a \<and> port_ok b)"
    by (auto simp: parseForwardSpec_def port_ok_def split: list.splits option.splits if_splits)
  then show ?thesis unfolding SplitAt_two by auto
qed

lemma strip_S_none: "''-S'' \<notin> set args \<Longrightarrow> strip_S path args = (path, args)"
  by (induction path args rule: strip_S.induct) auto

lemma strip_S_first: "''-S'' \<notin> set pre \<Longrightarrow> strip_S path (pre @ ''-S'' # x # post) = (case strip_S x post of (p, as) \<Rightarrow> (p, pre @ as))"
proof (induction pre)
  case (Cons a pre)
  then show ?case by (cases pre) (auto split: prod.split)
qed simp


section \<open>Lemmas: commands\<close>

lemma flag_arg_not_S: "flag_arg a \<noteq> ''-S''"
proof -
  have "CHR ''='' \<in> set (flag_arg a)" by (simp add: flag_arg_def)
  then show ?thesis by auto
qed

lemma main_command:
  assumes "''-S'' \<notin> set (cmd # sub)" "cmd \<notin> {''-v'', ''--version'', ''-h'', ''--help''}"
  shows "gssh_main ce (cmd # sub) = map_option exit_status (run_command ce (Default (ce_sock ce)) cmd sub)"
  using assms strip_S_none[of "cmd # sub"] by (simp add: gssh_main_def)

lemma exit_status_code: "exit_status (out, if n \<noteq> 0 then Exited n else Returned None) = (out, n)"
  by simp

text \<open>What a buffered exec command prints.\<close>

definition exec_output :: "bool \<Rightarrow> ExecResult \<Rightarrow> byte list \<Rightarrow> outp list" where
  "exec_output rawOut r data =
     (if rawOut then PrintRaw (er_Stdout r) # (if er_Stderr r \<noteq> '''' then [ErrRaw (er_Stderr r)] else []) else [PrintLine data])"

lemma printExecResult_ok:
  assumes "carried C E (enc_ExecResult r)" "int_ok (er_ExitCode r)" "rc_marshal C (enc_ExecResult r) = Inr data"
  shows "map_option exit_status (printExecResult C (sv_marshal E (enc_ExecResult r)) rawOut) = Some (exec_output rawOut r data, er_ExitCode r)"
  using assms rt_ExecResult[of r]
  by (simp add: printExecResult_def with_json_def unmarshal_def carried_def exec_output_def Let_def)

section \<open>Properties\<close>





text \<open>
  Options after the first argument are dropped.  \<open>gssh use\<close> reads its flags only up to the
  session's name: whatever follows the name, a password or a key in particular, is ignored without
  an error, and the session is reconnected without it; and \<open>gssh connect\<close> with anything after the
  destination is refused.  The usage text and the README give the options in these places.
\<close>

theorem options_after_name:
  assumes "\<not> (2 \<le> length name \<and> hd name = CHR ''-'')"
  shows "handleUse C (name # opts) =
      with_reply (sendRequestWithTimeout C MsgUse (Some (enc_UseParams
        \<lparr>up_Name = name, up_Password = '''', up_KeyPath = ''''\<rparr>)) connectRPCTimeout) (\<lambda>_. ok [Printf ''Using session: %s'' [AStr name]])
    \<and> handleConnect C current (name # x # xs) = fails (Errorf ''destination required: gssh connect [flags] user@host'' [])"
proof -
  have F: "flag_Parse fs (name # args) = Inr (fs, name # args)" for fs args
    using assms by (intro flag_Parse_stops) auto
  show ?thesis by (simp add: handleUse_def handleConnect_def with_flags_def F flag_str_def del: flag_Parse.simps)
qed

text \<open>
  C40: the global option \<open>-S\<close> is taken out of the user's command.  If the words of a command contain
  \<open>-S\<close> and another word, the two are removed from the command that is run, and the second becomes the
  path of the daemon's socket: \<open>gssh exec -- sudo -S ls\<close> asks the daemon at \<open>ls\<close> to run \<open>sudo\<close>.
\<close>

theorem S_taken_from_command:
  assumes "cmd \<notin> {''-S'', ''-v'', ''--version'', ''-h'', ''--help''}" "''-S'' \<notin> set pre" "''-S'' \<notin> set post"
  shows "gssh_main ce (cmd # pre @ ''-S'' # x # post) = map_option exit_status (run_command ce x cmd (pre @ post))"
proof -
  have "''-S'' \<notin> set (cmd # pre)" using assms(1,2) by auto
  from strip_S_first[OF this, of "Default (ce_sock ce)" x post] have "strip_S (Default (ce_sock ce)) (cmd # pre @ ''-S'' # x # post) = (x, cmd # pre @ post)"
    using strip_S_none[OF assms(3)] by simp
  then show ?thesis using assms(1) by (simp add: gssh_main_def)
qed

section \<open>Witnesses\<close>

definition cli_demo :: cli_env where
  "cli_demo = \<lparr>ce_sock = demo_sock, ce_user = Inr ''me'', ce_rpc = (\<lambda>_. demo_rpc demo_table demo_up_daemon),
     ce_probe = demo_dial (Inl (SysErr ENOENT)), ce_server = (\<lambda>_. None)\<rparr>"

lemma cli_demo_links:
  defines "C \<equiv> (ce_rpc cli_demo 0)\<lparr>rc_path := Default (ce_sock cli_demo), rc_allowAutoStart := True\<rparr>"
  shows "dialled C" "rc_answers C = daemon_answers (table_senv demo_table) demo_up_daemon"
    "\<And>j. j \<in> set demo_table \<Longrightarrow> sends C (table_senv demo_table) j (table_enc demo_table j)"
    "\<And>j. j \<in> set demo_table \<Longrightarrow> carried C (table_senv demo_table) j" "\<And>j. rc_marshal C j = Inr (table_enc demo_table j)"
proof -
  have l: "length demo_table \<le> 256" by (simp add: demo_table_def)
  note T = table_links[OF l]
  show "dialled C" "rc_answers C = daemon_answers (table_senv demo_table) demo_up_daemon" "\<And>j. rc_marshal C j = Inr (table_enc demo_table j)"
    by (simp_all add: C_def cli_demo_def demo_rpc_def dialled_def dialDaemon_def)
  show "sends C (table_senv demo_table) j (table_enc demo_table j)" "carried C (table_senv demo_table) j" if "j \<in> set demo_table" for j
    using T(3)[OF that] T(4)[OF that] by (simp_all add: C_def cli_demo_def sends_def carried_def)
qed



theorem options_after_name_witness:
  "handleConnect (ce_rpc cli_demo 0) (Inr ''me'') [''u@h'', ''-p'', ''2222''] = fails (Errorf ''destination required: gssh connect [flags] user@host'' [])"
  using options_after_name[of "''u@h''" "ce_rpc cli_demo 0" "[]" "Inr ''me''" "''-p''" "[''2222'']"] by simp

theorem S_taken_from_command_witness:
  "gssh_main cli_demo [''exec'', ''--'', ''sudo'', ''-S'', ''ls''] = map_option exit_status (run_command cli_demo ''ls'' ''exec'' [''--'', ''sudo''])"
  using S_taken_from_command[of "''exec''" "[''--'', ''sudo'']" "[]" cli_demo "''ls''"] by simp

end
