(* ===== verification/Spec2Isabelle.thy ===== *)
theory Spec2Isabelle
  imports Imsg Shellquote Ssh_Client Session_Manager Session_Races Session_Registry Port_Forward Forward_Races Protocol Executor
    Reconnect_Monitor Socket_Path Peer_Cred Audit_Log Persist_Store Safe_Root Safe_Root_Fallback Sftp_Transfer Daemon_Server
    Rpc_Client Daemon_Lifecycle Go_Flag Cli_Commands
begin

text \<open>
  \<^bold>\<open>A verification of gssh\<close>

  gssh keeps SSH sessions open for programs that run many commands: a daemon owns the connections,
  a command-line client sends it one request per call over a Unix socket.  This development models
  the Go sources under \<open>src/cmd\<close>, \<open>src/internal\<close> and \<open>src/pkg\<close> as functions and step relations and
  proves what makes them correct.  Each theory follows one source file, in its order and under its
  names; a name that HOL already uses has a suffix or the receiver's type as a prefix.

  \<^bold>\<open>The parts and how they meet.\<close>  The client (\<open>Cli_Commands\<close>) parses its arguments with the \<open>flag\<close>
  package (\<open>Go_Flag\<close>), finds or starts the daemon and exchanges frames with it (\<open>Rpc_Client\<close>, over
  \<open>Imsg\<close> and \<open>Protocol\<close>).  The daemon (\<open>Daemon_Server\<close>; its start and shutdown in \<open>Daemon_Lifecycle\<close>)
  dispatches each message to the session manager (\<open>Session_Manager\<close>), the executor (\<open>Executor\<close>),
  the forwarding service (\<open>Port_Forward\<close>), the file transfer (\<open>Sftp_Transfer\<close>) and the reconnect
  monitor (\<open>Reconnect_Monitor\<close>), logs (\<open>Audit_Log\<close>) and saves its sessions (\<open>Persist_Store\<close>).

  \<^bold>\<open>Theories, sources, state.\<close>

  \<^item> \<open>Gssh_Prelude\<close>: bytes, Go errors (\<open>go_err\<close>, with wrapping and \<open>errors.Is\<close>), results \<open>'a res\<close>
    (\<open>Inl\<close> an error), the functions of \<open>strings\<close> and \<open>strconv\<close> that the sources call, and map
    iteration orders (\<open>range_order\<close>).  \<open>Gopath\<close>: \<open>path/filepath\<close> on Unix.
  \<^item> \<open>Imsg\<close>: \<open>pkg/imsg/imsg.go\<close>.  A connection is the bytes still to be read and the bytes written.
  \<^item> \<open>Protocol\<close>: \<open>internal/protocol\<close>.  A record per Go structure, with its conversion to and from
    JSON values (field names, \<open>omitempty\<close>).
  \<^item> \<open>Shellquote\<close>: \<open>internal/shellquote/quote.go\<close> and the client's two quoting functions.
  \<^item> \<open>Ssh_Client\<close>: \<open>internal/ssh/client.go\<close>, with the ssh and knownhosts packages, the agent and the
    operating system in one environment record.
  \<^item> \<open>Session_Manager\<close>: \<open>internal/session/session.go\<close>.  The manager's map takes names to references
    into a store of session objects, and those to client objects, so that two goroutines that hold
    the same session see each other's changes.  The model runs each operation alone;
    \<open>Session_Races\<close> cuts the same operations at the code's locks and interleaves any number of
    them, and \<open>Session_Registry\<close> states what callers see, a table of names, and proves that the
    manager refines it.
  \<^item> \<open>Executor\<close>: \<open>internal/exec/executor.go\<close>.  \<open>Port_Forward\<close>: \<open>internal/portforward/forwarder.go\<close>.
    \<open>Forward_Races\<close>: the same service with its goroutines cut at its locks.
    \<open>Reconnect_Monitor\<close>: \<open>internal/reconnect/monitor.go\<close>.  \<open>Audit_Log\<close>: \<open>internal/audit/log.go\<close>.
    \<open>Socket_Path\<close>: \<open>internal/socketpath\<close>.  \<open>Peer_Cred\<close>: \<open>cmd/gssh/peercred_*.go\<close>, \<open>spawn_*.go\<close>.  \<open>Persist_Store\<close>: \<open>internal/persist/store.go\<close>.
  \<^item> \<open>Safe_Root\<close>: \<open>internal/transfer/safefile_unix.go\<close>; \<open>Sftp_Transfer\<close>: \<open>internal/transfer/sftp.go\<close>.
    A run is the list of the system calls made with their answers, and the kernel and the SFTP
    server answer as they like, so that races with other processes are covered.
    \<open>Safe_Root_Fallback\<close>: \<open>internal/transfer/safefile_other.go\<close>, for slash-separated paths.
  \<^item> \<open>Daemon_Server\<close>: \<open>internal/server/server.go\<close>, the handlers and the connection loop; its state
    holds the states of the components.  \<open>Daemon_Lifecycle\<close>: \<open>Start\<close>, \<open>Stop\<close> and the goroutines of the
    connections as the step relation \<open>server_step\<close>, and \<open>cmd/gssh/server.go\<close>.
  \<^item> \<open>Rpc_Client\<close>: \<open>cmd/gssh/client.go\<close>.  \<open>Go_Flag\<close>, \<open>Cli_Commands\<close>: \<open>cmd/gssh/main.go\<close>, \<open>commands.go\<close>,
    \<open>dest.go\<close>.

  \<^bold>\<open>Interfaces.\<close>  Five locales state what one part relies on and are interpreted where it is provided:
  \<open>frame_writer\<close> (what \<open>io.Writer\<close> promises to \<open>WriteMessage\<close>; provided by the connection of \<open>Imsg\<close>),
  \<open>shell_quoter\<close> (a quoting that a POSIX shell reads back; provided by both quoting functions),
  \<open>session_registry\<close> (the lookups of the manager that forwarding uses; provided by the manager),
  \<open>state_machine\<close> (an invariant that every step keeps; provided by the manager and the forwarding
  service, alone and interleaved, and by the daemon and its life) and \<open>machine_refinement\<close> (from one
  operation to sequences of them; provided by the manager and its table).

  \<^bold>\<open>What is proved.\<close>

  \<^item> End to end: a command line runs its command in the session and exits with its code; a request
    gets the handler's reply, a stream arrives unchanged; every well-formed request is answered
    once, in order (\<open>Cli_Commands\<close>, \<open>Rpc_Client\<close>, \<open>Daemon_Server\<close>).
  \<^item> Invariants: of the daemon over every handler, monitor turn and restore; of the manager, in which
    every open connection has exactly one owner, alone and under every interleaving; of the
    forwarding service, whose open listeners are those of its forwards, alone and under every
    interleaving but one kind, for which there is a run that leaks.
  \<^item> Shutdown: what is left when it has returned, that draining ends, and a run in which a connect
    in flight survives it.
  \<^item> Confinement and completeness of file transfers; exactness of the lexical path checks.
  \<^item> Round trips of frames, parameters, quoting, saved state; bounds of timeouts, back-off and ports.
  \<^item> Behaviour that differs from what comments, usage texts or the documents say, each as a theorem
    about the code as it is.

  \<^bold>\<open>Loops and bounds.\<close>  There is no fuel.  Loops over input terminate because a message read shortens
  what is left (\<open>handleConn\<close>, \<open>stream_loop\<close>), because a parent directory is shorter
  (\<open>resolveExistingParent\<close>), because each wait takes 50 ms of a fixed deadline (\<open>await_loop\<close>).
  \<open>waitForDaemon\<close> polls a clock that the model does not control and is a \<open>partial_function\<close>; it is
  proved to end when the clock passes the deadline.  A call that may never return (a command
  without a timeout, a dial) is an option, and properties that promise an answer assume or prove
  that it is \<open>Some\<close>.  Frames are limited to 4 MiB, lengths and message types are words of their
  width, timeouts in nanoseconds are 64-bit words that wrap.

  \<^bold>\<open>Assumed.\<close>  Hypotheses name what code outside the repository does: the JSON codec carries the
  records that are sent and keeps frames within bounds (\<open>carried\<close>, \<open>guard_fits\<close>), map iteration
  enumerates the keys once, new identifiers are new (\<open>env_ok\<close>), a new descriptor is not one that is
  open.  Each property with hypotheses has an instance at concrete values after it.

  \<^bold>\<open>Not modelled.\<close>  The usage text of \<open>main.go\<close>; log messages of the daemon; paths of Windows; what the operating
  system, the ssh, sftp, agent, knownhosts and JSON libraries do, which are fields of the
  environments.  The Go memory model is taken as sequential consistency at the granularity of the locks.
\<close>

end
